(* ===== verification/Prelude.thy ===== *)
theory Prelude
  imports Main "HOL-Library.Word" "HOL-Library.AList" "HOL-Library.Sublist"
    "HOL-Library.Char_ord" "HOL-Library.List_Lexorder"
begin

unbundle bit_operations_syntax

text \<open>
  Shared vocabulary of the development: Go's fixed-width integers as words, Go strings as byte
  lists, Go maps as association lists with distinct keys, and the parts of the standard library
  (\<^verbatim>\<open>strconv\<close>, \<^verbatim>\<open>strings\<close>, the integer verbs of \<^verbatim>\<open>fmt\<close>) that the sources call.

  The locale \<open>swept_table\<close> is the contract that three components implement: a map that is pruned
  on the event path and emptied when it reaches a hard ceiling.  Its extension \<open>swept_cache\<close> adds
  the insertion that follows the pruning and proves the ceiling once for every client.
\<close>

section \<open>Types\<close>

type_synonym u8 = "8 word"
type_synonym u16 = "16 word"
type_synonym u32 = "32 word"
type_synonym u64 = "64 word"

text \<open>
  \<open>int64\<close> and \<open>time.Duration\<close> are 64-bit words read through \<open>sint\<close>; the conversions
  \<open>uint64(x)\<close> and \<open>int64(x)\<close> of the sources keep the bits and are therefore the identity here.
\<close>

type_synonym i64 = "64 word"
type_synonym Duration = "64 word"

type_synonym ('k, 'v) gomap = "('k \<times> 'v) list"
type_synonym args = "(string, string) gomap"

named_theorems wf_intros \<open>preservation rules of the components' invariants\<close>
named_theorems keep \<open>fields an operation leaves unchanged\<close>

section \<open>Go strings\<close>

definition digit_char :: "nat \<Rightarrow> char" where
  "digit_char d = ''0123456789abcdef'' ! d"

fun nat_digits :: "nat \<Rightarrow> nat \<Rightarrow> string" where
  "nat_digits b n =
     (if b < 2 \<or> n < b then [digit_char n] else nat_digits b (n div b) @ [digit_char (n mod b)])"

declare nat_digits.simps [simp del]

definition dec :: "nat \<Rightarrow> string" where
  "dec n = nat_digits 10 n"

definition FormatUint :: "'a::len word \<Rightarrow> string" where
  "FormatUint v = dec (unat v)"

definition FormatInt :: "i64 \<Rightarrow> string" where
  "FormatInt v = (if sint v < 0 then CHR ''-'' # dec (nat (- sint v)) else dec (nat (sint v)))"

definition hex_u64 :: "u64 \<Rightarrow> string" where
  "hex_u64 v = ''0x'' @ nat_digits 16 (unat v)"

definition oct_u64 :: "u64 \<Rightarrow> string" where
  "oct_u64 v = ''0'' @ nat_digits 8 (unat v)"

fun join :: "string \<Rightarrow> string list \<Rightarrow> string" where
  "join sep [] = []"
| "join sep [x] = x"
| "join sep (x # y # ys) = x @ sep @ join sep (y # ys)"

text \<open>\<open>strings.Split(s, sep)\<close> for a one-byte separator.\<close>

fun split_on :: "char \<Rightarrow> string \<Rightarrow> string list" where
  "split_on c [] = [[]]"
| "split_on c (x # xs) =
     (if x = c then [] # split_on c xs
      else case split_on c xs of [] \<Rightarrow> [[x]] | y # ys \<Rightarrow> (x # y) # ys)"

text \<open>\<open>strings.TrimSpace\<close>: the white space of Unicode, as the bytes of its UTF-8 forms, is taken off both ends.\<close>

definition is_space :: "char \<Rightarrow> bool" where
  "is_space c \<longleftrightarrow> c \<in> {CHR '' '', CHR 0x09, CHR 0x0A, CHR 0x0B, CHR 0x0C, CHR 0x0D}"

definition wide_spaces :: "string list" where
  "wide_spaces =
     [[CHR 0xC2, CHR 0x85], [CHR 0xC2, CHR 0xA0], [CHR 0xE1, CHR 0x9A, CHR 0x80]] @
     map (\<lambda>b. [CHR 0xE2, CHR 0x80, b])
       [CHR 0x80, CHR 0x81, CHR 0x82, CHR 0x83, CHR 0x84, CHR 0x85, CHR 0x86, CHR 0x87, CHR 0x88, CHR 0x89,
        CHR 0x8A, CHR 0xA8, CHR 0xA9, CHR 0xAF] @
     [[CHR 0xE2, CHR 0x81, CHR 0x9F], [CHR 0xE3, CHR 0x80, CHR 0x80]]"

text \<open>The length of a white-space rune at the front, zero when there is none; \<open>wides\<close> are the forms of more than
  one byte.\<close>

definition space_width :: "string list \<Rightarrow> string \<Rightarrow> nat" where
  "space_width wides s =
     (if s \<noteq> [] \<and> is_space (hd s) then 1 else case find (\<lambda>w. prefix w s) wides of None \<Rightarrow> 0 | Some w \<Rightarrow> length w)"

function trim_front :: "string list \<Rightarrow> string \<Rightarrow> string" where
  "trim_front wides s =
     (if s = [] \<or> space_width wides s = 0 then s else trim_front wides (drop (space_width wides s) s))"
  by pat_completeness auto
termination by (relation "measure (\<lambda>(wides, s). length s)") auto

declare trim_front.simps [simp del]

definition TrimSpace :: "string \<Rightarrow> string" where
  "TrimSpace s = rev (trim_front (map rev wide_spaces) (rev (trim_front wide_spaces s)))"

lemma trim_front_Nil [simp]: "trim_front wides [] = []"
  by (simp add: trim_front.simps)

lemma TrimSpace_Nil [simp]: "TrimSpace [] = []"
  by (simp add: TrimSpace_def)

lemma trim_front_stop: "space_width wides s = 0 \<Longrightarrow> trim_front wides s = s"
  by (simp add: trim_front.simps)

text \<open>A text whose first and last bytes are ASCII and no white space is left alone.\<close>

definition firm :: "char \<Rightarrow> bool" where
  "firm c \<longleftrightarrow> (of_char c :: nat) < 0x80 \<and> \<not> is_space c"

lemma firm_width:
  assumes "s \<noteq> []" and "firm (hd s)"
  shows "space_width wide_spaces s = 0" and "space_width (map rev wide_spaces) s = 0"
proof -
  obtain c r where s: "s = c # r" using assms(1) by (cases s) simp_all
  have "\<not> prefix w s" if "w \<in> set wide_spaces \<union> rev ` set wide_spaces" for w
    using assms(2) that unfolding s by (auto simp: wide_spaces_def firm_def)
  then have "find (\<lambda>w. prefix w s) wide_spaces = None" "find (\<lambda>w. prefix w s) (map rev wide_spaces) = None"
    unfolding find_None_iff by auto
  then show "space_width wide_spaces s = 0" "space_width (map rev wide_spaces) s = 0"
    using assms by (simp_all add: space_width_def firm_def)
qed

lemma TrimSpace_firm: "s \<noteq> [] \<Longrightarrow> firm (hd s) \<Longrightarrow> firm (last s) \<Longrightarrow> TrimSpace s = s"
  using firm_width(1) [of s] firm_width(2) [of "rev s"]
  by (simp add: TrimSpace_def trim_front_stop hd_rev)

text \<open>\<open>strings.Cut(s, c)\<close>: the part before the first occurrence of the byte.\<close>

definition cut_before :: "char \<Rightarrow> string \<Rightarrow> string" where
  "cut_before c s = takeWhile (\<lambda>x. x \<noteq> c) s"

section \<open>Go maps\<close>

abbreviation mapset :: "'k \<Rightarrow> 'v \<Rightarrow> ('k, 'v) gomap \<Rightarrow> ('k, 'v) gomap" where
  "mapset \<equiv> AList.update"

abbreviation mapdel :: "'k \<Rightarrow> ('k, 'v) gomap \<Rightarrow> ('k, 'v) gomap" where
  "mapdel \<equiv> AList.delete"

abbreviation distinct_keys :: "('k, 'v) gomap \<Rightarrow> bool" where
  "distinct_keys m \<equiv> distinct (map fst m)"

text \<open>Reading a missing string key of a Go map gives the empty string.\<close>

definition mapget :: "'k \<Rightarrow> ('k, string) gomap \<Rightarrow> string" where
  "mapget k m = (case map_of m k of None \<Rightarrow> [] | Some v \<Rightarrow> v)"

section \<open>Lemmas on strings\<close>

definition digit_val :: "char \<Rightarrow> nat" where
  "digit_val c = (if of_char c < (58::nat) then of_char c - 48 else of_char c - 87)"

definition digits_val :: "nat \<Rightarrow> string \<Rightarrow> nat" where
  "digits_val b s = foldl (\<lambda>a c. a * b + digit_val c) 0 s"

lemma less_16_cases:
  assumes "d < (16::nat)"
  shows "d \<in> {0,1,2,3,4,5,6,7,8,9,10,11,12,13,14,15}"
  using assms by simp presburger

lemma digit_val_char [simp]: "d < 16 \<Longrightarrow> digit_val (digit_char d) = d"
  by (drule less_16_cases) (auto simp: digit_val_def digit_char_def)

lemma digits_val_nat_digits:
  "2 \<le> b \<Longrightarrow> b \<le> 16 \<Longrightarrow> digits_val b (nat_digits b n) = n"
proof (induction b n rule: nat_digits.induct)
  case (1 b n)
  show ?case
  proof (cases "n < b")
    case True
    with 1 show ?thesis by (simp add: nat_digits.simps [of b n] digits_val_def)
  next
    case False
    with 1 have IH: "digits_val b (nat_digits b (n div b)) = n div b" by simp
    from 1 have "n mod b < 16" 
      using mod_less_divisor [of b n] by linarith
    with False IH 1 show ?thesis
      by (simp add: nat_digits.simps [of b n] digits_val_def)
  qed
qed

lemma digits_val_dec: "digits_val 10 (dec n) = n"
  unfolding dec_def by (rule digits_val_nat_digits) simp_all

lemma dec_inject [simp]: "dec m = dec n \<longleftrightarrow> m = n"
  by (metis digits_val_dec)

lemma FormatUint_inject [simp]: "FormatUint v = FormatUint w \<longleftrightarrow> v = w"
  by (simp add: FormatUint_def word_unat_eq_iff)

lemma set_nat_digits:
  "2 \<le> b \<Longrightarrow> b \<le> 16 \<Longrightarrow> set (nat_digits b n) \<subseteq> digit_char ` {..<b}"
proof (induction b n rule: nat_digits.induct)
  case (1 b n)
  then show ?case by (auto simp: nat_digits.simps [of b n])
qed

lemma digit_char_decimal: "d < 10 \<Longrightarrow> digit_char d \<in> set ''0123456789''"
  by (auto simp: digit_char_def less_Suc_eq numeral_eq_Suc)

lemma set_dec: "set (dec n) \<subseteq> set ''0123456789''"
  using set_nat_digits [of 10 n] digit_char_decimal by (auto simp: dec_def)

lemma dec_nonempty [simp]: "dec n \<noteq> []"
  by (simp add: dec_def nat_digits.simps [of 10 n])

lemma not_in_dec: "c \<notin> set ''0123456789'' \<Longrightarrow> c \<notin> set (dec n)"
  using set_dec by blast

text \<open>A field that avoids the separator is determined by what is written up to it.\<close>

lemma append_sep_inject:
  assumes "xs @ c # ys = xs' @ c # ys'" and "c \<notin> set xs" and "c \<notin> set xs'"
  shows "xs = xs' \<and> ys = ys'"
  using assms
proof (induction xs arbitrary: xs')
  case Nil
  then show ?case by (cases xs') auto
next
  case (Cons x xs)
  then show ?case by (cases xs') auto
qed

lemma join_Nil_iff: "[] \<notin> set xs \<Longrightarrow> join sep xs = [] \<longleftrightarrow> xs = []"
  by (induction sep xs rule: join.induct) auto

lemma split_on_no_sep: "c \<notin> set x \<Longrightarrow> split_on c x = [x]"
  by (induction x) auto

lemma split_on_append:
  "c \<notin> set x \<Longrightarrow> split_on c (x @ c # xs) = x # split_on c xs"
  by (induction x) auto

lemma split_join:
  "xs \<noteq> [] \<Longrightarrow> \<forall>x \<in> set xs. c \<notin> set x \<Longrightarrow> split_on c (join [c] xs) = xs"
proof (induction "[c]" xs rule: join.induct)
  case (3 x y ys)
  then show ?case by (simp add: split_on_append)
qed (simp_all add: split_on_no_sep)

lemma digits_val_hex: "digits_val 16 (nat_digits 16 n) = n"
  by (rule digits_val_nat_digits) simp_all

lemma digit_char_hex: "d < 16 \<Longrightarrow> digit_char d \<in> set ''0123456789abcdef''"
  unfolding digit_char_def by (rule nth_mem) simp

lemma set_nat_digits_16: "set (nat_digits 16 n) \<subseteq> set ''0123456789abcdef''"
  using set_nat_digits [of 16 n] digit_char_hex by fastforce

lemma FormatInt_inject [simp]: "FormatInt v = FormatInt w \<longleftrightarrow> v = w"
proof -
  have minus: "CHR ''-'' # xs \<noteq> dec n" for xs n

  proof
    assume "CHR ''-'' # xs = dec n"
    then have "CHR ''-'' \<in> set (dec n)" by (metis list.set_intros(1))
    then show False using not_in_dec [of "CHR ''-''" n] by simp
  qed
  have "FormatInt v = FormatInt w \<Longrightarrow> sint v = sint w"
    using minus minus [symmetric] by (auto simp: FormatInt_def split: if_splits)
  then show ?thesis using signed_word_eqI by blast
qed

section \<open>Lemmas on words\<close>

lemma or_clear_bits: "x AND m = m \<Longrightarrow> m OR (x AND NOT m) = x"
  for x m :: "'a::len word"
  by (metis bit.conj_disj_distrib2 bit.conj_one_right bit.disj_cancel_right or.commute and.commute)

lemma or_split_mask: "(x AND m) OR (x AND NOT m) = x"
  for x m :: "'a::len word"
  by (metis bit.conj_disj_distrib bit.conj_one_right bit.disj_cancel_right)

lemma and_single_bit: "x AND 2 ^ n = (if bit x n then 2 ^ n else 0)"
  for x :: "'a::len word"
  by (rule bit_word_eqI) (auto simp: bit_simps)

lemma unat_u32_less: "unat (x::u32) < 4294967296"
  using unsigned_less [of x] by simp

lemma unat_u64_less: "unat (x::u64) < 18446744073709551616"
  using unsigned_less [of x] by simp

section \<open>Lemmas on maps\<close>

lemma map_of_mapset [simp]: "map_of (mapset k v m) = (map_of m)(k \<mapsto> v)"
  by (rule update_conv')

lemma map_of_mapdel [simp]: "map_of (mapdel k m) = (map_of m)(k := None)"
  by (rule delete_conv')

lemma distinct_mapset [simp]: "distinct_keys m \<Longrightarrow> distinct_keys (mapset k v m)"
  by (rule distinct_update)

lemma distinct_mapdel [simp]: "distinct_keys m \<Longrightarrow> distinct_keys (mapdel k m)"
  by (rule distinct_delete)

lemma set_mapset:
  "distinct_keys m \<Longrightarrow> set (mapset k v m) = insert (k, v) {e \<in> set m. fst e \<noteq> k}"
  by (induction m) (force simp: rev_image_eqI)+

lemma set_mapdel: "set (mapdel k m) = {e \<in> set m. fst e \<noteq> k}"
  by (auto simp: AList.delete_eq)

lemma length_mapset_le: "length (mapset k v m) \<le> Suc (length m)"
  by (induction m) auto

lemma length_mapset:
  "length (mapset k v m) = (if k \<in> fst ` set m then length m else Suc (length m))"
  by (induction m) auto

lemma distinct_keys_filter [simp]: "distinct_keys m \<Longrightarrow> distinct_keys (filter P m)"
  by (induction m) auto

lemma map_of_kept:
  "distinct_keys m \<Longrightarrow>
   map_of (filter P m) k = (case map_of m k of None \<Rightarrow> None | Some v \<Rightarrow> if P (k, v) then Some v else None)"
proof (induction m)
  case Nil
  then show ?case by simp
next
  case (Cons e m)
  then show ?case
    by (cases e) (auto split: option.splits dest: map_of_SomeD intro: rev_image_eqI)
qed

section \<open>Pruned, bounded tables\<close>

locale swept_table =
  fixes ok :: "'t \<Rightarrow> bool"
    and tab :: "'t \<Rightarrow> ('k, 'v) gomap"
    and sweep :: "u64 \<Rightarrow> 't \<Rightarrow> 't"
    and stale :: "u64 \<Rightarrow> 't \<Rightarrow> 'k \<times> 'v \<Rightarrow> bool"
    and cap :: "'t \<Rightarrow> nat"
  assumes cap_pos: "ok t \<Longrightarrow> 0 < cap t"
    and sweep_cases: "ok t \<Longrightarrow>
      (tab (sweep now t) = tab t \<and> length (tab t) < cap t) \<or>
      (let kept = filter (\<lambda>e. \<not> stale now t e) (tab t)
       in tab (sweep now t) = (if cap t \<le> length kept then [] else kept))"
begin

lemma sweep_below_cap: "ok t \<Longrightarrow> length (tab (sweep now t)) < cap t"
  using sweep_cases [of t now] cap_pos [of t] by (auto simp: Let_def split: if_splits)

lemma sweep_subset: "ok t \<Longrightarrow> set (tab (sweep now t)) \<subseteq> set (tab t)"
  using sweep_cases [of t now] by (auto simp: Let_def split: if_splits)

lemma sweep_distinct: "ok t \<Longrightarrow> distinct_keys (tab t) \<Longrightarrow> distinct_keys (tab (sweep now t))"
  using sweep_cases [of t now] by (auto simp: Let_def split: if_splits)

text \<open>Below the ceiling, an entry that is not stale survives the pruning.\<close>

lemma fresh_survives:
  assumes "ok t" and "length (tab t) < cap t" and "e \<in> set (tab t)" and "\<not> stale now t e"
  shows "e \<in> set (tab (sweep now t))"
proof -
  let ?kept = "filter (\<lambda>e. \<not> stale now t e) (tab t)"
  have "length ?kept \<le> length (tab t)" by simp
  then have "length ?kept < cap t" using assms(2) by linarith
  then show ?thesis using sweep_cases [OF assms(1), of now] assms(3,4) by (auto simp: Let_def)
qed

lemma fresh_lookup:
  assumes "ok t" and "distinct_keys (tab t)" and "length (tab t) < cap t"
    and "map_of (tab t) k = Some v" and "\<not> stale now t (k, v)"
  shows "map_of (tab (sweep now t)) k = Some v"
  using fresh_survives [OF assms(1,3) map_of_SomeD [OF assms(4)] assms(5)]
    sweep_distinct [OF assms(1,2)] by simp

end

locale swept_cache = swept_table ok tab sweep stale cap
  for ok :: "'t \<Rightarrow> bool" and tab :: "'t \<Rightarrow> ('k, 'v) gomap" and sweep stale cap +
  fixes at :: "'e \<Rightarrow> u64"
    and store :: "'e \<Rightarrow> 't \<Rightarrow> 't"
  assumes ok_sweep: "ok t \<Longrightarrow> ok (sweep now t)"
    and ok_store: "ok t \<Longrightarrow> ok (store e t)"
    and cap_sweep: "cap (sweep now t) = cap t"
    and cap_store: "cap (store e t) = cap t"
    and store_grows: "ok t \<Longrightarrow> length (tab (store e t)) \<le> Suc (length (tab t))"
begin

definition handle :: "'e \<Rightarrow> 't \<Rightarrow> 't" where
  "handle e t = store e (sweep (at e) t)"

lemma handle_ok: "ok t \<Longrightarrow> ok (handle e t)"
  by (simp add: handle_def ok_sweep ok_store)

lemma handle_cap: "cap (handle e t) = cap t"
  by (simp add: handle_def cap_sweep cap_store)

text \<open>However many entries the table held before, one handled event leaves it within the ceiling.\<close>

lemma handle_bounded: "ok t \<Longrightarrow> length (tab (handle e t)) \<le> cap t"
  using sweep_below_cap [of t "at e"] store_grows [OF ok_sweep, of t e "at e"]
  by (simp add: handle_def)

lemma run_bounded:
  "ok t \<Longrightarrow> length (tab t) \<le> cap t \<Longrightarrow> length (tab (fold handle es t)) \<le> cap t"
proof (induction es arbitrary: t)
  case Nil
  then show ?case by simp
next
  case (Cons e es)
  then show ?case using handle_bounded [of t e] handle_ok [of t e] handle_cap [of e t]
    by (metis fold_simps(2))
qed

end

end
