(* ===== verification/Syscalls.thy ===== *)
theory Syscalls
  imports Prelude
begin

text \<open>
  \<^verbatim>\<open>events/syscall.go\<close>: the syscall numbering shared with the kernel program, its names, and the
  local integer formatter \<open>itoa\<close> with its fixed 20-byte buffer.  A write below index 0 of that
  buffer is an index panic, the value \<open>None\<close>.  Ranging over the Go map \<open>syscallNames\<close> visits
  the entries in an unspecified order, so \<open>ParseSyscall_in\<close> takes the order as an argument.
\<close>

type_synonym Syscall = u32

definition SysUnknown :: Syscall where [simp]: "SysUnknown = 0"

definition SysExecve :: Syscall where [simp]: "SysExecve = 1"

definition SysExecveat :: Syscall where [simp]: "SysExecveat = 2"

definition SysOpenat :: Syscall where [simp]: "SysOpenat = 3"

definition SysSetuid :: Syscall where [simp]: "SysSetuid = 4"

definition SysSetgid :: Syscall where [simp]: "SysSetgid = 5"

definition SysSetresuid :: Syscall where [simp]: "SysSetresuid = 6"

definition SysSetresgid :: Syscall where [simp]: "SysSetresgid = 7"

definition SysPtrace :: Syscall where [simp]: "SysPtrace = 8"

definition SysSocket :: Syscall where [simp]: "SysSocket = 9"

definition SysConnect :: Syscall where [simp]: "SysConnect = 10"

definition SysDup2 :: Syscall where [simp]: "SysDup2 = 11"

definition SysDup3 :: Syscall where [simp]: "SysDup3 = 12"

definition SysCapset :: Syscall where [simp]: "SysCapset = 13"

definition syscallNames :: "(Syscall, string) gomap" where
  "syscallNames =
    [(SysUnknown, ''unknown''), (SysExecve, ''execve''), (SysExecveat, ''execveat''),
     (SysOpenat, ''openat''), (SysSetuid, ''setuid''), (SysSetgid, ''setgid''),
     (SysSetresuid, ''setresuid''), (SysSetresgid, ''setresgid''), (SysPtrace, ''ptrace''),
     (SysSocket, ''socket''), (SysConnect, ''connect''), (SysDup2, ''dup2''),
     (SysDup3, ''dup3''), (SysCapset, ''capset'')]"

function itoa_loop :: "u64 \<Rightarrow> nat \<Rightarrow> string \<Rightarrow> (nat \<times> string) option" where
  "itoa_loop v i buf =
     (if 0 < v then
        (if i = 0 then None
         else itoa_loop (v div 10) (i - 1) (buf[i - 1 := char_of (unat (48 + v mod 10))]))
      else Some (i, buf))"
  by pat_completeness auto
termination
  by (relation "measure (\<lambda>(v, i, buf). unat v)") (auto simp: unat_div word_less_nat_alt)

declare itoa_loop.simps [simp del]

definition itoa :: "u64 \<Rightarrow> string option" where
  "itoa v =
     (if v = 0 then Some ''0''
      else case itoa_loop v 20 (replicate 20 (CHR 0x00)) of
             None \<Rightarrow> None
           | Some (i, buf) \<Rightarrow> Some (drop i buf))"

text \<open>\<open>itoa_total\<close> below shows that the \<open>None\<close> branch (a panic) is never taken.\<close>

definition Syscall_String :: "Syscall \<Rightarrow> string" where
  "Syscall_String s =
     (case map_of syscallNames s of
        Some name \<Rightarrow> name
      | None \<Rightarrow> (case itoa (ucast s) of
                  None \<Rightarrow> []
                | Some d \<Rightarrow> ''unknown('' @ d @ '')''))"

fun ParseSyscall_in :: "(Syscall, string) gomap \<Rightarrow> string \<Rightarrow> Syscall option" where
  "ParseSyscall_in [] name = None"
| "ParseSyscall_in ((sc, n) # rest) name =
     (if n = name \<and> sc \<noteq> SysUnknown then Some sc else ParseSyscall_in rest name)"

definition ParseSyscall :: "string \<Rightarrow> Syscall option" where
  "ParseSyscall name = ParseSyscall_in syscallNames name"

definition IsExecution :: "Syscall \<Rightarrow> bool" where
  "IsExecution s \<longleftrightarrow> s = SysExecve \<or> s = SysExecveat"

definition IsCredentialChange :: "Syscall \<Rightarrow> bool" where
  "IsCredentialChange s \<longleftrightarrow> s \<in> {SysSetuid, SysSetgid, SysSetresuid, SysSetresgid}"

definition IsDup :: "Syscall \<Rightarrow> bool" where
  "IsDup s \<longleftrightarrow> s = SysDup2 \<or> s = SysDup3"

section \<open>The integer formatter\<close>

lemma digit_char_of:
  fixes v :: u64
  shows "char_of (unat (48 + v mod 10)) = digit_char (unat v mod 10)"
proof -
  have less: "unat (v mod 10) < 10" by (simp add: unat_mod)
  then have "unat (48 + v mod 10) = 48 + unat v mod 10"
    by (subst unat_add_lem [THEN iffD1]) (simp_all add: unat_mod)
  moreover have "unat v mod 10 \<in> {0,1,2,3,4,5,6,7,8,9}" by (simp; presburger)
  ultimately show ?thesis by (auto simp: digit_char_def char_of_def bit_Suc_0_iff)
qed

text \<open>
  The loop fills the buffer from the right: it stops with the decimal digits of \<open>v\<close> in front of
  what was already written, and it needs one free slot per digit.
\<close>

lemma itoa_loop_digits:
  assumes "0 < v" and "length (dec (unat v)) \<le> i" and "i \<le> length buf"
  shows "itoa_loop v i buf =
    Some (i - length (dec (unat v)), take (i - length (dec (unat v))) buf @ dec (unat v) @ drop i buf)"
  using assms
proof (induction v i buf rule: itoa_loop.induct)
  case (1 v i buf)
  let ?c = "digit_char (unat v mod 10)"
  have i: "0 < i" using "1.prems"(2) dec_nonempty [of "unat v"] by (cases i) auto
  have step: "itoa_loop v i buf = itoa_loop (v div 10) (i - 1) (buf[i - 1 := ?c])"
    using "1.prems"(1) i by (simp add: itoa_loop.simps [of v i buf] digit_char_of)
  have upd: "drop (i - 1) (buf[i - 1 := ?c]) = ?c # drop i buf"
    using i "1.prems"(3) by (simp add: drop_update_swap Cons_nth_drop_Suc [symmetric])
  show ?case
  proof (cases "unat v < 10")
    case True
    then have "v div 10 = 0" by (simp add: word_unat_eq_iff unat_div)
    then have "itoa_loop v i buf = Some (i - 1, buf[i - 1 := ?c])"
      by (simp add: step itoa_loop.simps [of 0])
    moreover have "buf[i - 1 := ?c] = take (i - 1) buf @ ?c # drop i buf"
      using i "1.prems"(3) upd by (metis append_take_drop_id take_update_cancel le_refl)
    ultimately show ?thesis using True by (simp add: dec_def nat_digits.simps [of 10 "unat v"])
  next
    case False
    have dec: "dec (unat v) = dec (unat v div 10) @ [?c]"
      using False by (simp add: dec_def nat_digits.simps [of 10 "unat v"])
    have "itoa_loop (v div 10) (i - 1) (buf[i - 1 := ?c]) =
      Some (i - 1 - length (dec (unat v div 10)),
        take (i - 1 - length (dec (unat v div 10))) (buf[i - 1 := ?c]) @ dec (unat v div 10)
          @ drop (i - 1) (buf[i - 1 := ?c]))"
      using "1.IH" "1.prems" i False dec
      by (simp add: unat_div word_less_nat_alt digit_char_of)
    then show ?thesis using dec upd by (simp add: step)
  qed
qed

lemma dec_length_bound: "n < 10 ^ k \<Longrightarrow> 0 < k \<Longrightarrow> length (dec n) \<le> k"
proof (induction k arbitrary: n)
  case 0
  then show ?case by simp
next
  case (Suc k)
  show ?case
  proof (cases "n < 10")
    case True
    then show ?thesis by (simp add: dec_def nat_digits.simps [of 10 n])
  next
    case False
    with Suc.prems have "0 < k" by (cases k) auto
    moreover have "n div 10 < 10 ^ k" using Suc.prems(1) by (simp add: less_mult_imp_div_less mult.commute)
    ultimately have "length (dec (n div 10)) \<le> k" by (rule Suc.IH [rotated])
    then show ?thesis using False by (simp add: dec_def nat_digits.simps [of 10 n])
  qed
qed

lemma dec_u64_length: "length (dec (unat (v::u64))) \<le> 20"
proof (rule dec_length_bound)
  show "unat v < 10 ^ 20" using unat_u64_less [of v] by simp
qed simp

lemma itoa_dec: "itoa v = Some (dec (unat v))"
proof (cases "v = 0")
  case True
  then show ?thesis by (simp add: itoa_def dec_def nat_digits.simps digit_char_def)
next
  case False
  then show ?thesis
    using itoa_loop_digits [of v 20 "replicate 20 (CHR 0x00)"] dec_u64_length [of v]
    by (simp add: itoa_def word_gt_0)
qed

text \<open>\<open>itoa\<close> returns for every 64-bit value, never writes outside its 20-byte buffer, and
  yields the decimal representation.\<close>

theorem itoa_total: "itoa v = Some (FormatUint v)"
  by (simp add: itoa_dec FormatUint_def)

section \<open>Names\<close>

lemma Syscall_String_unknown:
  "map_of syscallNames s = None \<Longrightarrow> Syscall_String s = ''unknown('' @ dec (unat s) @ '')''"
  using unat_u32_less [of s]
  by (simp add: Syscall_String_def itoa_dec unsigned_ucast_eq take_bit_nat_eq_self_iff)

lemma names_no_paren: "\<forall>(sc, n) \<in> set syscallNames. CHR ''('' \<notin> set n"
  by (simp add: syscallNames_def)

lemma Syscall_String_known: "map_of syscallNames s = Some n \<Longrightarrow> Syscall_String s = n"
  by (simp add: Syscall_String_def)

lemma names_inject:
  "map_of syscallNames s = Some n \<Longrightarrow> map_of syscallNames t = Some n \<Longrightarrow> s = t"
  by (auto simp: syscallNames_def split: if_splits)

lemma unknown_not_known:
  "map_of syscallNames s = Some n \<Longrightarrow> n \<noteq> ''unknown('' @ d @ '')''"
  using names_no_paren by (auto dest!: map_of_SomeD)

text \<open>Rendering a syscall number never loses it: two identifiers with the same rendering are
  equal, also for numbers this build has no name for.\<close>

theorem Syscall_String_inject: "Syscall_String s = Syscall_String t \<longleftrightarrow> s = t"
proof
  assume eq: "Syscall_String s = Syscall_String t"
  show "s = t"
  proof (cases "map_of syscallNames s")
    case None
    then show ?thesis
      using eq unknown_not_known [of t] Syscall_String_known [of t]
      by (cases "map_of syscallNames t") (auto simp: Syscall_String_unknown word_unat_eq_iff)
  next
    case (Some n)
    then show ?thesis
      using eq unknown_not_known [of s] Syscall_String_known names_inject [of s n t]
      by (cases "map_of syscallNames t") (auto simp: Syscall_String_unknown)
  qed
qed simp

lemma ParseSyscall_in_Some:
  "ParseSyscall_in tbl name = Some sc \<Longrightarrow> (sc, name) \<in> set tbl \<and> sc \<noteq> SysUnknown"
  by (induction tbl name rule: ParseSyscall_in.induct) (auto split: if_splits)

lemma ParseSyscall_in_None:
  "ParseSyscall_in tbl name = None \<longleftrightarrow> (\<forall>sc. (sc, name) \<in> set tbl \<longrightarrow> sc = SysUnknown)"
  by (induction tbl name rule: ParseSyscall_in.induct) auto

lemma syscallNames_functional:
  "(s, n) \<in> set syscallNames \<Longrightarrow> (t, n) \<in> set syscallNames \<Longrightarrow> s = t"
  by (auto simp: syscallNames_def)

lemma syscallNames_map_of: "(s, n) \<in> set syscallNames \<longleftrightarrow> map_of syscallNames s = Some n"
  by (rule map_of_eq_Some_iff [symmetric]) (simp add: syscallNames_def)

lemma ParseSyscall_iff:
  assumes "set tbl = set syscallNames"
  shows "ParseSyscall_in tbl name = Some sc \<longleftrightarrow> map_of syscallNames sc = Some name \<and> sc \<noteq> SysUnknown"
proof
  assume "ParseSyscall_in tbl name = Some sc"
  then show "map_of syscallNames sc = Some name \<and> sc \<noteq> SysUnknown"
    using ParseSyscall_in_Some assms syscallNames_map_of by blast
next
  assume R: "map_of syscallNames sc = Some name \<and> sc \<noteq> SysUnknown"
  then have mem: "(sc, name) \<in> set tbl" using assms syscallNames_map_of by blast
  with R obtain sc' where sc': "ParseSyscall_in tbl name = Some sc'"
    using ParseSyscall_in_None [of tbl name] by (cases "ParseSyscall_in tbl name") auto
  then show "ParseSyscall_in tbl name = Some sc"
    using mem ParseSyscall_in_Some [OF sc'] syscallNames_functional assms by auto
qed

text \<open>\<open>ParseSyscall\<close> is the inverse of \<open>String\<close> on the named syscalls, whatever order the Go
  runtime ranges over the map in: it finds \<open>sc\<close> exactly for the name of a known, non-zero \<open>sc\<close>.\<close>

theorem ParseSyscall_inverse:
  assumes "set order = set syscallNames"
  shows "ParseSyscall_in order name = Some sc \<longleftrightarrow>
    sc \<noteq> SysUnknown \<and> sc \<in> fst ` set syscallNames \<and> Syscall_String sc = name"
proof -
  have "sc \<in> fst ` set syscallNames \<longleftrightarrow> (\<exists>n. map_of syscallNames sc = Some n)"
    by (metis domIff dom_map_of_conv_image_fst option.exhaust option.distinct(1))
  then show ?thesis
    using ParseSyscall_iff [OF assms, of name sc] Syscall_String_known by auto
qed

theorem ParseSyscall_inverse_witness:
  "set (rev syscallNames) = set syscallNames \<and>
   ParseSyscall_in (rev syscallNames) ''ptrace'' = Some SysPtrace"
proof -
  have order: "set (rev syscallNames) = set syscallNames" by simp
  have "SysPtrace \<in> fst ` set syscallNames" and "Syscall_String SysPtrace = ''ptrace''"
    by (simp_all add: syscallNames_def Syscall_String_def)
  then show ?thesis
    using order ParseSyscall_inverse [OF order, of "''ptrace''" SysPtrace] by simp
qed

end
