(* ===== verification/Constants.thy ===== *)
theory Constants
  imports Prelude
begin

text \<open>
  \<^verbatim>\<open>events/constants.go\<close>: turning raw syscall arguments into text.  Flag arguments are 64-bit words
  and the bit manipulation is the one of the source; Go maps from numbers to names are association
  lists read with \<open>map_of\<close>.  The octal constants of the source are written in hexadecimal.
\<close>

section \<open>open(2) flags\<close>

definition oAccmode :: i64 where [simp]: "oAccmode = 0x3"

definition oRdonly :: i64 where [simp]: "oRdonly = 0x0"

definition oWronly :: i64 where [simp]: "oWronly = 0x1"

definition oRdwr :: i64 where [simp]: "oRdwr = 0x2"

definition oCreat :: i64 where [simp]: "oCreat = 0x40"

definition oTmpfile :: i64 where [simp]: "oTmpfile = 0x410000"

definition oExcl :: i64 where [simp]: "oExcl = 0x80"

definition oNoctty :: i64 where [simp]: "oNoctty = 0x100"

definition oTrunc :: i64 where [simp]: "oTrunc = 0x200"

definition oAppend :: i64 where [simp]: "oAppend = 0x400"

definition oNonblock :: i64 where [simp]: "oNonblock = 0x800"

definition oDsync :: i64 where [simp]: "oDsync = 0x1000"

definition oDirect :: i64 where [simp]: "oDirect = 0x4000"

definition oLargefile :: i64 where [simp]: "oLargefile = 0x8000"

definition oDirectory :: i64 where [simp]: "oDirectory = 0x10000"

definition oNofollow :: i64 where [simp]: "oNofollow = 0x20000"

definition oNoatime :: i64 where [simp]: "oNoatime = 0x40000"

definition oCloexec :: i64 where [simp]: "oCloexec = 0x80000"

definition oPath :: i64 where [simp]: "oPath = 0x200000"

definition openFlagNames :: "(i64 \<times> string) list" where
  "openFlagNames =
    [(oCreat, ''O_CREAT''), (oExcl, ''O_EXCL''), (oTrunc, ''O_TRUNC''), (oAppend, ''O_APPEND''),
     (oNoctty, ''O_NOCTTY''), (oNonblock, ''O_NONBLOCK''), (oDsync, ''O_DSYNC''), (oDirect, ''O_DIRECT''),
     (oLargefile, ''O_LARGEFILE''), (oDirectory, ''O_DIRECTORY''), (oNofollow, ''O_NOFOLLOW''),
     (oNoatime, ''O_NOATIME''), (oCloexec, ''O_CLOEXEC''), (oPath, ''O_PATH'')]"

definition accmode_name :: "i64 \<Rightarrow> string" where
  "accmode_name flags =
     (if flags AND oAccmode = oRdonly then ''O_RDONLY''
      else if flags AND oAccmode = oWronly then ''O_WRONLY''
      else if flags AND oAccmode = oRdwr then ''O_RDWR''
      else ''O_ACCMODE_INVALID'')"

fun open_flag_loop :: "(i64 \<times> string) list \<Rightarrow> i64 \<Rightarrow> string list \<Rightarrow> i64 \<times> string list" where
  "open_flag_loop [] remaining parts = (remaining, parts)"
| "open_flag_loop ((b, name) # fs) remaining parts =
     (if remaining AND b = b then open_flag_loop fs (remaining AND NOT b) (parts @ [name])
      else open_flag_loop fs remaining parts)"

definition open_flag_parts :: "i64 \<Rightarrow> string list" where
  "open_flag_parts flags =
     (let parts = [accmode_name flags];
          remaining = flags AND NOT oAccmode;
          (remaining, parts) =
            (if remaining AND oTmpfile = oTmpfile
             then (remaining AND NOT oTmpfile, parts @ [''O_TMPFILE'']) else (remaining, parts));
          (remaining, parts) = open_flag_loop openFlagNames remaining parts
      in if remaining \<noteq> 0 then parts @ [hex_u64 remaining] else parts)"

definition formatOpenFlags :: "i64 \<Rightarrow> string" where
  "formatOpenFlags flags = join ''|'' (open_flag_parts flags)"

section \<open>*at() arguments\<close>

definition atFdcwd :: i64 where [simp]: "atFdcwd = -100"

definition atSymlinkNofollow :: i64 where [simp]: "atSymlinkNofollow = 0x100"

definition atEmptyPath :: i64 where [simp]: "atEmptyPath = 0x1000"

definition formatDirfd :: "i64 \<Rightarrow> string" where
  "formatDirfd fd = (if fd = atFdcwd then ''AT_FDCWD'' else FormatInt fd)"

definition execveat_parts :: "i64 \<Rightarrow> string list" where
  "execveat_parts flags =
     (let known = atEmptyPath OR atSymlinkNofollow; rest = flags AND NOT known
      in (if flags AND atEmptyPath \<noteq> 0 then [''AT_EMPTY_PATH''] else []) @
         (if flags AND atSymlinkNofollow \<noteq> 0 then [''AT_SYMLINK_NOFOLLOW''] else []) @
         (if rest \<noteq> 0 then [hex_u64 rest] else []))"

definition formatExecveatFlags :: "i64 \<Rightarrow> string" where
  "formatExecveatFlags flags = (if flags = 0 then ''0'' else join ''|'' (execveat_parts flags))"

section \<open>ptrace(2) requests\<close>

definition PtracePeektext :: i64 where [simp]: "PtracePeektext = 1"

definition PtracePeekdata :: i64 where [simp]: "PtracePeekdata = 2"

definition PtracePeekuser :: i64 where [simp]: "PtracePeekuser = 3"

definition PtracePoketext :: i64 where [simp]: "PtracePoketext = 4"

definition PtracePokedata :: i64 where [simp]: "PtracePokedata = 5"

definition PtracePokeuser :: i64 where [simp]: "PtracePokeuser = 6"

definition PtraceSetregs :: i64 where [simp]: "PtraceSetregs = 13"

definition PtraceSetfpregs :: i64 where [simp]: "PtraceSetfpregs = 15"

definition PtraceAttach :: i64 where [simp]: "PtraceAttach = 16"

definition PtraceSetregset :: i64 where [simp]: "PtraceSetregset = 0x4205"

definition PtraceSeize :: i64 where [simp]: "PtraceSeize = 0x4206"

definition PtraceTraceme :: i64 where [simp]: "PtraceTraceme = 0"

definition PtraceCont :: i64 where [simp]: "PtraceCont = 7"

definition PtraceKill :: i64 where [simp]: "PtraceKill = 8"

definition PtraceSinglestep :: i64 where [simp]: "PtraceSinglestep = 9"

definition PtraceGetregs :: i64 where [simp]: "PtraceGetregs = 12"

definition PtraceGetfpregs :: i64 where [simp]: "PtraceGetfpregs = 14"

definition PtraceDetach :: i64 where [simp]: "PtraceDetach = 17"

definition PtraceSyscall :: i64 where [simp]: "PtraceSyscall = 24"

definition PtraceSetoptions :: i64 where [simp]: "PtraceSetoptions = 0x4200"

definition PtraceGetregset :: i64 where [simp]: "PtraceGetregset = 0x4204"

definition PtraceInterrupt :: i64 where [simp]: "PtraceInterrupt = 0x4207"

definition PtraceListen :: i64 where [simp]: "PtraceListen = 0x4208"

definition ptraceRequestNames :: "(i64, string) gomap" where
  "ptraceRequestNames =
    [(PtraceTraceme, ''PTRACE_TRACEME''), (PtracePeektext, ''PTRACE_PEEKTEXT''),
     (PtracePeekdata, ''PTRACE_PEEKDATA''), (PtracePeekuser, ''PTRACE_PEEKUSER''),
     (PtracePoketext, ''PTRACE_POKETEXT''), (PtracePokedata, ''PTRACE_POKEDATA''),
     (PtracePokeuser, ''PTRACE_POKEUSER''), (PtraceCont, ''PTRACE_CONT''), (PtraceKill, ''PTRACE_KILL''),
     (PtraceSinglestep, ''PTRACE_SINGLESTEP''), (PtraceGetregs, ''PTRACE_GETREGS''), (PtraceSetregs, ''PTRACE_SETREGS''),
     (PtraceGetfpregs, ''PTRACE_GETFPREGS''), (PtraceSetfpregs, ''PTRACE_SETFPREGS''),
     (PtraceAttach, ''PTRACE_ATTACH''), (PtraceDetach, ''PTRACE_DETACH''), (PtraceSyscall, ''PTRACE_SYSCALL''),
     (PtraceSetoptions, ''PTRACE_SETOPTIONS''), (PtraceGetregset, ''PTRACE_GETREGSET''),
     (PtraceSetregset, ''PTRACE_SETREGSET''), (PtraceSeize, ''PTRACE_SEIZE''),
     (PtraceInterrupt, ''PTRACE_INTERRUPT''), (PtraceListen, ''PTRACE_LISTEN'')]"

definition PtraceRequestName :: "i64 \<Rightarrow> string" where
  "PtraceRequestName req =
     (case map_of ptraceRequestNames req of
        Some name \<Rightarrow> name
      | None \<Rightarrow> ''PTRACE_UNKNOWN('' @ FormatInt req @ '')'')"

definition isPtraceMemoryOp :: "i64 \<Rightarrow> bool" where
  "isPtraceMemoryOp req \<longleftrightarrow>
     req \<in> {PtracePeektext, PtracePeekdata, PtracePeekuser,
            PtracePoketext, PtracePokedata, PtracePokeuser}"

section \<open>Sockets\<close>

definition AFUnix :: u16 where [simp]: "AFUnix = 1"

definition AFInet :: u16 where [simp]: "AFInet = 2"

definition AFInet6 :: u16 where [simp]: "AFInet6 = 10"

definition AFNetlink :: u16 where [simp]: "AFNetlink = 16"

definition AFPacket :: u16 where [simp]: "AFPacket = 17"

definition addressFamilyNames :: "(u16, string) gomap" where
  "addressFamilyNames =
    [(0, ''AF_UNSPEC''), (AFUnix, ''AF_UNIX''), (AFInet, ''AF_INET''), (AFInet6, ''AF_INET6''),
     (AFNetlink, ''AF_NETLINK''), (AFPacket, ''AF_PACKET'')]"

definition AddressFamilyName :: "u16 \<Rightarrow> string" where
  "AddressFamilyName f =
     (case map_of addressFamilyNames f of
        Some name \<Rightarrow> name
      | None \<Rightarrow> ''AF_UNKNOWN('' @ FormatUint f @ '')'')"

definition sockStream :: i64 where [simp]: "sockStream = 1"

definition sockDgram :: i64 where [simp]: "sockDgram = 2"

definition sockRaw :: i64 where [simp]: "sockRaw = 3"

definition sockSeqpacket :: i64 where [simp]: "sockSeqpacket = 5"

definition sockNonblock :: i64 where [simp]: "sockNonblock = 0x800"

definition sockCloexec :: i64 where [simp]: "sockCloexec = 0x80000"

definition formatSocketType :: "i64 \<Rightarrow> string" where
  "formatSocketType t =
     (let base = t AND NOT (sockNonblock OR sockCloexec);
          name = (if base = sockStream then ''SOCK_STREAM''
                  else if base = sockDgram then ''SOCK_DGRAM''
                  else if base = sockRaw then ''SOCK_RAW''
                  else if base = sockSeqpacket then ''SOCK_SEQPACKET''
                  else ''SOCK_UNKNOWN('' @ FormatInt base @ '')'')
      in join ''|''
           ([name] @ (if t AND sockNonblock \<noteq> 0 then [''SOCK_NONBLOCK''] else [])
                   @ (if t AND sockCloexec \<noteq> 0 then [''SOCK_CLOEXEC''] else [])))"

section \<open>Descriptors, identities, addresses, errors\<close>

definition StdFdName :: "i64 \<Rightarrow> string" where
  "StdFdName fd =
     (if fd = 0 then ''stdin'' else if fd = 1 then ''stdout'' else if fd = 2 then ''stderr'' else [])"

definition formatStdFd :: "i64 \<Rightarrow> string" where
  "formatStdFd fd =
     (if StdFdName fd \<noteq> [] then FormatInt fd @ '' ('' @ StdFdName fd @ '')'' else FormatInt fd)"

definition formatID :: "i64 \<Rightarrow> string" where
  "formatID i = (if i = -1 then ''unchanged'' else FormatInt i)"

definition formatIPv4 :: "u32 \<Rightarrow> string" where
  "formatIPv4 addr =
     FormatUint (addr AND 0xff) @ ''.'' @ FormatUint (drop_bit 8 addr AND 0xff) @ ''.'' @
     FormatUint (drop_bit 16 addr AND 0xff) @ ''.'' @ FormatUint (drop_bit 24 addr AND 0xff)"

definition ntohs :: "u16 \<Rightarrow> u16" where
  "ntohs v = push_bit 8 v OR drop_bit 8 v"

definition errnoNames :: "(i64, string) gomap" where
  "errnoNames =
    [(1, ''EPERM''), (2, ''ENOENT''), (3, ''ESRCH''), (4, ''EINTR''), (5, ''EIO''), (9, ''EBADF''),
     (11, ''EAGAIN''), (12, ''ENOMEM''), (13, ''EACCES''), (14, ''EFAULT''), (16, ''EBUSY''),
     (17, ''EEXIST''), (20, ''ENOTDIR''), (21, ''EISDIR''), (22, ''EINVAL''), (24, ''EMFILE''),
     (28, ''ENOSPC''), (32, ''EPIPE''), (38, ''ENOSYS''), (40, ''ELOOP''), (97, ''EAFNOSUPPORT''),
     (98, ''EADDRINUSE''), (99, ''EADDRNOTAVAIL''), (101, ''ENETUNREACH''),
     (103, ''ECONNABORTED''), (104, ''ECONNRESET''), (110, ''ETIMEDOUT''), (111, ''ECONNREFUSED''),
     (113, ''EHOSTUNREACH''), (114, ''EALREADY''), (115, ''EINPROGRESS'')]"

definition errnoName :: "i64 \<Rightarrow> string" where
  "errnoName errno =
     (case map_of errnoNames errno of Some name \<Rightarrow> name | None \<Rightarrow> ''errno '' @ FormatInt errno)"

section \<open>No flag bit is lost\<close>

text \<open>
  The value of a rendered part: its table entry, or the number behind \<open>0x\<close>.  The value of a rendered
  flag word is the disjunction of its parts.
\<close>

definition part_val :: "(string, i64) gomap \<Rightarrow> string \<Rightarrow> i64" where
  "part_val tbl p =
     (case map_of tbl p of Some b \<Rightarrow> b | None \<Rightarrow> of_nat (digits_val 16 (drop 2 p)))"

definition parts_val :: "(string, i64) gomap \<Rightarrow> string list \<Rightarrow> i64" where
  "parts_val tbl ps = foldr (\<lambda>p a. part_val tbl p OR a) ps 0"

lemma parts_val_simps [simp]:
  "parts_val tbl [] = 0"
  "parts_val tbl (p # ps) = part_val tbl p OR parts_val tbl ps"
  by (simp_all add: parts_val_def)

lemma parts_val_append [simp]: "parts_val tbl (ps @ qs) = parts_val tbl ps OR parts_val tbl qs"
  by (induction ps) (simp_all add: or.assoc)

lemma part_val_hex:
  assumes "map_of tbl (hex_u64 v) = None"
  shows "part_val tbl (hex_u64 v) = v"
  using assms by (simp add: part_val_def hex_u64_def digits_val_hex)

lemma hex_no_bar: "CHR ''|'' \<notin> set (hex_u64 v)"
  using set_nat_digits_16 [of "unat v"] by (auto simp: hex_u64_def)

definition open_parts :: "(string, i64) gomap" where
  "open_parts =
     [(''O_RDONLY'', 0), (''O_WRONLY'', 1), (''O_RDWR'', 2), (''O_ACCMODE_INVALID'', 3),
      (''O_TMPFILE'', oTmpfile)] @ map (\<lambda>(b, n). (n, b)) openFlagNames"

definition execveat_table :: "(string, i64) gomap" where
  "execveat_table = [(''AT_EMPTY_PATH'', atEmptyPath), (''AT_SYMLINK_NOFOLLOW'', atSymlinkNofollow)]"

lemma open_parts_hex: "map_of open_parts (hex_u64 v) = None"
  by (simp add: open_parts_def openFlagNames_def hex_u64_def)

lemma execveat_table_hex: "map_of execveat_table (hex_u64 v) = None"
  by (simp add: execveat_table_def hex_u64_def)

lemma open_flag_loop_val:
  assumes "\<forall>(b, n) \<in> set fs. part_val tbl n = b"
    and "open_flag_loop fs remaining parts = (r, ps)"
  shows "parts_val tbl ps OR r = parts_val tbl parts OR remaining"
  using assms
proof (induction fs remaining parts rule: open_flag_loop.induct)
  case (2 b name fs remaining parts)
  then show ?case
    using or_clear_bits [of remaining b] by (auto simp: or.assoc split: if_splits)
qed auto

lemma open_flag_loop_parts:
  "open_flag_loop fs remaining parts = (r, ps) \<Longrightarrow> set ps \<subseteq> set parts \<union> snd ` set fs"
  by (induction fs remaining parts rule: open_flag_loop.induct) (fastforce split: if_splits)+

lemma two_bits_cases: "w AND 3 \<in> {0, 1, 2, 3}" for w :: i64
proof -
  have "w AND 3 = take_bit 2 w" by (simp add: take_bit_eq_mask mask_eq_exp_minus_1)
  then have "unat (w AND 3) < 4" by (simp add: unat_mod take_bit_eq_mod)
  then have "unat (w AND 3) \<in> {0, 1, 2, 3}" by auto
  then show ?thesis by (auto simp: word_unat_eq_iff)
qed

lemma accmode_val: "part_val open_parts (accmode_name flags) = flags AND 3"
  using two_bits_cases [of flags]
  by (auto simp: accmode_name_def part_val_def open_parts_def openFlagNames_def)

lemma openFlagNames_val: "\<forall>(b, n) \<in> set openFlagNames. part_val open_parts n = b"
  by (simp add: openFlagNames_def open_parts_def part_val_def)

lemma tmpfile_val: "part_val open_parts ''O_TMPFILE'' = oTmpfile"
  by (simp add: open_parts_def part_val_def)

lemma open_flag_parts_val: "parts_val open_parts (open_flag_parts flags) = flags"
proof -
  let ?m = "flags AND NOT oAccmode" and ?ps = "[accmode_name flags]"
  obtain rem parts where rp: "(if ?m AND oTmpfile = oTmpfile
      then (?m AND NOT oTmpfile, ?ps @ [''O_TMPFILE'']) else (?m, ?ps)) = (rem, parts)"
    by fastforce
  obtain r ps where loop: "open_flag_loop openFlagNames rem parts = (r, ps)" by fastforce
  have "parts_val open_parts parts OR rem = (flags AND oAccmode) OR ?m"
    using rp accmode_val [of flags] or_clear_bits [of ?m oTmpfile] tmpfile_val
    by (auto simp: or.assoc split: if_splits)
  then have "parts_val open_parts ps OR r = flags"
    using open_flag_loop_val [OF openFlagNames_val loop] or_split_mask [of flags oAccmode] by simp
  then show ?thesis
    using rp loop part_val_hex [OF open_parts_hex, of r]
    by (auto simp: open_flag_parts_def Let_def split: if_splits)
qed

lemma openFlagNames_no_bar: "\<forall>n \<in> snd ` set openFlagNames. CHR ''|'' \<notin> set n"
  by (simp add: openFlagNames_def)

lemma open_flag_parts_subset:
  "set (open_flag_parts flags) \<subseteq>
     {accmode_name flags, ''O_TMPFILE''} \<union> snd ` set openFlagNames \<union> range hex_u64"
proof -
  let ?m = "flags AND NOT oAccmode" and ?ps = "[accmode_name flags]"
  obtain rem parts where rp: "(if ?m AND oTmpfile = oTmpfile
      then (?m AND NOT oTmpfile, ?ps @ [''O_TMPFILE'']) else (?m, ?ps)) = (rem, parts)"
    by fastforce
  obtain r ps where loop: "open_flag_loop openFlagNames rem parts = (r, ps)" by fastforce
  have "set parts \<subseteq> {accmode_name flags, ''O_TMPFILE''}" using rp by (auto split: if_splits)
  then have "set ps \<subseteq> {accmode_name flags, ''O_TMPFILE''} \<union> snd ` set openFlagNames"
    using open_flag_loop_parts [OF loop] by blast
  then show ?thesis using rp loop by (auto simp: open_flag_parts_def Let_def split: if_splits)
qed

lemma open_flag_parts_no_bar: "\<forall>p \<in> set (open_flag_parts flags). CHR ''|'' \<notin> set p"
proof -
  have "CHR ''|'' \<notin> set (accmode_name flags)" by (simp add: accmode_name_def)
  then show ?thesis
    using open_flag_parts_subset [of flags] openFlagNames_no_bar hex_no_bar by fastforce
qed

lemma open_flag_loop_keeps: "open_flag_loop fs remaining parts = (r, ps) \<Longrightarrow> parts \<noteq> [] \<Longrightarrow> ps \<noteq> []"
  by (induction fs remaining parts rule: open_flag_loop.induct) (auto split: if_splits)

lemma open_flag_parts_nonempty: "open_flag_parts flags \<noteq> []"
  using open_flag_loop_keeps by (fastforce simp: open_flag_parts_def Let_def split: if_splits prod.splits)

text \<open>Every bit of an \<open>openat\<close> flag word is visible in its rendering: different flag words
  render differently, so an unknown bit or an unusual combination is never dropped.\<close>

theorem formatOpenFlags_inject: "formatOpenFlags f = formatOpenFlags g \<longleftrightarrow> f = g"
proof
  assume "formatOpenFlags f = formatOpenFlags g"
  then have "open_flag_parts f = open_flag_parts g"
    using split_join [OF open_flag_parts_nonempty open_flag_parts_no_bar]
    by (metis formatOpenFlags_def)
  then show "f = g" by (metis open_flag_parts_val)
qed simp

lemma execveat_bits:
  "flags AND 0x1000 = (if bit flags 12 then 0x1000 else 0)"
  "flags AND 0x100 = (if bit flags 8 then 0x100 else 0)" for flags :: i64
  using and_single_bit [of flags 12] and_single_bit [of flags 8] by simp_all

lemma execveat_parts_val: "parts_val execveat_table (execveat_parts flags) = flags"
proof -
  have vals: "part_val execveat_table ''AT_EMPTY_PATH'' = 0x1000"
    "part_val execveat_table ''AT_SYMLINK_NOFOLLOW'' = 0x100"
    by (simp_all add: execveat_table_def part_val_def)
  have "parts_val execveat_table (execveat_parts flags) =
    (flags AND 0x1000) OR (flags AND 0x100) OR (flags AND NOT (0x1000 OR 0x100))"
    using execveat_bits [of flags] part_val_hex [OF execveat_table_hex] vals
    by (simp add: execveat_parts_def Let_def or.assoc)
  also have "\<dots> = flags" using or_split_mask [of flags "0x1000 OR 0x100"]
    by (simp only: bit.conj_disj_distrib or.assoc)
  finally show ?thesis .
qed

lemma execveat_parts_no_bar: "\<forall>p \<in> set (execveat_parts flags). CHR ''|'' \<notin> set p"
  using hex_no_bar by (auto simp: execveat_parts_def Let_def)

lemma execveat_parts_nonempty: "flags \<noteq> 0 \<Longrightarrow> execveat_parts flags \<noteq> []"
  using execveat_parts_val [of flags] by auto

lemma formatExecveatFlags_0: "flags \<noteq> 0 \<Longrightarrow> formatExecveatFlags flags \<noteq> ''0''"
proof
  assume "flags \<noteq> 0" and "formatExecveatFlags flags = ''0''"
  then have "execveat_parts flags = [''0'']"
    using split_join [OF execveat_parts_nonempty execveat_parts_no_bar, of flags]
    by (simp add: formatExecveatFlags_def)
  then show False
    by (auto simp: execveat_parts_def Let_def hex_u64_def split: if_splits)
qed

text \<open>The same for \<open>execveat\<close> flags, the word in which \<open>AT_EMPTY_PATH\<close> marks fileless execution.\<close>

theorem formatExecveatFlags_inject: "formatExecveatFlags f = formatExecveatFlags g \<longleftrightarrow> f = g"
proof
  assume eq: "formatExecveatFlags f = formatExecveatFlags g"
  show "f = g"
  proof (cases "f = 0 \<or> g = 0")
    case True
    then show ?thesis
      using eq formatExecveatFlags_0 [of f] formatExecveatFlags_0 [of g]
      by (auto simp: formatExecveatFlags_def split: if_splits)
  next
    case False
    then have "execveat_parts f = execveat_parts g"
      using eq split_join [OF execveat_parts_nonempty execveat_parts_no_bar]
      by (metis formatExecveatFlags_def)
    then show ?thesis by (metis execveat_parts_val)
  qed
qed simp

section \<open>Addresses\<close>

lemma ntohs_involution: "ntohs (ntohs v) = v"
proof (rule bit_word_eqI)
  fix n
  assume "n < LENGTH(16)"
  then show "bit (ntohs (ntohs v)) n = bit v n"
    by (auto simp: ntohs_def bit_simps)
qed

lemma and_ff: "x AND 0xff = take_bit 8 x" for x :: u32
  by (simp only: take_bit_eq_mask) (simp add: mask_eq_exp_minus_1)

lemma u32_from_octets:
  fixes a :: u32
  shows "a = take_bit 8 a OR push_bit 8 (take_bit 8 (drop_bit 8 a)) OR
    push_bit 16 (take_bit 8 (drop_bit 16 a)) OR push_bit 24 (take_bit 8 (drop_bit 24 a))"
    (is "_ = ?r")
proof (rule bit_word_eqI)
  fix n
  assume "n < LENGTH(32)"
  then consider "n < 8" | "8 \<le> n" "n < 16" | "16 \<le> n" "n < 24" | "24 \<le> n" "n < 32" by fastforce
  then show "bit a n = bit ?r n" by cases (auto simp: bit_simps)
qed

lemma dot_field_inject:
  "dec m @ ''.'' @ xs = dec n @ ''.'' @ ys \<longleftrightarrow> m = n \<and> xs = ys"
  using append_sep_inject [of "dec m" "CHR ''.''" xs "dec n" ys] not_in_dec [of "CHR ''.''"] by auto

text \<open>A dotted quad identifies its address, and byte order conversion of ports loses nothing:
  rendering IPv4 destinations is injective and \<open>ntohs\<close> is its own inverse.\<close>

theorem connect_target_inject:
  "(formatIPv4 a = formatIPv4 b \<longleftrightarrow> a = b) \<and> ntohs (ntohs p) = p"
proof -
  have "a = b" if "formatIPv4 a = formatIPv4 b"
  proof -
    have "a AND 0xff = b AND 0xff \<and> drop_bit 8 a AND 0xff = drop_bit 8 b AND 0xff \<and>
      drop_bit 16 a AND 0xff = drop_bit 16 b AND 0xff \<and> drop_bit 24 a AND 0xff = drop_bit 24 b AND 0xff"
      using that
      by (simp only: formatIPv4_def FormatUint_def append_assoc dot_field_inject dec_inject
            word_unat_eq_iff)
    then show ?thesis
      using u32_from_octets [of a] u32_from_octets [of b] by (simp only: and_ff)
  qed
  then show ?thesis by (auto simp: ntohs_involution)
qed

end
