(* ===== verification/Events.thy ===== *)
theory Events
  imports Syscalls Constants
begin

text \<open>
  \<^verbatim>\<open>events/event.go\<close>: the raw kernel record, the decoded event and the decoder between them.
  \<open>time.Time\<close> is the number of nanoseconds since the epoch, an unbounded integer; the conversion
  \<open>time.Duration(r.Timestamp)\<close> reads the 64-bit counter as signed.  The map \<open>Args\<close> is a Go map and
  is therefore shared by every copy of an event; \<^verbatim>\<open>Alerts.thy\<close> says how that sharing is modelled.
\<close>

record Raw =
  r_Timestamp :: u64
  r_PID :: u32
  r_TGID :: u32
  r_UID :: u32
  r_GID :: u32
  r_PPID :: u32
  r_SyscallID :: u32
  r_Ret :: i64
  r_Arg0 :: i64
  r_Arg1 :: i64
  r_Arg2 :: i64
  r_Daddr :: u32
  r_Dport :: u16
  r_Family :: u16
  r_Flags :: u32
  r_Comm :: string
  r_Path :: string
  r_Argv :: "string list"

definition FlagSysExit :: u32 where [simp]: "FlagSysExit = 1"

definition Raw_IsExit :: "Raw \<Rightarrow> bool" where
  "Raw_IsExit r \<longleftrightarrow> r_Flags r AND FlagSysExit \<noteq> 0"

record Event =
  ev_Timestamp :: u64
  ev_Wall :: int
  ev_PID :: u32
  ev_TID :: u32
  ev_TGID :: u32
  ev_UID :: u32
  ev_GID :: u32
  ev_PPID :: u32
  ev_Comm :: string
  ev_Syscall :: string
  ev_SyscallID :: Syscall
  ev_Args :: args
  ev_ReturnValue :: i64
  ev_IsExit :: bool
  ev_Arg0 :: i64
  ev_Arg1 :: i64
  ev_Arg2 :: i64
  ev_Path :: string
  ev_Argv :: "string list"
  ev_DestIP :: string
  ev_DestPort :: u16
  ev_Family :: u16

definition setArg :: "string \<Rightarrow> string \<Rightarrow> Event \<Rightarrow> Event" where
  "setArg k v ev = ev\<lparr>ev_Args := mapset k v (ev_Args ev)\<rparr>"

definition decodeConnect :: "Event \<Rightarrow> Raw \<Rightarrow> Event" where
  "decodeConnect ev r =
     (let ev = setArg ''fd'' (FormatInt (r_Arg0 r)) ev;
          ev = setArg ''family'' (AddressFamilyName (r_Family r)) ev;
          ev = ev\<lparr>ev_DestPort := ntohs (r_Dport r)\<rparr>;
          ev = (if r_Daddr r \<noteq> 0 then ev\<lparr>ev_DestIP := formatIPv4 (r_Daddr r)\<rparr> else ev)
      in if ev_DestIP ev \<noteq> [] then
           setArg ''dest'' (ev_DestIP ev @ '':'' @ FormatUint (ev_DestPort ev)) ev
         else if ev_DestPort ev \<noteq> 0 then
           setArg ''dest_port'' (FormatUint (ev_DestPort ev)) ev
         else ev)"

definition decodeArgs :: "Event \<Rightarrow> Raw \<Rightarrow> Event" where
  "decodeArgs ev r =
    (if ev_SyscallID ev = SysExecve then
       (let ev = setArg ''path'' (r_Path r) ev
        in if r_Argv r \<noteq> [] then setArg ''argv'' (join '' '' (r_Argv r)) ev else ev)
     else if ev_SyscallID ev = SysExecveat then
       (let ev = setArg ''path'' (r_Path r) ev;
            ev = setArg ''dfd'' (formatDirfd (r_Arg0 r)) ev;
            ev = setArg ''flags'' (formatExecveatFlags (r_Arg1 r)) ev
        in if r_Argv r \<noteq> [] then setArg ''argv'' (join '' '' (r_Argv r)) ev else ev)
     else if ev_SyscallID ev = SysOpenat then
       (let ev = setArg ''path'' (r_Path r) ev;
            ev = setArg ''dfd'' (formatDirfd (r_Arg0 r)) ev;
            ev = setArg ''flags'' (formatOpenFlags (r_Arg1 r)) ev
        in if r_Arg1 r AND oCreat \<noteq> 0 \<or> r_Arg1 r AND oTmpfile = oTmpfile
           then setArg ''mode'' (oct_u64 (r_Arg2 r AND 0xfff)) ev else ev)
     else if ev_SyscallID ev = SysSetuid then setArg ''target_uid'' (formatID (r_Arg0 r)) ev
     else if ev_SyscallID ev = SysSetgid then setArg ''target_gid'' (formatID (r_Arg0 r)) ev
     else if ev_SyscallID ev = SysSetresuid then
       setArg ''suid'' (formatID (r_Arg2 r))
         (setArg ''euid'' (formatID (r_Arg1 r)) (setArg ''ruid'' (formatID (r_Arg0 r)) ev))
     else if ev_SyscallID ev = SysSetresgid then
       setArg ''sgid'' (formatID (r_Arg2 r))
         (setArg ''egid'' (formatID (r_Arg1 r)) (setArg ''rgid'' (formatID (r_Arg0 r)) ev))
     else if ev_SyscallID ev = SysPtrace then
       (let ev = setArg ''request'' (PtraceRequestName (r_Arg0 r)) ev;
            ev = setArg ''target_pid'' (FormatInt (r_Arg1 r)) ev
        in if isPtraceMemoryOp (r_Arg0 r) then setArg ''addr'' (hex_u64 (r_Arg2 r)) ev else ev)
     else if ev_SyscallID ev = SysSocket then
       setArg ''protocol'' (FormatInt (r_Arg2 r))
         (setArg ''type'' (formatSocketType (r_Arg1 r))
           (setArg ''family'' (AddressFamilyName (ucast (r_Arg0 r))) ev))
     else if ev_SyscallID ev = SysConnect then decodeConnect ev r
     else if ev_SyscallID ev = SysDup2 then
       setArg ''newfd'' (formatStdFd (r_Arg1 r)) (setArg ''oldfd'' (FormatInt (r_Arg0 r)) ev)
     else if ev_SyscallID ev = SysDup3 then
       (let ev = setArg ''newfd'' (formatStdFd (r_Arg1 r)) (setArg ''oldfd'' (FormatInt (r_Arg0 r)) ev)
        in if r_Arg2 r \<noteq> 0 then setArg ''flags'' (hex_u64 (r_Arg2 r)) ev else ev)
     else ev)"

definition decode_base :: "Raw \<Rightarrow> int \<Rightarrow> Event" where
  "decode_base r bootTime =
     \<lparr>ev_Timestamp = r_Timestamp r, ev_Wall = bootTime + sint (r_Timestamp r),
      ev_PID = r_TGID r, ev_TID = r_PID r, ev_TGID = r_TGID r, ev_UID = r_UID r, ev_GID = r_GID r,
      ev_PPID = r_PPID r, ev_Comm = r_Comm r, ev_Syscall = Syscall_String (r_SyscallID r),
      ev_SyscallID = r_SyscallID r, ev_Args = [], ev_ReturnValue = r_Ret r,
      ev_IsExit = Raw_IsExit r, ev_Arg0 = r_Arg0 r, ev_Arg1 = r_Arg1 r, ev_Arg2 = r_Arg2 r,
      ev_Path = r_Path r, ev_Argv = r_Argv r, ev_DestIP = [], ev_DestPort = 0,
      ev_Family = r_Family r\<rparr>"

definition Decode :: "Raw \<Rightarrow> int \<Rightarrow> Event" where
  "Decode r bootTime =
     (let ev = decode_base r bootTime
      in if ev_IsExit ev then
           (let ev = setArg ''ret'' (FormatInt (r_Ret r)) ev
            in if sint (r_Ret r) < 0 then setArg ''error'' (errnoName (- r_Ret r)) ev else ev)
         else decodeArgs ev r)"

definition Event_IsLoopback :: "Event \<Rightarrow> bool" where
  "Event_IsLoopback e \<longleftrightarrow> prefix ''127.'' (ev_DestIP e) \<or> ev_DestIP e = ''::1''"

section \<open>What the decoder leaves alone\<close>

lemma setArg_fields [simp]:
  "ev_Timestamp (setArg k v ev) = ev_Timestamp ev" "ev_Wall (setArg k v ev) = ev_Wall ev"
  "ev_PID (setArg k v ev) = ev_PID ev" "ev_TID (setArg k v ev) = ev_TID ev"
  "ev_TGID (setArg k v ev) = ev_TGID ev" "ev_UID (setArg k v ev) = ev_UID ev"
  "ev_GID (setArg k v ev) = ev_GID ev" "ev_PPID (setArg k v ev) = ev_PPID ev"
  "ev_Comm (setArg k v ev) = ev_Comm ev" "ev_Syscall (setArg k v ev) = ev_Syscall ev"
  "ev_SyscallID (setArg k v ev) = ev_SyscallID ev" "ev_IsExit (setArg k v ev) = ev_IsExit ev"
  "ev_ReturnValue (setArg k v ev) = ev_ReturnValue ev" "ev_Arg0 (setArg k v ev) = ev_Arg0 ev"
  "ev_Arg1 (setArg k v ev) = ev_Arg1 ev" "ev_Arg2 (setArg k v ev) = ev_Arg2 ev"
  "ev_Path (setArg k v ev) = ev_Path ev" "ev_Argv (setArg k v ev) = ev_Argv ev"
  "ev_DestIP (setArg k v ev) = ev_DestIP ev" "ev_DestPort (setArg k v ev) = ev_DestPort ev"
  "ev_Family (setArg k v ev) = ev_Family ev" "ev_Args (setArg k v ev) = mapset k v (ev_Args ev)"
  by (simp_all add: setArg_def)

lemma event_if:
  "ev_Timestamp (if b then x else y) = (if b then ev_Timestamp x else ev_Timestamp y)"
  "ev_PID (if b then x else y) = (if b then ev_PID x else ev_PID y)"
  "ev_UID (if b then x else y) = (if b then ev_UID x else ev_UID y)"
  "ev_PPID (if b then x else y) = (if b then ev_PPID x else ev_PPID y)"
  "ev_SyscallID (if b then x else y) = (if b then ev_SyscallID x else ev_SyscallID y)"
  "ev_Comm (if b then x else y) = (if b then ev_Comm x else ev_Comm y)"
  "ev_IsExit (if b then x else y) = (if b then ev_IsExit x else ev_IsExit y)"
  "ev_Syscall (if b then x else y) = (if b then ev_Syscall x else ev_Syscall y)"
  "ev_TGID (if b then x else y) = (if b then ev_TGID x else ev_TGID y)"
  "ev_Arg0 (if b then x else y) = (if b then ev_Arg0 x else ev_Arg0 y)"
  "ev_Arg1 (if b then x else y) = (if b then ev_Arg1 x else ev_Arg1 y)"
  "ev_Wall (if b then x else y) = (if b then ev_Wall x else ev_Wall y)"
  by simp_all

lemma decodeArgs_fields [simp]:
  "ev_Timestamp (decodeArgs ev r) = ev_Timestamp ev" "ev_PID (decodeArgs ev r) = ev_PID ev"
  "ev_UID (decodeArgs ev r) = ev_UID ev" "ev_PPID (decodeArgs ev r) = ev_PPID ev"
  "ev_SyscallID (decodeArgs ev r) = ev_SyscallID ev" "ev_Comm (decodeArgs ev r) = ev_Comm ev"
  "ev_IsExit (decodeArgs ev r) = ev_IsExit ev" "ev_Syscall (decodeArgs ev r) = ev_Syscall ev"
  "ev_TGID (decodeArgs ev r) = ev_TGID ev" "ev_Arg0 (decodeArgs ev r) = ev_Arg0 ev"
  "ev_Arg1 (decodeArgs ev r) = ev_Arg1 ev" "ev_Wall (decodeArgs ev r) = ev_Wall ev"
  by (simp_all add: decodeArgs_def decodeConnect_def Let_def event_if)

lemma Decode_fields:
  "ev_Timestamp (Decode r t) = r_Timestamp r" "ev_Wall (Decode r t) = t + sint (r_Timestamp r)"
  "ev_PID (Decode r t) = r_TGID r" "ev_TGID (Decode r t) = r_TGID r" "ev_IsExit (Decode r t) = Raw_IsExit r"
  "ev_Syscall (Decode r t) = Syscall_String (r_SyscallID r)" "ev_SyscallID (Decode r t) = r_SyscallID r"
  by (simp_all add: Decode_def decode_base_def Let_def event_if)

lemma distinct_setArg [simp]:
  "distinct_keys (ev_Args ev) \<Longrightarrow> distinct_keys (ev_Args (setArg k v ev))"
  by simp

lemma distinct_decodeArgs: "distinct_keys (ev_Args ev) \<Longrightarrow> distinct_keys (ev_Args (decodeArgs ev r))"
  by (simp add: decodeArgs_def decodeConnect_def Let_def)

lemma Decode_distinct_args: "distinct_keys (ev_Args (Decode r t))"
  by (simp add: Decode_def Let_def distinct_decodeArgs decode_base_def)

lemma Decode_exit_args:
  "Raw_IsExit r \<Longrightarrow> ev_Args (Decode r t) =
     (if sint (r_Ret r) < 0 then [(''ret'', FormatInt (r_Ret r)), (''error'', errnoName (- r_Ret r))]
      else [(''ret'', FormatInt (r_Ret r))])"
  by (simp add: Decode_def decode_base_def Let_def)

lemma Decode_exit_dest: "Raw_IsExit r \<Longrightarrow> ev_DestIP (Decode r t) = [] \<and> ev_DestPort (Decode r t) = 0"
  by (simp add: Decode_def decode_base_def Let_def)

text \<open>C26. A return probe carries no argument registers: whatever the argument, path, argv and address
  fields of the raw record hold, the decoded map of an exit event is the result (and, for a negative
  result, the name of the errno) and nothing else.\<close>

theorem Decode_exit_ignores_arguments:
  assumes "Raw_IsExit r"
  shows "ev_Args (Decode (r\<lparr>r_Arg0 := a0, r_Arg1 := a1, r_Arg2 := a2, r_Daddr := d, r_Dport := p,
            r_Path := path, r_Argv := argv\<rparr>) t) =
         (if sint (r_Ret r) < 0
          then [(''ret'', FormatInt (r_Ret r)), (''error'', errnoName (- r_Ret r))]
          else [(''ret'', FormatInt (r_Ret r))])"
  using assms by (subst Decode_exit_args) (simp_all add: Raw_IsExit_def)

section \<open>Connect targets\<close>

lemma Decode_connect_dest:
  assumes "\<not> Raw_IsExit r" and "r_SyscallID r = SysConnect"
  shows "ev_DestIP (Decode r t) = (if r_Daddr r \<noteq> 0 then formatIPv4 (r_Daddr r) else [])"
    and "ev_DestPort (Decode r t) = ntohs (r_Dport r)"
  using assms by (simp_all add: Decode_def decode_base_def decodeArgs_def decodeConnect_def Let_def)

lemma loopback_formatIPv4: "prefix ''127.'' (formatIPv4 a) \<longleftrightarrow> a AND 0xff = 127"
proof -
  obtain rest where ip: "formatIPv4 a = dec (unat (a AND 0xff)) @ CHR ''.'' # rest"
    by (simp add: formatIPv4_def FormatUint_def)
  have d127: "''127'' = dec 127"
    by (simp add: dec_def nat_digits.simps digit_char_def)
  have "prefix ''127.'' (formatIPv4 a) \<longleftrightarrow> (\<exists>zs. dec (unat (a AND 0xff)) @ CHR ''.'' # rest = ''127'' @ CHR ''.'' # zs)"
    by (auto simp: prefix_def ip)
  also have "\<dots> \<longleftrightarrow> dec (unat (a AND 0xff)) = dec 127"
    using append_sep_inject [of "dec (unat (a AND 0xff))" "CHR ''.''" rest "dec 127"]
      not_in_dec [of "CHR ''.''"] by (auto simp: d127)
  also have "\<dots> \<longleftrightarrow> a AND 0xff = 127" by (simp add: word_unat_eq_iff)
  finally show ?thesis .
qed

lemma formatIPv4_not_v6: "formatIPv4 a \<noteq> ''::1''"
proof -
  have "CHR ''.'' \<in> set (formatIPv4 a)" by (simp add: formatIPv4_def)
  then show ?thesis by auto
qed

text \<open>The textual loopback test agrees with the address: a decoded \<open>connect\<close> is classified as
  loopback exactly when its destination is in 127.0.0.0/8 (the first byte of the address in network
  order is 127).\<close>

theorem IsLoopback_iff_127:
  assumes "\<not> Raw_IsExit r" and "r_SyscallID r = SysConnect"
  shows "Event_IsLoopback (Decode r t) \<longleftrightarrow> r_Daddr r AND 0xff = 127"
  using Decode_connect_dest(1) [OF assms, of t] loopback_formatIPv4 [of "r_Daddr r"]
    formatIPv4_not_v6 [of "r_Daddr r"]
  by (auto simp: Event_IsLoopback_def)

section \<open>Sample records\<close>

definition sample_raw :: Raw where
  "sample_raw =
     \<lparr>r_Timestamp = 1000000000, r_PID = 1000, r_TGID = 1000, r_UID = 1000, r_GID = 1000,
      r_PPID = 900, r_SyscallID = SysConnect, r_Ret = 0, r_Arg0 = 3, r_Arg1 = 0, r_Arg2 = 0,
      r_Daddr = 0x0100007f, r_Dport = 0x5c11, r_Family = AFInet, r_Flags = 0,
      r_Comm = ''testproc'', r_Path = [], r_Argv = []\<rparr>"

theorem Decode_exit_ignores_arguments_witness:
  "Raw_IsExit (sample_raw\<lparr>r_Flags := 1, r_Ret := -13\<rparr>) \<and>
   ev_Args (Decode (sample_raw\<lparr>r_Flags := 1, r_Ret := -13, r_Arg0 := 9, r_Arg1 := 0, r_Arg2 := 0,
     r_Daddr := 1, r_Dport := 2, r_Path := ''/x'', r_Argv := []\<rparr>) 0) =
     [(''ret'', ''-13''), (''error'', ''EACCES'')]"
proof -
  let ?r = "sample_raw\<lparr>r_Flags := 1, r_Ret := -13\<rparr>"
  have exit: "Raw_IsExit ?r" by (simp add: Raw_IsExit_def)
  have "errnoName 13 = ''EACCES''" and "FormatInt (-13) = ''-13''"
    by (simp_all add: errnoName_def errnoNames_def FormatInt_def dec_def nat_digits.simps digit_char_def)
  then show ?thesis
    using exit Decode_exit_ignores_arguments [OF exit, where ?a0.0 = 9 and ?a1.0 = 0 and ?a2.0 = 0
      and d = 1 and p = 2 and path = "''/x''" and argv = "[]" and t = 0] by simp
qed

theorem IsLoopback_iff_127_witness:
  "\<not> Raw_IsExit sample_raw \<and> r_SyscallID sample_raw = SysConnect \<and>
   Event_IsLoopback (Decode sample_raw 0)"
proof -
  have pre: "\<not> Raw_IsExit sample_raw" "r_SyscallID sample_raw = SysConnect"
    by (simp_all add: Raw_IsExit_def sample_raw_def)
  then show ?thesis
    using IsLoopback_iff_127 [OF pre, of 0] by (simp add: sample_raw_def)
qed

end
