(* ===== verification/Tracker.thy ===== *)
theory Tracker
  imports Events
begin

text \<open>
  \<^verbatim>\<open>detect/tracker.go\<close>: bounded per-process syscall history with eviction of silent processes.
  The map \<open>procs\<close> is an association list with distinct keys; ranging over it to delete expired
  entries is a filter, since the order of the deletions is not observable.  The mutex is not
  modelled: every method holds it from entry to exit, so each is one atomic step.  A nil
  \<open>*ProcessHistory\<close> is \<open>None\<close>.
\<close>

record HistoryEntry =
  he_Syscall :: Syscall
  he_Timestamp :: u64
  he_IsExit :: bool
  he_Arg0 :: i64
  he_Arg1 :: i64
  he_Ret :: i64
  he_DestIP :: string
  he_DestPort :: u16

record ProcessHistory =
  ph_PID :: u32
  ph_Comm :: string
  ph_entries :: "HistoryEntry list"
  ph_lastSeen :: u64

record Tracker =
  tk_procs :: "(u32, ProcessHistory) gomap"
  tk_depth :: nat
  tk_ttl :: Duration
  tk_sweepEvery :: Duration
  tk_maxProcesses :: nat
  tk_lastSweep :: u64

definition defaultHistoryDepth :: nat where [simp]: "defaultHistoryDepth = 32"

definition defaultTTL :: Duration where [simp]: "defaultTTL = 30000000000"

definition defaultSweepInterval :: Duration where [simp]: "defaultSweepInterval = 5000000000"

definition defaultMaxProcesses :: nat where [simp]: "defaultMaxProcesses = 8192"

definition Entries :: "ProcessHistory option \<Rightarrow> HistoryEntry list" where
  "Entries h = (case h of None \<Rightarrow> [] | Some h \<Rightarrow> ph_entries h)"

fun within_start :: "HistoryEntry list \<Rightarrow> u64 \<Rightarrow> nat \<Rightarrow> nat" where
  "within_start es cutoff 0 = 0"
| "within_start es cutoff (Suc n) =
     (if cutoff \<le> he_Timestamp (es ! n) then within_start es cutoff n else Suc n)"

definition cutoff_of :: "u64 \<Rightarrow> Duration \<Rightarrow> u64" where
  "cutoff_of now window = (if window < now then now - window else 0)"

definition Within :: "ProcessHistory option \<Rightarrow> u64 \<Rightarrow> Duration \<Rightarrow> HistoryEntry list" where
  "Within h now window =
     (case h of
        None \<Rightarrow> []
      | Some h \<Rightarrow>
          (if ph_entries h = [] then []
           else drop (within_start (ph_entries h) (cutoff_of now window) (length (ph_entries h)))
                  (ph_entries h)))"

definition NewTracker :: Tracker where
  "NewTracker =
     \<lparr>tk_procs = [], tk_depth = defaultHistoryDepth, tk_ttl = defaultTTL,
      tk_sweepEvery = defaultSweepInterval, tk_maxProcesses = defaultMaxProcesses,
      tk_lastSweep = 0\<rparr>"

definition tracked :: "Syscall \<Rightarrow> bool" where
  "tracked sc \<longleftrightarrow>
     sc = SysSocket \<or> sc = SysConnect \<or> sc = SysDup2 \<or> sc = SysDup3 \<or> sc = SysExecve \<or> sc = SysExecveat"

definition proc_expired :: "u64 \<Rightarrow> Tracker \<Rightarrow> u32 \<times> ProcessHistory \<Rightarrow> bool" where
  "proc_expired now t e \<longleftrightarrow> ph_lastSeen (snd e) < now \<and> tk_ttl t < now - ph_lastSeen (snd e)"

definition Tracker_maybeSweep :: "u64 \<Rightarrow> Tracker \<Rightarrow> Tracker" where
  "Tracker_maybeSweep now t =
     (let overCapacity = tk_maxProcesses t \<le> length (tk_procs t)
      in if \<not> overCapacity \<and> tk_lastSweep t \<noteq> 0 \<and> now - tk_lastSweep t < tk_sweepEvery t then t
         else
           let kept = filter (\<lambda>e. \<not> proc_expired now t e) (tk_procs t)
           in t\<lparr>tk_lastSweep := now,
                tk_procs := (if tk_maxProcesses t \<le> length kept then [] else kept)\<rparr>)"

definition entry_of :: "Event \<Rightarrow> HistoryEntry" where
  "entry_of ev =
     \<lparr>he_Syscall = ev_SyscallID ev, he_Timestamp = ev_Timestamp ev, he_IsExit = ev_IsExit ev,
      he_Arg0 = ev_Arg0 ev, he_Arg1 = ev_Arg1 ev, he_Ret = ev_ReturnValue ev,
      he_DestIP = ev_DestIP ev, he_DestPort = ev_DestPort ev\<rparr>"

definition trim_to :: "nat \<Rightarrow> 'a list \<Rightarrow> 'a list" where
  "trim_to depth es = (if depth < length es then drop (length es - depth) es else es)"

text \<open>The part of \<open>Record\<close> after the sweep: find or create the history, refresh it, append, trim.\<close>

definition filed_history :: "Event \<Rightarrow> Tracker \<Rightarrow> ProcessHistory" where
  "filed_history ev t =
     (let h = (case map_of (tk_procs t) (ev_PID ev) of
                 Some h \<Rightarrow> h
               | None \<Rightarrow> \<lparr>ph_PID = ev_PID ev, ph_Comm = ev_Comm ev, ph_entries = [], ph_lastSeen = 0\<rparr>)
      in h\<lparr>ph_Comm := ev_Comm ev, ph_lastSeen := ev_Timestamp ev,
           ph_entries := trim_to (tk_depth t) (ph_entries h @ [entry_of ev])\<rparr>)"

definition Tracker_file :: "Event \<Rightarrow> Tracker \<Rightarrow> Tracker" where
  "Tracker_file ev t = t\<lparr>tk_procs := mapset (ev_PID ev) (filed_history ev t) (tk_procs t)\<rparr>"

definition Tracker_Record :: "Tracker \<Rightarrow> Event \<Rightarrow> Tracker \<times> ProcessHistory option" where
  "Tracker_Record t ev =
     (if \<not> tracked (ev_SyscallID ev) then (t, None)
      else let t = Tracker_maybeSweep (ev_Timestamp ev) t
           in (Tracker_file ev t, Some (filed_history ev t)))"

definition Tracker_Forget :: "u32 \<Rightarrow> Tracker \<Rightarrow> Tracker" where
  "Tracker_Forget pid t = t\<lparr>tk_procs := mapdel pid (tk_procs t)\<rparr>"

definition Tracker_Len :: "Tracker \<Rightarrow> nat" where
  "Tracker_Len t = length (tk_procs t)"

text \<open>The tracker after a sequence of events, as \<open>Engine.Evaluate\<close> drives it.\<close>

definition Tracker_run :: "Event list \<Rightarrow> Tracker \<Rightarrow> Tracker" where
  "Tracker_run evs t = fold (\<lambda>ev t. fst (Tracker_Record t ev)) evs t"

section \<open>Bounds\<close>

definition history_ok :: "nat \<Rightarrow> u32 \<times> ProcessHistory \<Rightarrow> bool" where
  "history_ok depth e \<longleftrightarrow>
     ph_PID (snd e) = fst e \<and> length (ph_entries (snd e)) \<le> depth \<and>
     ph_entries (snd e) \<noteq> [] \<and> ph_lastSeen (snd e) = he_Timestamp (last (ph_entries (snd e)))"

definition tracker_wf :: "Tracker \<Rightarrow> bool" where
  "tracker_wf t \<longleftrightarrow>
     0 < tk_maxProcesses t \<and> 0 < tk_depth t \<and> distinct_keys (tk_procs t) \<and>
     (\<forall>e \<in> set (tk_procs t). history_ok (tk_depth t) e)"

lemma maybeSweep_fields [simp]:
  "tk_depth (Tracker_maybeSweep now t) = tk_depth t"
  "tk_ttl (Tracker_maybeSweep now t) = tk_ttl t"
  "tk_sweepEvery (Tracker_maybeSweep now t) = tk_sweepEvery t"
  "tk_maxProcesses (Tracker_maybeSweep now t) = tk_maxProcesses t"
  by (simp_all add: Tracker_maybeSweep_def Let_def)

lemma file_fields [simp]:
  "tk_depth (Tracker_file ev t) = tk_depth t"
  "tk_ttl (Tracker_file ev t) = tk_ttl t"
  "tk_sweepEvery (Tracker_file ev t) = tk_sweepEvery t"
  "tk_maxProcesses (Tracker_file ev t) = tk_maxProcesses t"
  "tk_lastSweep (Tracker_file ev t) = tk_lastSweep t"
  "tk_procs (Tracker_file ev t) = mapset (ev_PID ev) (filed_history ev t) (tk_procs t)"
  by (simp_all add: Tracker_file_def)

lemma trim_to_length: "length (trim_to n xs) = min n (length xs)"
  by (simp add: trim_to_def)

lemma trim_to_last: "0 < n \<Longrightarrow> xs \<noteq> [] \<Longrightarrow> last (trim_to n xs) = last xs"
  by (simp add: trim_to_def last_drop)

lemma trim_to_nonempty: "0 < n \<Longrightarrow> trim_to n (xs @ [x]) \<noteq> []"
  by (simp add: trim_to_def)

lemma trim_to_snoc: "trim_to n (trim_to n xs @ [x]) = trim_to n (xs @ [x])"
  by (cases "n < length xs") (auto simp: trim_to_def Suc_diff_le)

lemma set_trim_to: "set (trim_to n xs) \<subseteq> set xs"
  by (auto simp: trim_to_def dest: in_set_dropD)

lemma filed_history_ok:
  assumes "tracker_wf t"
  shows "history_ok (tk_depth t) (ev_PID ev, filed_history ev t)"
proof -
  have "map_of (tk_procs t) (ev_PID ev) = Some h \<Longrightarrow> ph_PID h = ev_PID ev" for h
    using assms by (auto simp: tracker_wf_def history_ok_def dest: map_of_SomeD)
  then show ?thesis
    using assms
    by (auto simp: history_ok_def filed_history_def Let_def trim_to_length trim_to_last
        trim_to_nonempty entry_of_def tracker_wf_def split: option.splits)
qed

lemma maybeSweep_cases:
  "tk_procs (Tracker_maybeSweep now t) = tk_procs t \<and> length (tk_procs t) < tk_maxProcesses t \<or>
   (let kept = filter (\<lambda>e. \<not> proc_expired now t e) (tk_procs t)
    in tk_procs (Tracker_maybeSweep now t) = (if tk_maxProcesses t \<le> length kept then [] else kept))"
  by (auto simp: Tracker_maybeSweep_def Let_def)

lemma maybeSweep_subset: "set (tk_procs (Tracker_maybeSweep now t)) \<subseteq> set (tk_procs t)"
  using maybeSweep_cases [of now t] by (auto simp: Let_def split: if_splits)

lemma maybeSweep_wf [wf_intros]: "tracker_wf t \<Longrightarrow> tracker_wf (Tracker_maybeSweep now t)"
  using maybeSweep_cases [of now t] maybeSweep_subset [of now t]
  by (auto simp: tracker_wf_def Let_def split: if_splits)

lemma file_wf [wf_intros]: "tracker_wf t \<Longrightarrow> tracker_wf (Tracker_file ev t)"
  using filed_history_ok [of t ev] by (auto simp: tracker_wf_def set_mapset)

interpretation tk: swept_cache tracker_wf tk_procs Tracker_maybeSweep proc_expired
  tk_maxProcesses ev_Timestamp Tracker_file
proof
  show "0 < tk_maxProcesses t" if "tracker_wf t" for t
    using that by (simp add: tracker_wf_def)
qed (simp_all add: maybeSweep_cases maybeSweep_wf file_wf length_mapset_le)

lemma Record_handle:
  "fst (Tracker_Record t ev) = (if tracked (ev_SyscallID ev) then tk.handle ev t else t)"
  by (simp add: Tracker_Record_def tk.handle_def Let_def)

lemma Record_wf [wf_intros]: "tracker_wf t \<Longrightarrow> tracker_wf (fst (Tracker_Record t ev))"
  by (simp add: Record_handle tk.handle_ok)

lemma Forget_wf [wf_intros]: "tracker_wf t \<Longrightarrow> tracker_wf (Tracker_Forget pid t)"
  by (auto simp: tracker_wf_def Tracker_Forget_def set_mapdel)

lemma NewTracker_wf [wf_intros]: "tracker_wf NewTracker"
  by (simp add: tracker_wf_def NewTracker_def)

lemma Tracker_run_snoc: "Tracker_run (evs @ [ev]) t = fst (Tracker_Record (Tracker_run evs t) ev)"
  by (simp add: Tracker_run_def)

lemma Tracker_run_Nil [simp]: "Tracker_run [] t = t"
  by (simp add: Tracker_run_def)

lemma Tracker_run_handle:
  "Tracker_run evs t = fold tk.handle (filter (\<lambda>ev. tracked (ev_SyscallID ev)) evs) t"
  by (induction evs arbitrary: t) (simp_all add: Tracker_run_def Record_handle)

lemma Tracker_run_wf [wf_intros]: "tracker_wf t \<Longrightarrow> tracker_wf (Tracker_run evs t)"
  by (induction evs rule: rev_induct) (simp_all add: Tracker_run_snoc Record_wf)

lemma Record_params [simp]:
  "tk_depth (fst (Tracker_Record t ev)) = tk_depth t"
  "tk_ttl (fst (Tracker_Record t ev)) = tk_ttl t"
  "tk_sweepEvery (fst (Tracker_Record t ev)) = tk_sweepEvery t"
  "tk_maxProcesses (fst (Tracker_Record t ev)) = tk_maxProcesses t"
  by (simp_all add: Tracker_Record_def Let_def)

lemma Tracker_run_params [simp]:
  "tk_depth (Tracker_run evs t) = tk_depth t"
  "tk_ttl (Tracker_run evs t) = tk_ttl t"
  "tk_sweepEvery (Tracker_run evs t) = tk_sweepEvery t"
  "tk_maxProcesses (Tracker_run evs t) = tk_maxProcesses t"
  by (induction evs rule: rev_induct) (simp_all add: Tracker_run_snoc)

text \<open>C25. The tracker is bounded in both dimensions after any sequence of events whatsoever: at most
  8192 processes, at most 32 entries for each, and every history is filed under its own process.\<close>

theorem tracker_bounded:
  "Tracker_Len (Tracker_run evs NewTracker) \<le> defaultMaxProcesses \<and>
   list_all (\<lambda>(pid, h). ph_PID h = pid \<and> length (ph_entries h) \<le> defaultHistoryDepth)
     (tk_procs (Tracker_run evs NewTracker))"
proof
  show "Tracker_Len (Tracker_run evs NewTracker) \<le> defaultMaxProcesses"
    using tk.run_bounded [OF NewTracker_wf] unfolding Tracker_Len_def Tracker_run_handle
    by (simp add: NewTracker_def)
  show "list_all (\<lambda>(pid, h). ph_PID h = pid \<and> length (ph_entries h) \<le> defaultHistoryDepth)
     (tk_procs (Tracker_run evs NewTracker))"
    using Tracker_run_wf [OF NewTracker_wf, of evs]
    by (auto simp: tracker_wf_def history_ok_def list_all_iff NewTracker_def)
qed

section \<open>What is remembered\<close>

text \<open>The abstract history: the last \<open>depth\<close> tracked events of the process, in order.\<close>

definition events_of :: "u32 \<Rightarrow> Event list \<Rightarrow> Event list" where
  "events_of p evs = filter (\<lambda>e. tracked (ev_SyscallID e) \<and> ev_PID e = p) evs"

definition recent :: "nat \<Rightarrow> Event list \<Rightarrow> u32 \<Rightarrow> ProcessHistory option" where
  "recent depth evs p =
     (let xs = events_of p evs
      in if xs = [] then None
         else Some \<lparr>ph_PID = p, ph_Comm = ev_Comm (last xs),
                    ph_entries = trim_to depth (map entry_of xs),
                    ph_lastSeen = ev_Timestamp (last xs)\<rparr>)"

lemma recent_snoc_other:
  "\<not> (tracked (ev_SyscallID ev) \<and> ev_PID ev = p) \<Longrightarrow> recent d (evs @ [ev]) p = recent d evs p"
  by (auto simp: recent_def events_of_def)

lemma recent_snoc_same:
  assumes "tracked (ev_SyscallID ev)" and "map_of (tk_procs t) (ev_PID ev) = recent (tk_depth t) evs (ev_PID ev)"
  shows "recent (tk_depth t) (evs @ [ev]) (ev_PID ev) = Some (filed_history ev t)"
  using assms
  by (auto simp: recent_def events_of_def filed_history_def Let_def trim_to_snoc
      split: option.splits if_splits)

lemma maybeSweep_noop:
  assumes "length (tk_procs t) < tk_maxProcesses t" and "\<forall>e \<in> set (tk_procs t). \<not> proc_expired now t e"
  shows "tk_procs (Tracker_maybeSweep now t) = tk_procs t"
proof -
  have "filter (\<lambda>e. \<not> proc_expired now t e) (tk_procs t) = tk_procs t"
    using assms(2) by simp
  then show ?thesis using maybeSweep_cases [of now t] assms(1) by (auto simp: Let_def)
qed

lemma recent_lastSeen:
  "recent d evs p = Some h \<Longrightarrow> \<exists>e \<in> set (events_of p evs). ph_lastSeen h = ev_Timestamp e"
  by (auto simp: recent_def Let_def split: if_splits intro: last_in_set)

lemma recent_keys_bound:
  assumes "distinct_keys m" and "\<And>p. map_of m p = recent d evs p"
  shows "length m \<le> card (ev_PID ` set evs)"
proof -
  have "fst ` set m \<subseteq> ev_PID ` set evs"
  proof
    fix p
    assume "p \<in> fst ` set m"
    then have "recent d evs p \<noteq> None" using assms(2) by (metis map_of_eq_None_iff)
    then show "p \<in> ev_PID ` set evs"
      by (auto simp: recent_def events_of_def Let_def filter_empty_conv split: if_splits)
  qed
  then have "card (fst ` set m) \<le> card (ev_PID ` set evs)" by (intro card_mono) auto
  moreover have "card (fst ` set m) = length m" using assms(1) distinct_card [of "map fst m"] by simp
  ultimately show ?thesis by simp
qed

definition no_gap :: "Duration \<Rightarrow> Event list \<Rightarrow> bool" where
  "no_gap ttl evs \<longleftrightarrow>
     (\<forall>e \<in> set evs. \<forall>f \<in> set evs. \<not> (ev_Timestamp f < ev_Timestamp e \<and>
        ttl < ev_Timestamp e - ev_Timestamp f))"

lemma no_gap_mono: "no_gap ttl ys \<Longrightarrow> set xs \<subseteq> set ys \<Longrightarrow> no_gap ttl xs"
  by (auto simp: no_gap_def)

lemma recent_not_expired:
  assumes "no_gap (tk_ttl t) (evs @ [ev])" and "map_of (tk_procs t) p = recent d evs p"
    and "(p, h) \<in> set (tk_procs t)" and "distinct_keys (tk_procs t)"
  shows "\<not> proc_expired (ev_Timestamp ev) t (p, h)"
proof -
  have "recent d evs p = Some h" using assms(2-4) by (metis map_of_is_SomeI)
  then obtain e where "e \<in> set evs" and "ph_lastSeen h = ev_Timestamp e"
    using recent_lastSeen by (fastforce simp: events_of_def)
  then show ?thesis using assms(1) by (auto simp: no_gap_def proc_expired_def)
qed

lemma run_recent:
  assumes "tracker_wf t" and "tk_procs t = []" and "no_gap (tk_ttl t) evs"
    and "card (ev_PID ` set evs) < tk_maxProcesses t"
  shows "map_of (tk_procs (Tracker_run evs t)) p = recent (tk_depth t) evs p"
  using assms(3,4)
proof (induction evs arbitrary: p rule: rev_induct)
  case Nil
  then show ?case by (simp add: assms(2) recent_def events_of_def)
next
  case (snoc ev evs)
  let ?t = "Tracker_run evs t"
  have fewer: "card (ev_PID ` set evs) < tk_maxProcesses t"
    using snoc.prems(2) card_insert_le [of "ev_PID ` set evs" "ev_PID ev"] by simp
  have IH: "map_of (tk_procs ?t) q = recent (tk_depth t) evs q" for q
    using snoc.IH snoc.prems(1) fewer no_gap_mono [of "tk_ttl t" "evs @ [ev]" evs] by auto
  have wf: "tracker_wf ?t" using Tracker_run_wf assms(1) by blast
  have len: "length (tk_procs ?t) < tk_maxProcesses ?t"
    using recent_keys_bound [of "tk_procs ?t" "tk_depth t" evs] IH wf fewer
    by (simp add: tracker_wf_def)
  have "\<forall>e \<in> set (tk_procs ?t). \<not> proc_expired (ev_Timestamp ev) ?t e"
    using recent_not_expired [of ?t evs ev _ "tk_depth t"] IH snoc.prems(1) wf
    by (auto simp: tracker_wf_def)
  from maybeSweep_noop [OF len this]
  have procs: "tk_procs (Tracker_maybeSweep (ev_Timestamp ev) ?t) = tk_procs ?t" .
  show ?case
  proof (cases "tracked (ev_SyscallID ev)")
    case False
    then show ?thesis by (simp add: Tracker_run_snoc Tracker_Record_def IH recent_snoc_other)
  next
    case True
    then show ?thesis
      using recent_snoc_same [of ev "Tracker_maybeSweep (ev_Timestamp ev) ?t" evs] procs IH
      by (cases "ev_PID ev = p")
        (auto simp: Tracker_run_snoc Tracker_Record_def Let_def recent_snoc_other)
  qed
qed

text \<open>C21. As long as no two events are more than the TTL apart and fewer than 8192 processes appear,
  the tracker refines its specification exactly: every process has precisely its last 32 tracked
  events, oldest first, with the current name and time.\<close>

theorem tracker_recent_history:
  assumes "no_gap defaultTTL evs" and "card (ev_PID ` set evs) < defaultMaxProcesses"
  shows "map_of (tk_procs (Tracker_run evs NewTracker)) p = recent defaultHistoryDepth evs p"
  using run_recent [of NewTracker evs p] assms NewTracker_wf by (simp add: NewTracker_def)

section \<open>The window\<close>

lemma within_start_le: "within_start es c n \<le> n"
  by (induction n) auto

lemma within_take:
  assumes "sorted (map he_Timestamp es)" and "n \<le> length es"
  shows "drop (within_start es c n) (take n es) = filter (\<lambda>e. c \<le> he_Timestamp e) (take n es)"
  using assms(2)
proof (induction n)
  case 0
  then show ?case by simp
next
  case (Suc n)
  then have take: "take (Suc n) es = take n es @ [es ! n]" by (simp add: take_Suc_conv_app_nth)
  show ?case
  proof (cases "c \<le> he_Timestamp (es ! n)")
    case True
    then show ?thesis using Suc take within_start_le [of es c n] by simp
  next
    case False
    have "he_Timestamp e < c" if "e \<in> set (take n es)" for e
    proof -
      from that obtain i where "i < n" and "e = es ! i" using Suc.prems by (auto simp: in_set_conv_nth)
      then have "he_Timestamp e \<le> he_Timestamp (es ! n)"
        using assms(1) Suc.prems sorted_nth_mono [of "map he_Timestamp es" i n] by simp
      with False show ?thesis by simp
    qed
    then have "filter (\<lambda>e. c \<le> he_Timestamp e) (take n es) = []"
      by (auto simp: filter_empty_conv not_le)
    then show ?thesis using False take Suc.prems by simp
  qed
qed

lemma Within_filter:
  assumes "sorted (map he_Timestamp (ph_entries h))"
  shows "Within (Some h) now w = filter (\<lambda>e. cutoff_of now w \<le> he_Timestamp e) (ph_entries h)"
  using within_take [OF assms, of "length (ph_entries h)"] by (simp add: Within_def)

definition time_ordered :: "u64 \<Rightarrow> Tracker \<Rightarrow> bool" where
  "time_ordered now t \<longleftrightarrow>
     (\<forall>(p, h) \<in> set (tk_procs t). sorted (map he_Timestamp (ph_entries h)) \<and>
        (\<forall>e \<in> set (ph_entries h). he_Timestamp e \<le> now))"

lemma sorted_trim_to: "sorted xs \<Longrightarrow> sorted (trim_to n xs)"
  by (simp add: trim_to_def sorted_wrt_drop)

lemma map_trim_to: "map f (trim_to n xs) = trim_to n (map f xs)"
  by (simp add: trim_to_def drop_map)

lemma filed_sorted:
  assumes "time_ordered now t" and "now \<le> ev_Timestamp ev"
  shows "sorted (map he_Timestamp (ph_entries (filed_history ev t))) \<and>
    (\<forall>e \<in> set (ph_entries (filed_history ev t)). he_Timestamp e \<le> ev_Timestamp ev)"
proof (cases "map_of (tk_procs t) (ev_PID ev)")
  case None
  then show ?thesis
    using set_trim_to [of "tk_depth t" "[entry_of ev]"]
    by (auto simp: filed_history_def Let_def map_trim_to sorted_trim_to entry_of_def)
next
  case (Some h)
  then have "(ev_PID ev, h) \<in> set (tk_procs t)" by (rule map_of_SomeD)
  then have h: "sorted (map he_Timestamp (ph_entries h))" "\<forall>e \<in> set (ph_entries h). he_Timestamp e \<le> ev_Timestamp ev"
    using assms by (fastforce simp: time_ordered_def intro: order_trans)+
  then have "sorted (map he_Timestamp (ph_entries h @ [entry_of ev]))"
    by (simp add: sorted_append entry_of_def)
  then show ?thesis
    using Some h set_trim_to [of "tk_depth t" "ph_entries h @ [entry_of ev]"]
    by (auto simp: filed_history_def Let_def map_trim_to sorted_trim_to entry_of_def simp del: map_append)
qed

lemma time_ordered_sweep: "time_ordered now t \<Longrightarrow> time_ordered now (Tracker_maybeSweep ts t)"
  using maybeSweep_subset [of ts t] by (auto simp: time_ordered_def)

lemma time_ordered_Record:
  assumes "time_ordered now t" and "now \<le> ev_Timestamp ev" and "tracker_wf t"
  shows "time_ordered (ev_Timestamp ev) (fst (Tracker_Record t ev))"
proof -
  let ?t = "Tracker_maybeSweep (ev_Timestamp ev) t"
  have "time_ordered now ?t" and "tracker_wf ?t"
    using assms time_ordered_sweep maybeSweep_wf by auto
  with filed_sorted [of now ?t ev] assms show ?thesis
    by (force simp: time_ordered_def Tracker_Record_def Let_def tracker_wf_def set_mapset)
qed

lemma run_time_ordered:
  assumes "tracker_wf t" and "tk_procs t = []" and "sorted (map ev_Timestamp evs)"
    and "\<forall>e \<in> set evs. ev_Timestamp e \<le> now"
  shows "time_ordered now (Tracker_run evs t)"
  using assms(3,4)
proof (induction evs arbitrary: now rule: rev_induct)
  case Nil
  then show ?case by (simp add: time_ordered_def assms(2))
next
  case (snoc ev evs)
  then have "time_ordered (ev_Timestamp ev) (Tracker_run evs t)" by (simp add: sorted_append)
  then have "time_ordered (ev_Timestamp ev) (Tracker_run (evs @ [ev]) t)"
    using time_ordered_Record [of "ev_Timestamp ev"] Tracker_run_wf assms(1)
    by (simp add: Tracker_run_snoc)
  then show ?case using snoc.prems by (fastforce simp: time_ordered_def)
qed

lemma Record_history_sorted:
  assumes "sorted (map ev_Timestamp (evs @ [ev]))"
    and "snd (Tracker_Record (Tracker_run evs NewTracker) ev) = Some h"
  shows "sorted (map he_Timestamp (ph_entries h))"
proof -
  let ?t = "Tracker_run evs NewTracker"
  have "time_ordered (ev_Timestamp ev) ?t"
    using assms(1) run_time_ordered [OF NewTracker_wf, of evs "ev_Timestamp ev"]
    by (auto simp: sorted_append NewTracker_def)
  then show ?thesis
    using filed_sorted [OF time_ordered_sweep, of "ev_Timestamp ev" ?t ev] assms(2)
    by (auto simp: Tracker_Record_def Let_def split: if_splits)
qed

text \<open>On a stream with non-decreasing timestamps, the backwards scan of \<open>Within\<close> over the history
  returned by \<open>Record\<close> is exactly the selection of the entries not older than the window.\<close>

theorem Record_Within_window:
  assumes "sorted (map ev_Timestamp (evs @ [ev]))"
    and "snd (Tracker_Record (Tracker_run evs NewTracker) ev) = Some h"
  shows "Within (Some h) now w = filter (\<lambda>e. cutoff_of now w \<le> he_Timestamp e) (ph_entries h)"
  by (rule Within_filter [OF Record_history_sorted [OF assms]])

lemma Record_recent:
  assumes "no_gap defaultTTL (evs @ [ev])" and "card (ev_PID ` set (evs @ [ev])) < defaultMaxProcesses"
    and "tracked (ev_SyscallID ev)"
  shows "snd (Tracker_Record (Tracker_run evs NewTracker) ev) = recent defaultHistoryDepth (evs @ [ev]) (ev_PID ev)"
proof -
  have "map_of (tk_procs (Tracker_run (evs @ [ev]) NewTracker)) (ev_PID ev) =
      recent defaultHistoryDepth (evs @ [ev]) (ev_PID ev)"
    using run_recent [of NewTracker "evs @ [ev]" "ev_PID ev"] assms(1,2) NewTracker_wf by (simp add: NewTracker_def)
  then show ?thesis
    using assms(3) by (simp add: Tracker_run_snoc Tracker_Record_def Let_def Tracker_file_def)
qed

section \<open>Silent processes\<close>

definition swept_clean :: "u64 \<Rightarrow> Tracker \<Rightarrow> bool" where
  "swept_clean now t \<longleftrightarrow>
     tk_lastSweep t \<le> now \<and>
     (\<forall>(p, h) \<in> set (tk_procs t). ph_lastSeen h \<le> now \<and>
        (ph_lastSeen h < tk_lastSweep t \<longrightarrow> tk_lastSweep t - ph_lastSeen h \<le> tk_ttl t))"

lemma filed_lastSeen [simp]: "ph_lastSeen (filed_history ev t) = ev_Timestamp ev"
  by (simp add: filed_history_def Let_def)

lemma swept_clean_sweep:
  "swept_clean now t \<Longrightarrow> now \<le> ts \<Longrightarrow> swept_clean ts (Tracker_maybeSweep ts t)"
  by (fastforce simp: swept_clean_def Tracker_maybeSweep_def Let_def proc_expired_def not_less)

lemma swept_clean_Record:
  assumes "swept_clean now t" and "now \<le> ev_Timestamp ev" and "tracker_wf t"
  shows "swept_clean (ev_Timestamp ev) (fst (Tracker_Record t ev))"
proof (cases "tracked (ev_SyscallID ev)")
  case False
  then show ?thesis
    using assms by (fastforce simp: swept_clean_def Tracker_Record_def intro: order_trans)
next
  case True
  let ?t = "Tracker_maybeSweep (ev_Timestamp ev) t"
  have "distinct_keys (tk_procs ?t)" using maybeSweep_wf [OF assms(3)] by (simp add: tracker_wf_def)
  with True swept_clean_sweep [OF assms(1,2)] show ?thesis
    by (auto simp: swept_clean_def Tracker_Record_def Let_def set_mapset)
qed

lemma run_swept_clean:
  assumes "sorted (map ev_Timestamp evs)" and "\<forall>e \<in> set evs. ev_Timestamp e \<le> now"
  shows "swept_clean now (Tracker_run evs NewTracker)"
  using assms
proof (induction evs arbitrary: now rule: rev_induct)
  case Nil
  then show ?case by (simp add: swept_clean_def NewTracker_def)
next
  case (snoc ev evs)
  then have "swept_clean (ev_Timestamp ev) (Tracker_run evs NewTracker)" by (simp add: sorted_append)
  then have "swept_clean (ev_Timestamp ev) (Tracker_run (evs @ [ev]) NewTracker)"
    using swept_clean_Record [of "ev_Timestamp ev"] Tracker_run_wf [OF NewTracker_wf]
    by (simp add: Tracker_run_snoc)
  then show ?case using snoc.prems by (fastforce simp: swept_clean_def intro: order_trans)
qed

lemma run_lastSeen:
  "(p, h) \<in> set (tk_procs (Tracker_run evs NewTracker)) \<Longrightarrow>
   \<exists>e \<in> set (events_of p evs). ph_lastSeen h = ev_Timestamp e"
proof (induction evs arbitrary: h rule: rev_induct)
  case Nil
  then show ?case by (simp add: NewTracker_def)
next
  case (snoc ev evs)
  let ?t = "Tracker_maybeSweep (ev_Timestamp ev) (Tracker_run evs NewTracker)"
  have "distinct_keys (tk_procs ?t)"
    using maybeSweep_wf [OF Tracker_run_wf [OF NewTracker_wf]] by (simp add: tracker_wf_def)
  with snoc maybeSweep_subset [of "ev_Timestamp ev" "Tracker_run evs NewTracker"] show ?case
    by (auto simp: Tracker_run_snoc Tracker_Record_def Let_def set_mapset events_of_def split: if_splits)
qed

lemma sweep_drops_silent:
  assumes clean: "swept_clean now t" and "now \<le> ts" and mem: "(p, h) \<in> set (tk_procs t)"
    and silent: "unat (ph_lastSeen h) + unat (tk_ttl t) + unat (tk_sweepEvery t) < unat ts"
  shows "(p, h) \<notin> set (tk_procs (Tracker_maybeSweep ts t))"
proof (cases "length (tk_procs t) < tk_maxProcesses t \<and> tk_lastSweep t \<noteq> 0 \<and>
    ts - tk_lastSweep t < tk_sweepEvery t")
  case True
  have le: "tk_lastSweep t \<le> ts" using assms(1,2) by (auto simp: swept_clean_def)
  then have "unat ts < unat (tk_lastSweep t) + unat (tk_sweepEvery t)"
    using True by (simp add: word_less_nat_alt unat_sub word_le_nat_alt) linarith
  moreover have "unat (tk_lastSweep t) \<le> unat (ph_lastSeen h) + unat (tk_ttl t)"
    using clean mem
    by (cases "ph_lastSeen h < tk_lastSweep t")
      (fastforce simp: swept_clean_def word_le_nat_alt word_less_nat_alt unat_sub)+
  ultimately show ?thesis using silent by linarith
next
  case False
  have "proc_expired ts t (p, h)"
    using silent by (simp add: proc_expired_def word_less_nat_alt unat_sub word_le_nat_alt)
  with False show ?thesis by (auto simp: Tracker_maybeSweep_def Let_def not_less)
qed

text \<open>A process that was silent for longer than the TTL plus one sweep interval starts afresh: on a
  stream with non-decreasing timestamps its next tracked event is the only entry of its history, so
  nothing that happened before the silence can complete a sequence.\<close>

theorem silence_forgets:
  assumes "sorted (map ev_Timestamp (evs @ [ev]))" and "tracked (ev_SyscallID ev)"
    and "\<forall>e \<in> set (events_of (ev_PID ev) evs).
           unat (ev_Timestamp e) + unat defaultTTL + unat defaultSweepInterval < unat (ev_Timestamp ev)"
  shows "Entries (snd (Tracker_Record (Tracker_run evs NewTracker) ev)) = [entry_of ev]"
proof -
  let ?t = "Tracker_run evs NewTracker" and ?now = "ev_Timestamp ev"
  have clean: "swept_clean ?now ?t" using run_swept_clean assms(1) by (auto simp: sorted_append)
  have "map_of (tk_procs (Tracker_maybeSweep ?now ?t)) (ev_PID ev) = None"
  proof (rule ccontr)
    assume "\<not> ?thesis"
    then obtain h where h: "(ev_PID ev, h) \<in> set (tk_procs (Tracker_maybeSweep ?now ?t))"
      by (auto dest: map_of_SomeD)
    then have mem: "(ev_PID ev, h) \<in> set (tk_procs ?t)" using maybeSweep_subset by blast
    then obtain e where "e \<in> set (events_of (ev_PID ev) evs)" and "ph_lastSeen h = ev_Timestamp e"
      using run_lastSeen by blast
    then have "unat (ph_lastSeen h) + unat (tk_ttl ?t) + unat (tk_sweepEvery ?t) < unat ?now"
      using assms(3) by (simp add: NewTracker_def)
    with sweep_drops_silent [OF clean order_refl mem] h show False by simp
  qed
  then show ?thesis
    using assms(2) Tracker_run_params(1) [of evs NewTracker]
    by (simp add: Tracker_Record_def Let_def Entries_def filed_history_def trim_to_def NewTracker_def)
qed

section \<open>Witnesses\<close>

definition sample_connect :: "u64 \<Rightarrow> Event" where
  "sample_connect ts = Decode (sample_raw\<lparr>r_Timestamp := ts\<rparr>) 0"

lemma sample_connect_fields [simp]:
  "ev_SyscallID (sample_connect ts) = 10" "ev_PID (sample_connect ts) = 1000"
  "ev_Timestamp (sample_connect ts) = ts" "ev_Comm (sample_connect ts) = ''testproc''"
  by (simp_all add: sample_connect_def Decode_def decode_base_def sample_raw_def Let_def
      Raw_IsExit_def)

lemma connect_tracked [simp]: "tracked 10"
  by (simp add: tracked_def)

theorem tracker_recent_history_witness:
  "no_gap defaultTTL [sample_connect 5, sample_connect 7] \<and>
   card (ev_PID ` set [sample_connect 5, sample_connect 7]) < defaultMaxProcesses \<and>
   map_of (tk_procs (Tracker_run [sample_connect 5, sample_connect 7] NewTracker)) 1000 =
     Some \<lparr>ph_PID = 1000, ph_Comm = ''testproc'',
           ph_entries = [entry_of (sample_connect 5), entry_of (sample_connect 7)], ph_lastSeen = 7\<rparr>"
proof -
  let ?evs = "[sample_connect 5, sample_connect 7]"
  have pre: "no_gap defaultTTL ?evs" "card (ev_PID ` set ?evs) < defaultMaxProcesses"
    by (simp_all add: no_gap_def)
  show ?thesis
    using pre tracker_recent_history [OF pre, of 1000]
    by (simp add: recent_def events_of_def trim_to_def)
qed

theorem Record_Within_window_witness:
  "\<exists>h. sorted (map ev_Timestamp ([sample_connect 5] @ [sample_connect 7])) \<and>
     snd (Tracker_Record (Tracker_run [sample_connect 5] NewTracker) (sample_connect 7)) = Some h \<and>
     Within (Some h) 7 1 = filter (\<lambda>e. cutoff_of 7 1 \<le> he_Timestamp e) (ph_entries h)"
proof -
  have ord: "sorted (map ev_Timestamp ([sample_connect 5] @ [sample_connect 7]))" by simp
  obtain h where h: "snd (Tracker_Record (Tracker_run [sample_connect 5] NewTracker)
      (sample_connect 7)) = Some h"
    by (simp add: Tracker_Record_def Let_def)
  show ?thesis using ord h Record_Within_window [OF ord h, of 7 1] by blast
qed

theorem silence_forgets_witness:
  "sorted (map ev_Timestamp ([sample_connect 5] @ [sample_connect 36000000000])) \<and>
   Entries (snd (Tracker_Record (Tracker_run [sample_connect 5] NewTracker)
     (sample_connect 36000000000))) = [entry_of (sample_connect 36000000000)]"
proof -
  let ?e = "sample_connect 5" and ?f = "sample_connect 36000000000"
  have pre: "sorted (map ev_Timestamp ([?e] @ [?f]))" "tracked (ev_SyscallID ?f)"
    "\<forall>e \<in> set (events_of (ev_PID ?f) [?e]).
       unat (ev_Timestamp e) + unat defaultTTL + unat defaultSweepInterval < unat (ev_Timestamp ?f)"
    by (simp_all add: events_of_def)
  show ?thesis using pre(1) silence_forgets [OF pre] by blast
qed

end
