(* ===== verification/GoText.thy ===== *)
theory GoText
  imports Prelude
begin

text \<open>
  The text functions of Go's standard library that the alert descriptions go through: UTF-8 decoding
  (\<^verbatim>\<open>unicode/utf8\<close>) and the quoting of the \<open>%q\<close> verb (\<^verbatim>\<open>strconv.Quote\<close>).  Strings are
  byte lists.  Which code points above U+00FF are printable is a Unicode table; it is the argument
  \<open>isPrint\<close> of \<open>Quote\<close>, and no theorem depends on its contents.
\<close>

section \<open>UTF-8\<close>

definition runeError :: nat where "runeError = 0xFFFD"

definition cont_byte :: "nat \<Rightarrow> bool" where
  "cont_byte b \<longleftrightarrow> 0x80 \<le> b \<and> b \<le> 0xBF"

text \<open>The range of the second byte that a leading byte accepts, and the width of the encoding.\<close>

definition lead_byte :: "nat \<Rightarrow> (nat \<times> nat \<times> nat) option" where
  "lead_byte b =
     (if 0xC2 \<le> b \<and> b \<le> 0xDF then Some (2, 0x80, 0xBF)
      else if b = 0xE0 then Some (3, 0xA0, 0xBF)
      else if b = 0xED then Some (3, 0x80, 0x9F)
      else if 0xE1 \<le> b \<and> b \<le> 0xEF then Some (3, 0x80, 0xBF)
      else if b = 0xF0 then Some (4, 0x90, 0xBF)
      else if 0xF1 \<le> b \<and> b \<le> 0xF3 then Some (4, 0x80, 0xBF)
      else if b = 0xF4 then Some (4, 0x80, 0x8F)
      else None)"

text \<open>\<open>utf8.DecodeRuneInString\<close> on a non-empty string: the code point and its width in bytes.\<close>

definition decode_rune :: "nat list \<Rightarrow> nat \<times> nat" where
  "decode_rune bs =
     (let b0 = bs ! 0 in
      if b0 < 0x80 then (b0, 1)
      else case lead_byte b0 of
        None \<Rightarrow> (runeError, 1)
      | Some (w, lo, hi) \<Rightarrow>
          if length bs < w \<or> \<not> (lo \<le> bs ! 1 \<and> bs ! 1 \<le> hi) then (runeError, 1)
          else if w = 2 then ((b0 mod 32) * 64 + bs ! 1 mod 64, 2)
          else if \<not> cont_byte (bs ! 2) then (runeError, 1)
          else if w = 3 then (((b0 mod 16) * 64 + bs ! 1 mod 64) * 64 + bs ! 2 mod 64, 3)
          else if \<not> cont_byte (bs ! 3) then (runeError, 1)
          else ((((b0 mod 8) * 64 + bs ! 1 mod 64) * 64 + bs ! 2 mod 64) * 64 + bs ! 3 mod 64, 4))"

section \<open>Quoting\<close>

fun zero_hex :: "nat \<Rightarrow> nat \<Rightarrow> string" where
  "zero_hex 0 n = []"
| "zero_hex (Suc k) n = zero_hex k (n div 16) @ [digit_char (n mod 16)]"

definition IsPrint :: "(nat \<Rightarrow> bool) \<Rightarrow> nat \<Rightarrow> bool" where
  "IsPrint isPrint r \<longleftrightarrow>
     (if r \<le> 0xFF then (0x20 \<le> r \<and> r < 0x7F) \<or> (0xA1 \<le> r \<and> r \<noteq> 0xAD) else isPrint r)"

definition escape_rune :: "(nat \<Rightarrow> bool) \<Rightarrow> nat \<Rightarrow> string \<Rightarrow> string" where
  "escape_rune isPrint r raw =
     (if r = 0x22 \<or> r = 0x5C then CHR 0x5C # raw
      else if IsPrint isPrint r then raw
      else if r = 7 then [CHR 0x5C, CHR ''a'']
      else if r = 8 then [CHR 0x5C, CHR ''b'']
      else if r = 12 then [CHR 0x5C, CHR ''f'']
      else if r = 10 then [CHR 0x5C, CHR ''n'']
      else if r = 13 then [CHR 0x5C, CHR ''r'']
      else if r = 9 then [CHR 0x5C, CHR ''t'']
      else if r = 11 then [CHR 0x5C, CHR ''v'']
      else if r < 0x20 \<or> r = 0x7F then [CHR 0x5C, CHR ''x''] @ zero_hex 2 r
      else if r < 0x10000 then [CHR 0x5C, CHR ''u''] @ zero_hex 4 r
      else [CHR 0x5C, CHR ''U''] @ zero_hex 8 r)"

lemma lead_byte_width: "lead_byte b = Some (w, lo, hi) \<Longrightarrow> 2 \<le> w \<and> w \<le> 4"
  by (auto simp: lead_byte_def split: if_splits)

lemma decode_rune_width:
  "bs \<noteq> [] \<Longrightarrow> 0 < snd (decode_rune bs) \<and> snd (decode_rune bs) \<le> length bs"
  using lead_byte_width [of "bs ! 0"]
  by (auto simp: decode_rune_def Let_def Suc_le_eq split: option.splits)

function quote_body :: "(nat \<Rightarrow> bool) \<Rightarrow> string \<Rightarrow> string" where
  "quote_body isPrint s =
     (if s = [] then []
      else let (r, width) = decode_rune (map of_char s) in
           if width = 1 \<and> r = runeError
           then [CHR 0x5C, CHR ''x''] @ zero_hex 2 (of_char (hd s)) @ quote_body isPrint (tl s)
           else escape_rune isPrint r (take width s) @ quote_body isPrint (drop width s))"
  by pat_completeness auto
termination
proof (relation "measure (length \<circ> snd)")
  fix isPrint s and x :: "nat \<times> nat" and r width
  assume "s \<noteq> []" and "x = decode_rune (map of_char s)" and "(r, width) = x"
  then have "0 < width" using decode_rune_width [of "map of_char s"] by (metis map_is_Nil_conv snd_conv)
  with \<open>s \<noteq> []\<close> show "((isPrint, drop width s), isPrint, s) \<in> measure (length \<circ> snd)" by simp
qed auto

declare quote_body.simps [simp del]

definition Quote :: "(nat \<Rightarrow> bool) \<Rightarrow> string \<Rightarrow> string" where
  "Quote isPrint s = CHR 0x22 # quote_body isPrint s @ [CHR 0x22]"

text \<open>The non-ASCII punctuation of the descriptions, as the UTF-8 bytes of the source literals.\<close>

definition em_dash :: string where "em_dash = [CHR 0xE2, CHR 0x80, CHR 0x94]"

definition rarrow :: string where "rarrow = [CHR 0xE2, CHR 0x86, CHR 0x92]"

section \<open>Plain text is quoted as it is\<close>

definition plain_char :: "char \<Rightarrow> bool" where
  "plain_char c \<longleftrightarrow> 0x20 \<le> (of_char c :: nat) \<and> (of_char c :: nat) < 0x7F \<and>
     of_char c \<noteq> (0x22 :: nat) \<and> of_char c \<noteq> (0x5C :: nat)"

lemma quote_body_plain: "list_all plain_char s \<Longrightarrow> quote_body isPrint s = s"
proof (induction s)
  case Nil
  then show ?case by (simp add: quote_body.simps)
next
  case (Cons c s)
  then show ?case
    by (simp add: quote_body.simps [of isPrint "c # s"] decode_rune_def plain_char_def
        runeError_def escape_rune_def IsPrint_def)
qed

end
