(* ===== verification/Alerts.thy ===== *)
theory Alerts
  imports Events GoText
begin

text \<open>
  \<^verbatim>\<open>detect/alert.go\<close>: severities, ATT&CK techniques and the alert record, with the \<open>StoryStep\<close> type
  and the tactics of \<^verbatim>\<open>detect/storyline.go\<close> that alerts refer to.

  An alert does not copy the argument map of its event: \<open>newAlert\<close> stores the map itself, and rules
  that run later on the same event keep writing to it.  The field \<open>al_Args\<close> is therefore a reference:
  \<open>EventArgs\<close> is the map of the event under evaluation, \<open>OwnArgs m\<close> a map of the alert's own.
  Whoever reads the arguments passes the current contents of the event's map (\<open>argsOf\<close>).
\<close>

section \<open>Severity\<close>

datatype Severity = SeverityLow | SeverityMedium | SeverityHigh | SeverityCritical

primrec severity_rank :: "Severity \<Rightarrow> nat" where
  "severity_rank SeverityLow = 0"
| "severity_rank SeverityMedium = 1"
| "severity_rank SeverityHigh = 2"
| "severity_rank SeverityCritical = 3"

lemma severity_rank_inject: "severity_rank s = severity_rank t \<longleftrightarrow> s = t"
  by (cases s; cases t) simp_all

instantiation Severity :: linorder
begin

definition less_eq_Severity :: "Severity \<Rightarrow> Severity \<Rightarrow> bool" where
  "less_eq_Severity s t \<longleftrightarrow> severity_rank s \<le> severity_rank t"

definition less_Severity :: "Severity \<Rightarrow> Severity \<Rightarrow> bool" where
  "less_Severity s t \<longleftrightarrow> severity_rank s < severity_rank t"

instance
  by standard (auto simp: less_eq_Severity_def less_Severity_def severity_rank_inject)

end

definition severityNames :: "(Severity, string) gomap" where
  "severityNames =
     [(SeverityLow, ''LOW''), (SeverityMedium, ''MEDIUM''), (SeverityHigh, ''HIGH''),
      (SeverityCritical, ''CRITICAL'')]"

definition Severity_String :: "Severity \<Rightarrow> string" where
  "Severity_String s = (case map_of severityNames s of Some name \<Rightarrow> name | None \<Rightarrow> ''UNKNOWN'')"

fun ParseSeverity_in :: "(Severity, string) gomap \<Rightarrow> string \<Rightarrow> Severity option" where
  "ParseSeverity_in [] s = None"
| "ParseSeverity_in ((sev, name) # rest) s = (if name = s then Some sev else ParseSeverity_in rest s)"

section \<open>Techniques and tactics\<close>

record Technique =
  tech_ID :: string
  tech_Name :: string

definition technique :: "string \<Rightarrow> string \<Rightarrow> Technique" where
  "technique i n = \<lparr>tech_ID = i, tech_Name = n\<rparr>"

definition TechAbuseElevation :: Technique where
  "TechAbuseElevation = technique ''T1548'' ''Abuse Elevation Control Mechanism''"

definition TechSetuidSetgid :: Technique where
  "TechSetuidSetgid = technique ''T1548.001'' ''Abuse Elevation Control Mechanism: Setuid and Setgid''"

definition TechExploitPrivEsc :: Technique where
  "TechExploitPrivEsc = technique ''T1068'' ''Exploitation for Privilege Escalation''"

definition TechCredentialDump :: Technique where
  "TechCredentialDump = technique ''T1003'' ''OS Credential Dumping''"

definition TechEtcShadow :: Technique where
  "TechEtcShadow = technique ''T1003.008'' ''OS Credential Dumping: /etc/passwd and /etc/shadow''"

definition TechProcFilesystem :: Technique where
  "TechProcFilesystem = technique ''T1003.007'' ''OS Credential Dumping: Proc Filesystem''"

definition TechUnsecuredCreds :: Technique where
  "TechUnsecuredCreds = technique ''T1552'' ''Unsecured Credentials''"

definition TechCredsInFiles :: Technique where
  "TechCredsInFiles = technique ''T1552.001'' ''Unsecured Credentials: Credentials In Files''"

definition TechPrivateKeys :: Technique where
  "TechPrivateKeys = technique ''T1552.004'' ''Unsecured Credentials: Private Keys''"

definition TechProcessInjection :: Technique where
  "TechProcessInjection = technique ''T1055'' ''Process Injection''"

definition TechPtraceInjection :: Technique where
  "TechPtraceInjection = technique ''T1055.008'' ''Process Injection: Ptrace System Calls''"

definition TechCommandInterpreter :: Technique where
  "TechCommandInterpreter = technique ''T1059'' ''Command and Scripting Interpreter''"

definition TechAppLayerProtocol :: Technique where
  "TechAppLayerProtocol = technique ''T1071'' ''Application Layer Protocol''"

record Tactic =
  tac_ID :: string
  tac_Name :: string

definition TacticExecution :: Tactic where
  "TacticExecution = \<lparr>tac_ID = ''TA0002'', tac_Name = ''Execution''\<rparr>"

definition TacticPrivEsc :: Tactic where
  "TacticPrivEsc = \<lparr>tac_ID = ''TA0004'', tac_Name = ''Privilege Escalation''\<rparr>"

definition TacticDefenseEvasion :: Tactic where
  "TacticDefenseEvasion = \<lparr>tac_ID = ''TA0005'', tac_Name = ''Defense Evasion''\<rparr>"

definition TacticCredentialAccess :: Tactic where
  "TacticCredentialAccess = \<lparr>tac_ID = ''TA0006'', tac_Name = ''Credential Access''\<rparr>"

definition TacticCommandControl :: Tactic where
  "TacticCommandControl = \<lparr>tac_ID = ''TA0011'', tac_Name = ''Command and Control''\<rparr>"

section \<open>Alerts\<close>

record StoryStep =
  st_OffsetMS :: i64
  st_PID :: u32
  st_Comm :: string
  st_Rule :: string
  st_MitreID :: string
  st_Tactic :: string
  st_Summary :: string
  st_pivotal :: bool

datatype args_ref = EventArgs | OwnArgs args

record Alert =
  al_Timestamp :: int
  al_PID :: u32
  al_TID :: u32
  al_PPID :: u32
  al_Comm :: string
  al_UID :: u32
  al_GID :: u32
  al_Syscall :: string
  al_Args :: args_ref
  al_MitreID :: string
  al_MitreTechnique :: string
  al_Severity :: Severity
  al_Description :: string
  al_Rule :: string
  al_Storyline :: string
  al_Suppressed :: u64
  al_Story :: "StoryStep list"

definition newAlert :: "Event \<Rightarrow> string \<Rightarrow> Technique \<Rightarrow> Severity \<Rightarrow> string \<Rightarrow> Alert" where
  "newAlert ev rule tech sev desc =
     \<lparr>al_Timestamp = ev_Wall ev, al_PID = ev_PID ev, al_TID = ev_TID ev, al_PPID = ev_PPID ev,
      al_Comm = ev_Comm ev, al_UID = ev_UID ev, al_GID = ev_GID ev, al_Syscall = ev_Syscall ev,
      al_Args = EventArgs, al_MitreID = tech_ID tech, al_MitreTechnique = tech_Name tech,
      al_Severity = sev, al_Description = desc, al_Rule = rule, al_Storyline = [],
      al_Suppressed = 0, al_Story = []\<rparr>"

definition argsOf :: "args \<Rightarrow> Alert \<Rightarrow> args" where
  "argsOf evArgs a = (case al_Args a of EventArgs \<Rightarrow> evArgs | OwnArgs m \<Rightarrow> m)"

lemma newAlert_fields [simp]:
  "al_PID (newAlert ev rule tech sev desc) = ev_PID ev"
  "al_TID (newAlert ev rule tech sev desc) = ev_TID ev"
  "al_PPID (newAlert ev rule tech sev desc) = ev_PPID ev"
  "al_Comm (newAlert ev rule tech sev desc) = ev_Comm ev"
  "al_UID (newAlert ev rule tech sev desc) = ev_UID ev"
  "al_GID (newAlert ev rule tech sev desc) = ev_GID ev"
  "al_Syscall (newAlert ev rule tech sev desc) = ev_Syscall ev"
  "al_Timestamp (newAlert ev rule tech sev desc) = ev_Wall ev"
  "al_Args (newAlert ev rule tech sev desc) = EventArgs"
  "al_MitreID (newAlert ev rule tech sev desc) = tech_ID tech"
  "al_MitreTechnique (newAlert ev rule tech sev desc) = tech_Name tech"
  "al_Severity (newAlert ev rule tech sev desc) = sev"
  "al_Rule (newAlert ev rule tech sev desc) = rule"
  "al_Suppressed (newAlert ev rule tech sev desc) = 0"
  "al_Story (newAlert ev rule tech sev desc) = []"
  by (simp_all add: newAlert_def)

text \<open>Severity names parse back, whatever order the map is ranged over in.\<close>

lemma ParseSeverity_in_sound: "ParseSeverity_in tbl s = Some sev \<Longrightarrow> (sev, s) \<in> set tbl"
  by (induction tbl s rule: ParseSeverity_in.induct) (auto split: if_splits)

lemma ParseSeverity_in_complete: "(sev, s) \<in> set tbl \<Longrightarrow> ParseSeverity_in tbl s \<noteq> None"
  by (induction tbl s rule: ParseSeverity_in.induct) auto

lemma ParseSeverity_inverse:
  assumes "set order = set severityNames"
  shows "ParseSeverity_in order (Severity_String sev) = Some sev"
proof -
  have "(sev, Severity_String sev) \<in> set severityNames"
    by (cases sev) (simp_all add: severityNames_def Severity_String_def)
  then obtain s where s: "ParseSeverity_in order (Severity_String sev) = Some s"
    using ParseSeverity_in_complete assms by blast
  then have "(s, Severity_String sev) \<in> set severityNames"
    using ParseSeverity_in_sound assms by blast
  then have "s = sev"
    by (cases sev) (auto simp: severityNames_def Severity_String_def)
  with s show ?thesis by simp
qed

end
