(* ===== verification/Rules.thy ===== *)
theory Rules
  imports Alerts Tracker
begin

text \<open>
  The part of \<^verbatim>\<open>detect/engine.go\<close> that the rules depend on (\<open>Config\<close>, \<open>Context\<close>, \<open>Rule\<close>, the
  rule names), the storyline settings of \<^verbatim>\<open>detect/storyline.go\<close>, and \<open>procLabel\<close> of
  \<^verbatim>\<open>detect/privesc.go\<close>.

  \<open>Config.Stat\<close> is the file system: a path either fails or has a mode.  \<open>Lookup\<close> is the injected
  \<open>/proc\<close> reader, \<open>None\<close> when it is nil.  \<open>cfg_IsPrint\<close> is the Unicode table behind \<open>%q\<close>
  (see \<^verbatim>\<open>GoText.thy\<close>); it has no counterpart in the Go struct.

  A rule returns the argument map of the event as it left it, with the alert or \<open>None\<close>.  The locale
  \<open>detection_rule\<close> is the contract every rule of the registry satisfies; the theories of the four
  rules interpret it, and the engine relies on nothing else about them.
\<close>

type_synonym FileMode = u32

record StorylineConfig =
  sc_Enabled :: bool
  sc_Threshold :: int
  sc_Window :: Duration
  sc_Lookup :: "(u32 \<Rightarrow> (u32 \<times> string) option) option"

record Config =
  cfg_RevShellWindow :: Duration
  cfg_DebuggerComms :: "string list"
  cfg_IgnoreLoopback :: bool
  cfg_IgnoreSelfProc :: bool
  cfg_Stat :: "string \<Rightarrow> FileMode option"
  cfg_DedupWindow :: Duration
  cfg_Storyline :: StorylineConfig
  cfg_SelfPID :: u32
  cfg_IsPrint :: "nat \<Rightarrow> bool"

record Context =
  cx_Event :: Event
  cx_History :: "ProcessHistory option"
  cx_Config :: Config

type_synonym rule_eval = "Context \<Rightarrow> args \<times> Alert option"

record Rule =
  rule_Name :: string
  rule_Description :: string
  rule_Techniques :: "Technique list"
  rule_Eval :: rule_eval

definition RuleNamePrivilegeEscalation :: string where
  "RuleNamePrivilegeEscalation = ''privilege-escalation''"

definition RuleNameSensitiveFile :: string where
  "RuleNameSensitiveFile = ''sensitive-file-access''"

definition RuleNameProcessInjection :: string where
  "RuleNameProcessInjection = ''process-injection''"

definition RuleNameReverseShell :: string where
  "RuleNameReverseShell = ''reverse-shell''"

definition RuleNameAttackChain :: string where
  "RuleNameAttackChain = ''attack-chain''"

definition DefaultStorylineConfig :: StorylineConfig where
  "DefaultStorylineConfig =
     \<lparr>sc_Enabled = True, sc_Threshold = 3, sc_Window = 600000000000, sc_Lookup = None\<rparr>"

text \<open>\<open>os.Stat\<close>, \<open>os.Getpid()\<close> and the Unicode table are the arguments of the default configuration.\<close>

definition DefaultConfig ::
  "(string \<Rightarrow> FileMode option) \<Rightarrow> u32 \<Rightarrow> (nat \<Rightarrow> bool) \<Rightarrow> Config" where
  "DefaultConfig osStat getpid isPrint =
     \<lparr>cfg_RevShellWindow = 2000000000,
      cfg_DebuggerComms = [''gdb'', ''gdbserver'', ''strace'', ''ltrace'', ''lldb'', ''lldb-server''],
      cfg_IgnoreLoopback = False, cfg_IgnoreSelfProc = False, cfg_Stat = osStat,
      cfg_DedupWindow = 5000000000, cfg_Storyline = DefaultStorylineConfig,
      cfg_SelfPID = getpid, cfg_IsPrint = isPrint\<rparr>"

definition procLabel :: "(nat \<Rightarrow> bool) \<Rightarrow> Event \<Rightarrow> string" where
  "procLabel isPrint ev =
     Quote isPrint (ev_Comm ev) @ '' (PID '' @ FormatUint (ev_PID ev) @ '', UID '' @
     FormatUint (ev_UID ev) @ '')''"

section \<open>The contract of a rule\<close>

locale detection_rule =
  fixes name :: string
    and techs :: "Technique list"
    and marks :: "string list"
    and evl :: rule_eval
  assumes alert_shape: "evl c = (m, Some a) \<Longrightarrow>
      \<exists>t \<in> set techs. \<exists>sev desc. a = newAlert (cx_Event c) name t sev desc"
    and quiet: "evl c = (m, None) \<Longrightarrow> m = ev_Args (cx_Event c)"
    and annotates: "k \<notin> set marks \<Longrightarrow> map_of (fst (evl c)) k = map_of (ev_Args (cx_Event c)) k"
    and keeps_distinct:
      "distinct_keys (ev_Args (cx_Event c)) \<Longrightarrow> distinct_keys (fst (evl c))"
    and entry_only: "ev_IsExit (cx_Event c) \<Longrightarrow> snd (evl c) = None"
begin

lemma alert_identity:
  assumes "snd (evl c) = Some a"
  shows "al_PID a = ev_PID (cx_Event c) \<and> al_TID a = ev_TID (cx_Event c) \<and>
    al_PPID a = ev_PPID (cx_Event c) \<and> al_Comm a = ev_Comm (cx_Event c) \<and>
    al_UID a = ev_UID (cx_Event c) \<and> al_GID a = ev_GID (cx_Event c) \<and>
    al_Syscall a = ev_Syscall (cx_Event c) \<and> al_Timestamp a = ev_Wall (cx_Event c) \<and>
    al_Rule a = name \<and> al_Args a = EventArgs \<and> al_Suppressed a = 0 \<and> al_Story a = []"
proof -
  obtain m where "evl c = (m, Some a)" using assms by (metis prod.collapse)
  from alert_shape [OF this] show ?thesis by auto
qed

lemma alert_technique:
  assumes "snd (evl c) = Some a"
  shows "\<exists>t \<in> set techs. al_MitreID a = tech_ID t \<and> al_MitreTechnique a = tech_Name t"
proof -
  obtain m where "evl c = (m, Some a)" using assms by (metis prod.collapse)
  from alert_shape [OF this] show ?thesis by fastforce
qed

end

end
