(* ===== verification/PtraceRule.thy ===== *)
theory PtraceRule
  imports Rules
begin

text \<open>
  \<^verbatim>\<open>detect/ptrace.go\<close>: the process-injection rule.  It fires on the ptrace requests that take control
  of, or write into, another process, unless the caller is on the debugger allowlist.
\<close>

definition injectionRequests :: "(i64, string) gomap" where
  "injectionRequests =
    [(PtraceAttach, ''attaching to another process''),
     (PtraceSeize, ''seizing another process''),
     (PtracePoketext, ''writing to another process'' @ [CHR 0x27] @ ''s text segment''),
     (PtracePokedata, ''writing to another process'' @ [CHR 0x27] @ ''s data segment''),
     (PtracePokeuser, ''writing to another process'' @ [CHR 0x27] @ ''s user area''),
     (PtraceSetregs, ''overwriting another process'' @ [CHR 0x27] @ ''s registers''),
     (PtraceSetregset, ''overwriting another process'' @ [CHR 0x27] @ ''s registers''),
     (PtraceSetfpregs, ''overwriting another process'' @ [CHR 0x27] @ ''s FP registers'')]"

fun isKnownDebugger :: "string \<Rightarrow> string list \<Rightarrow> bool" where
  "isKnownDebugger comm [] = False"
| "isKnownDebugger comm (name # rest) = (if comm = name then True else isKnownDebugger comm rest)"

definition evalPtraceInjection :: rule_eval where
  "evalPtraceInjection c =
    (let ev = cx_Event c; isPrint = cfg_IsPrint (cx_Config c) in
     if ev_IsExit ev \<or> ev_SyscallID ev \<noteq> SysPtrace then (ev_Args ev, None)
     else case map_of injectionRequests (ev_Arg0 ev) of
       None \<Rightarrow> (ev_Args ev, None)
     | Some action \<Rightarrow>
         if ev_Arg1 ev = ucast (ev_PID ev) then (ev_Args ev, None)
         else if isKnownDebugger (ev_Comm ev) (cfg_DebuggerComms (cx_Config c)) then (ev_Args ev, None)
         else
           (mapset ''action'' action (ev_Args ev),
            Some (newAlert ev RuleNameProcessInjection TechPtraceInjection SeverityHigh
              (''Process '' @ procLabel isPrint ev @ '' called ptrace('' @
               PtraceRequestName (ev_Arg0 ev) @ '') against PID '' @ FormatInt (ev_Arg1 ev) @ '' '' @
               em_dash @ '' '' @ action @ '', possible process injection''))))"

definition rulePtraceInjection :: Rule where
  "rulePtraceInjection =
     \<lparr>rule_Name = RuleNameProcessInjection,
      rule_Description = ''ptrace used to attach to or write into another process'',
      rule_Techniques = [TechProcessInjection, TechPtraceInjection],
      rule_Eval = evalPtraceInjection\<rparr>"

lemma isKnownDebugger_iff: "isKnownDebugger comm names \<longleftrightarrow> comm \<in> set names"
  by (induction comm names rule: isKnownDebugger.induct) auto

interpretation pt: detection_rule RuleNameProcessInjection "[TechProcessInjection, TechPtraceInjection]"
  "[''action'']" evalPtraceInjection
  by unfold_locales
    (auto simp: evalPtraceInjection_def Let_def split: if_splits option.splits)

definition injecting :: "i64 \<Rightarrow> bool" where
  "injecting req \<longleftrightarrow> req \<in> {PtraceAttach, PtraceSeize, PtracePoketext, PtracePokedata, PtracePokeuser,
     PtraceSetregs, PtraceSetregset, PtraceSetfpregs}"

lemma injectionRequests_dom: "map_of injectionRequests req \<noteq> None \<longleftrightarrow> injecting req"
  by (simp add: injectionRequests_def injecting_def)

text \<open>C17. The process-injection rule fires exactly on entry to a ptrace call with one of the eight
  controlling or writing requests, aimed at a process other than the caller, from a process whose
  name is not literally on the allowlist; every such alert is HIGH and tagged T1055.008.\<close>

theorem ptrace_rule_iff:
  "(let ev = cx_Event c;
        fires = (\<not> ev_IsExit ev \<and> ev_SyscallID ev = SysPtrace \<and> injecting (ev_Arg0 ev) \<and>
          ev_Arg1 ev \<noteq> ucast (ev_PID ev) \<and> ev_Comm ev \<notin> set (cfg_DebuggerComms (cx_Config c)))
    in case snd (evalPtraceInjection c) of
         None \<Rightarrow> \<not> fires
       | Some a \<Rightarrow> fires \<and> al_Severity a = SeverityHigh \<and> al_MitreID a = ''T1055.008'')"
  using injectionRequests_dom [of "ev_Arg0 (cx_Event c)"]
  by (auto simp: evalPtraceInjection_def Let_def isKnownDebugger_iff TechPtraceInjection_def
      technique_def split: option.splits)

end
