(* ===== verification/PrivEsc.thy ===== *)
theory PrivEsc
  imports Rules
begin

text \<open>
  \<^verbatim>\<open>detect/privesc.go\<close>: the privilege-escalation rule.  File modes are Go's \<open>fs.FileMode\<close> words,
  rendered by \<open>formatMode\<close> the way \<open>FileMode.String\<close> does.
\<close>

definition uidUnchanged :: i64 where [simp]: "uidUnchanged = -1"

definition ModeSetuid :: FileMode where [simp]: "ModeSetuid = 0x800000"

definition ModeSetgid :: FileMode where [simp]: "ModeSetgid = 0x400000"

text \<open>\<open>fs.FileMode.String\<close>: the type letters that are set (or a dash), then the permission letters.\<close>

fun mode_letters :: "FileMode \<Rightarrow> nat \<Rightarrow> string \<Rightarrow> string" where
  "mode_letters m k [] = []"
| "mode_letters m k (c # cs) = (if bit m k then [c] else []) @ mode_letters m (k - 1) cs"

fun perm_letters :: "FileMode \<Rightarrow> nat \<Rightarrow> string \<Rightarrow> string" where
  "perm_letters m k [] = []"
| "perm_letters m k (c # cs) = (if bit m k then c else CHR ''-'') # perm_letters m (k - 1) cs"

definition FileMode_String :: "FileMode \<Rightarrow> string" where
  "FileMode_String m =
     (let ls = mode_letters m 31 ''dalTLDpSugct?''
      in (if ls = [] then ''-'' else ls) @ perm_letters m 8 ''rwxrwxrwx'')"

definition formatMode :: "FileMode \<Rightarrow> string" where
  "formatMode m = FileMode_String m @ '' (0'' @ nat_digits 8 (unat (m AND 0x1ff)) @ '')''"

definition evalSetuid :: "(nat \<Rightarrow> bool) \<Rightarrow> Event \<Rightarrow> Alert option" where
  "evalSetuid isPrint ev =
     (if ev_Arg0 ev \<noteq> 0 then None
      else Some (newAlert ev RuleNamePrivilegeEscalation TechAbuseElevation SeverityHigh
        (''Process '' @ procLabel isPrint ev @ '' called setuid(0) '' @ em_dash @
         '' possible privilege escalation attempt'')))"

fun requested_root :: "(string \<times> i64) list \<Rightarrow> string list" where
  "requested_root [] = []"
| "requested_root ((name, value) # rest) =
     (if value = uidUnchanged then requested_root rest
      else if value = 0 then name # requested_root rest
      else requested_root rest)"

definition evalSetresuid :: "(nat \<Rightarrow> bool) \<Rightarrow> Event \<Rightarrow> Alert option" where
  "evalSetresuid isPrint ev =
     (let requested = requested_root [(''ruid'', ev_Arg0 ev), (''euid'', ev_Arg1 ev), (''suid'', ev_Arg2 ev)]
      in if requested = [] then None
         else Some (newAlert ev RuleNamePrivilegeEscalation TechAbuseElevation SeverityHigh
           (''Process '' @ procLabel isPrint ev @ '' called setresuid() requesting root for '' @
            join '', '' requested @ '' '' @ em_dash @ '' possible privilege escalation attempt'')))"

definition evalSetgid :: "(nat \<Rightarrow> bool) \<Rightarrow> Event \<Rightarrow> Alert option" where
  "evalSetgid isPrint ev =
     (if ev_Arg0 ev \<noteq> 0 then None
      else Some (newAlert ev RuleNamePrivilegeEscalation TechAbuseElevation SeverityHigh
        (''Process '' @ procLabel isPrint ev @ '' called setgid(0) '' @ em_dash @
         '' possible privilege escalation attempt'')))"

definition evalSetresgid :: "(nat \<Rightarrow> bool) \<Rightarrow> Event \<Rightarrow> Alert option" where
  "evalSetresgid isPrint ev =
     (let requested = requested_root [(''rgid'', ev_Arg0 ev), (''egid'', ev_Arg1 ev), (''sgid'', ev_Arg2 ev)]
      in if requested = [] then None
         else Some (newAlert ev RuleNamePrivilegeEscalation TechAbuseElevation SeverityHigh
           (''Process '' @ procLabel isPrint ev @ '' called setresgid() requesting group root for '' @
            join '', '' requested @ '' '' @ em_dash @ '' possible privilege escalation attempt'')))"

definition evalCapset :: "(nat \<Rightarrow> bool) \<Rightarrow> Event \<Rightarrow> Alert option" where
  "evalCapset isPrint ev =
     Some (newAlert ev RuleNamePrivilegeEscalation TechAbuseElevation SeverityHigh
       (''Process '' @ procLabel isPrint ev @ '' called capset() as a non-root user '' @ em_dash @
        '' possible capability manipulation''))"

definition mode_bits :: "FileMode \<Rightarrow> string list" where
  "mode_bits mode =
     (if mode AND ModeSetuid \<noteq> 0 then [''setuid''] else []) @
     (if mode AND ModeSetgid \<noteq> 0 then [''setgid''] else [])"

definition evalSuidExec :: rule_eval where
  "evalSuidExec c =
    (let ev = cx_Event c; path = ev_Path ev; isPrint = cfg_IsPrint (cx_Config c) in
     if path = [] \<or> \<not> prefix ''/'' path then (ev_Args ev, None)
     else case cfg_Stat (cx_Config c) path of
       None \<Rightarrow> (ev_Args ev, None)
     | Some mode \<Rightarrow>
         (let bits = mode_bits mode in
          if bits = [] then (ev_Args ev, None)
          else
            (mapset ''suid_bits'' (join '','' bits) (mapset ''file_mode'' (formatMode mode) (ev_Args ev)),
             Some (newAlert ev RuleNamePrivilegeEscalation TechSetuidSetgid SeverityHigh
               (''Process '' @ procLabel isPrint ev @ '' executed '' @ join ''/'' bits @ '' binary '' @
                Quote isPrint path @ '' '' @ em_dash @
                '' possible privilege escalation via elevated executable'')))))"

definition evalPrivilegeEscalation :: rule_eval where
  "evalPrivilegeEscalation c =
    (let ev = cx_Event c; isPrint = cfg_IsPrint (cx_Config c) in
     if ev_IsExit ev then (ev_Args ev, None)
     else if ev_UID ev = 0 then (ev_Args ev, None)
     else if ev_SyscallID ev = SysSetuid then (ev_Args ev, evalSetuid isPrint ev)
     else if ev_SyscallID ev = SysSetresuid then (ev_Args ev, evalSetresuid isPrint ev)
     else if ev_SyscallID ev = SysSetgid then (ev_Args ev, evalSetgid isPrint ev)
     else if ev_SyscallID ev = SysSetresgid then (ev_Args ev, evalSetresgid isPrint ev)
     else if ev_SyscallID ev = SysCapset then (ev_Args ev, evalCapset isPrint ev)
     else if ev_SyscallID ev = SysExecve \<or> ev_SyscallID ev = SysExecveat then evalSuidExec c
     else (ev_Args ev, None))"

definition privesc_techniques :: "Technique list" where
  "privesc_techniques = [TechAbuseElevation, TechSetuidSetgid, TechExploitPrivEsc]"

definition rulePrivilegeEscalation :: Rule where
  "rulePrivilegeEscalation =
     \<lparr>rule_Name = RuleNamePrivilegeEscalation,
      rule_Description = ''Non-root process attempting to acquire root identity or capabilities'',
      rule_Techniques = privesc_techniques,
      rule_Eval = evalPrivilegeEscalation\<rparr>"

lemmas privesc_defs = evalSetuid_def evalSetresuid_def evalSetgid_def evalSetresgid_def
  evalCapset_def Let_def

text \<open>An alert of the credential calls carries the technique and severity of an elevation abuse.\<close>

definition elevation_alert :: "Event \<Rightarrow> Alert \<Rightarrow> bool" where
  "elevation_alert ev a \<longleftrightarrow>
     (\<exists>desc. a = newAlert ev RuleNamePrivilegeEscalation TechAbuseElevation SeverityHigh desc)"

lemma credential_alerts:
  "evalSetuid isPrint ev = Some a \<Longrightarrow> elevation_alert ev a"
  "evalSetresuid isPrint ev = Some a \<Longrightarrow> elevation_alert ev a"
  "evalSetgid isPrint ev = Some a \<Longrightarrow> elevation_alert ev a"
  "evalSetresgid isPrint ev = Some a \<Longrightarrow> elevation_alert ev a"
  "evalCapset isPrint ev = Some a \<Longrightarrow> elevation_alert ev a"
  unfolding elevation_alert_def privesc_defs by (auto split: if_splits)

lemma evalSuidExec_cases:
  obtains "evalSuidExec c = (ev_Args (cx_Event c), None)"
  | bits md desc where "evalSuidExec c =
      (mapset ''suid_bits'' bits (mapset ''file_mode'' md (ev_Args (cx_Event c))),
       Some (newAlert (cx_Event c) RuleNamePrivilegeEscalation TechSetuidSetgid SeverityHigh desc))"
proof (cases "snd (evalSuidExec c)")
  case None
  then have "evalSuidExec c = (ev_Args (cx_Event c), None)"
    by (auto simp: evalSuidExec_def Let_def split: if_splits option.splits)
  then show thesis by (rule that(1))
next
  case (Some a)
  then have "\<exists>bits md desc. evalSuidExec c =
      (mapset ''suid_bits'' bits (mapset ''file_mode'' md (ev_Args (cx_Event c))),
       Some (newAlert (cx_Event c) RuleNamePrivilegeEscalation TechSetuidSetgid SeverityHigh desc))"
    by (auto simp: evalSuidExec_def Let_def split: if_splits option.splits)
  then show thesis using that(2) by blast
qed

lemma privesc_cases:
  obtains "evalPrivilegeEscalation c = (ev_Args (cx_Event c), None)"
  | a where "evalPrivilegeEscalation c = (ev_Args (cx_Event c), Some a)" "elevation_alert (cx_Event c) a"
      "\<not> ev_IsExit (cx_Event c)"
  | "evalPrivilegeEscalation c = evalSuidExec c" "\<not> ev_IsExit (cx_Event c)"
proof -
  show thesis
    using that credential_alerts [of "cfg_IsPrint (cx_Config c)" "cx_Event c"]
    unfolding evalPrivilegeEscalation_def Let_def
    by (smt (verit, best) option.exhaust)
qed

lemma privesc_exit: "ev_IsExit (cx_Event c) \<Longrightarrow> snd (evalPrivilegeEscalation c) = None"
  by (simp add: evalPrivilegeEscalation_def)

lemma elevation_alert_shape:
  "elevation_alert ev a \<Longrightarrow>
   \<exists>t \<in> set privesc_techniques. \<exists>sev desc. a = newAlert ev RuleNamePrivilegeEscalation t sev desc"
  by (auto simp: elevation_alert_def privesc_techniques_def)

lemma privesc_shape:
  assumes "evalPrivilegeEscalation c = (m, Some a)"
  shows "\<exists>t \<in> set privesc_techniques. \<exists>sev desc.
    a = newAlert (cx_Event c) RuleNamePrivilegeEscalation t sev desc"
proof (cases rule: privesc_cases [of c])
  case 3
  show ?thesis
    by (cases rule: evalSuidExec_cases [of c]) (use 3 assms in \<open>auto simp: privesc_techniques_def\<close>)
qed (use assms elevation_alert_shape in auto)

lemma privesc_quiet:
  assumes "evalPrivilegeEscalation c = (m, None)"
  shows "m = ev_Args (cx_Event c)"
proof (cases rule: privesc_cases [of c])
  case 3
  show ?thesis by (cases rule: evalSuidExec_cases [of c]) (use 3 assms in auto)
qed (use assms in auto)

lemma privesc_annotates:
  assumes "k \<notin> set [''suid_bits'', ''file_mode'']"
  shows "map_of (fst (evalPrivilegeEscalation c)) k = map_of (ev_Args (cx_Event c)) k"
proof (cases rule: privesc_cases [of c])
  case 3
  show ?thesis by (cases rule: evalSuidExec_cases [of c]) (use 3 assms in auto)
qed (use assms in auto)

lemma privesc_distinct:
  assumes "distinct_keys (ev_Args (cx_Event c))"
  shows "distinct_keys (fst (evalPrivilegeEscalation c))"
proof (cases rule: privesc_cases [of c])
  case 3
  show ?thesis by (cases rule: evalSuidExec_cases [of c]) (use 3 assms in auto)
qed (use assms in auto)

interpretation pe: detection_rule RuleNamePrivilegeEscalation privesc_techniques
  "[''suid_bits'', ''file_mode'']" evalPrivilegeEscalation
  by unfold_locales
    (rule privesc_shape privesc_quiet privesc_annotates privesc_distinct privesc_exit, assumption)+

lemma requested_root_Nil: "requested_root ts = [] \<longleftrightarrow> (\<forall>(n, v) \<in> set ts. v \<noteq> 0)"
  by (induction ts rule: requested_root.induct) auto

lemma mode_bits_Nil: "mode_bits mode = [] \<longleftrightarrow> mode AND ModeSetuid = 0 \<and> mode AND ModeSetgid = 0"
  by (simp add: mode_bits_def)

text \<open>What counts as an attempt to become root.\<close>

definition seeks_root :: "Config \<Rightarrow> Event \<Rightarrow> bool" where
  "seeks_root cfg ev \<longleftrightarrow>
     (ev_SyscallID ev \<in> {SysSetuid, SysSetgid} \<and> ev_Arg0 ev = 0) \<or>
     (ev_SyscallID ev \<in> {SysSetresuid, SysSetresgid} \<and> 0 \<in> {ev_Arg0 ev, ev_Arg1 ev, ev_Arg2 ev}) \<or>
     ev_SyscallID ev = SysCapset \<or>
     (IsExecution (ev_SyscallID ev) \<and> prefix ''/'' (ev_Path ev) \<and>
      (\<exists>mode. cfg_Stat cfg (ev_Path ev) = Some mode \<and>
         (mode AND ModeSetuid \<noteq> 0 \<or> mode AND ModeSetgid \<noteq> 0)))"

lemma setuid_fires: "evalSetuid isPrint ev = None \<longleftrightarrow> ev_Arg0 ev \<noteq> 0"
  by (simp add: evalSetuid_def)

lemma setgid_fires: "evalSetgid isPrint ev = None \<longleftrightarrow> ev_Arg0 ev \<noteq> 0"
  by (simp add: evalSetgid_def)

lemma setresuid_fires: "evalSetresuid isPrint ev = None \<longleftrightarrow> 0 \<notin> {ev_Arg0 ev, ev_Arg1 ev, ev_Arg2 ev}"
  by (auto simp: evalSetresuid_def Let_def requested_root_Nil simp del: requested_root.simps)

lemma setresgid_fires: "evalSetresgid isPrint ev = None \<longleftrightarrow> 0 \<notin> {ev_Arg0 ev, ev_Arg1 ev, ev_Arg2 ev}"
  by (auto simp: evalSetresgid_def Let_def requested_root_Nil simp del: requested_root.simps)

lemma suid_fires:
  "snd (evalSuidExec c) = None \<longleftrightarrow>
   \<not> (prefix ''/'' (ev_Path (cx_Event c)) \<and>
      (\<exists>mode. cfg_Stat (cx_Config c) (ev_Path (cx_Event c)) = Some mode \<and>
         (mode AND ModeSetuid \<noteq> 0 \<or> mode AND ModeSetgid \<noteq> 0)))"
  by (cases "ev_Path (cx_Event c)"; cases "cfg_Stat (cx_Config c) (ev_Path (cx_Event c))")
    (simp_all add: evalSuidExec_def Let_def mode_bits_Nil)

lemmas credential_fires = setuid_fires setgid_fires setresuid_fires setresgid_fires

lemma privesc_silent_iff:
  "snd (evalPrivilegeEscalation c) = None \<longleftrightarrow>
   (ev_IsExit (cx_Event c) \<or> ev_UID (cx_Event c) = 0 \<or> \<not> seeks_root (cx_Config c) (cx_Event c))"
  (is "?silent \<longleftrightarrow> ?quiet")
proof -
  consider "ev_SyscallID (cx_Event c) = SysSetuid" | "ev_SyscallID (cx_Event c) = SysSetresuid"
    | "ev_SyscallID (cx_Event c) = SysSetgid" | "ev_SyscallID (cx_Event c) = SysSetresgid"
    | "ev_SyscallID (cx_Event c) = SysCapset" | "IsExecution (ev_SyscallID (cx_Event c))"
    | "ev_SyscallID (cx_Event c) \<notin> {SysSetuid, SysSetresuid, SysSetgid, SysSetresgid, SysCapset,
         SysExecve, SysExecveat}"
    by (auto simp: IsExecution_def)
  then show ?thesis
  proof cases
    case 6
    then show ?thesis
      by (auto simp: evalPrivilegeEscalation_def seeks_root_def IsExecution_def suid_fires Let_def)
  qed (simp_all add: evalPrivilegeEscalation_def seeks_root_def IsExecution_def credential_fires
      evalCapset_def Let_def)
qed

lemma privesc_technique:
  assumes "snd (evalPrivilegeEscalation c) = Some a"
  shows "al_Severity a = SeverityHigh \<and>
    al_MitreID a = (if IsExecution (ev_SyscallID (cx_Event c)) then ''T1548.001'' else ''T1548'')"
proof (cases "IsExecution (ev_SyscallID (cx_Event c))")
  case True
  then have "snd (evalSuidExec c) = Some a"
    using assms by (auto simp: evalPrivilegeEscalation_def IsExecution_def Let_def split: if_splits)
  with True show ?thesis
    by (cases rule: evalSuidExec_cases [of c]) (auto simp: TechSetuidSetgid_def technique_def)
next
  case False
  have "elevation_alert (cx_Event c) a"
    using assms False credential_alerts
    by (auto simp: evalPrivilegeEscalation_def IsExecution_def Let_def split: if_splits)
  with False show ?thesis
    by (auto simp: elevation_alert_def TechAbuseElevation_def technique_def)
qed

text \<open>C7. The privilege-escalation rule fires exactly when a caller that is not root enters a call that
  asks for user or group id 0 in any position, changes capabilities, or executes by absolute path a
  file whose metadata has a setuid or setgid bit.  Root callers, return probes, unresolvable and
  relative paths and the "unchanged" sentinel never alert.\<close>

theorem privesc_rule_iff:
  "(let ev = cx_Event c;
        fires = (\<not> ev_IsExit ev \<and> ev_UID ev \<noteq> 0 \<and> seeks_root (cx_Config c) ev)
    in case snd (evalPrivilegeEscalation c) of
         None \<Rightarrow> \<not> fires
       | Some a \<Rightarrow> fires \<and> al_Severity a = SeverityHigh \<and>
           al_MitreID a = (if IsExecution (ev_SyscallID ev) then ''T1548.001'' else ''T1548''))"
  using privesc_silent_iff [of c] privesc_technique [of c]
  by (cases "snd (evalPrivilegeEscalation c)") (simp_all add: Let_def)

end
