(* ===== verification/GoPath.thy ===== *)
theory GoPath
  imports Prelude
begin

text \<open>
  The part of Go's \<^verbatim>\<open>path\<close> and \<^verbatim>\<open>strings\<close> packages that \<^verbatim>\<open>detect/sensitivefile.go\<close> calls:
  \<open>path.Clean\<close>, \<open>path.Match\<close> on patterns of literal bytes and \<open>*\<close> (the only patterns of the watch
  list), \<open>strings.Contains\<close>.  \<open>Clean\<close> works on the slash-separated elements with a stack whose top is
  the last element kept.
\<close>

fun clean_step :: "bool \<Rightarrow> string list \<Rightarrow> string \<Rightarrow> string list" where
  "clean_step rooted stack e =
     (if e = [] \<or> e = ''.'' then stack
      else if e = ''..'' then
        (case stack of
           [] \<Rightarrow> if rooted then [] else [''..'']
         | e' # below \<Rightarrow> if e' = ''..'' then ''..'' # stack else below)
      else e # stack)"

definition Clean :: "string \<Rightarrow> string" where
  "Clean p =
     (if p = [] then ''.''
      else let rooted = (hd p = CHR ''/'');
               kept = rev (foldl (clean_step rooted) [] (split_on (CHR ''/'') p));
               out = join ''/'' kept
           in if rooted then CHR ''/'' # out
              else if kept = [] then ''.'' else out)"

fun Match :: "string \<Rightarrow> string \<Rightarrow> bool" where
  "Match [] s = (s = [])"
| "Match (c # pat) s =
     (if c = CHR ''*'' then
        Match pat s \<or> (case s of [] \<Rightarrow> False | x # xs \<Rightarrow> x \<noteq> CHR ''/'' \<and> Match (c # pat) xs)
      else (case s of [] \<Rightarrow> False | x # xs \<Rightarrow> x = c \<and> Match pat xs))"

fun Contains :: "string \<Rightarrow> string \<Rightarrow> bool" where
  "Contains [] frag = (frag = [])"
| "Contains (x # xs) frag = (prefix frag (x # xs) \<or> Contains xs frag)"

lemma Contains_iff: "Contains s frag \<longleftrightarrow> sublist frag s"
  by (induction s) (auto simp: sublist_Cons_right)

section \<open>Matching\<close>

lemma Match_literal: "CHR ''*'' \<notin> set lit \<Longrightarrow> Match (lit @ pat) s \<longleftrightarrow> (\<exists>t. s = lit @ t \<and> Match pat t)"
proof (induction lit arbitrary: s)
  case (Cons x xs)
  then show ?case by (cases s) auto
qed simp

lemma segment_Cons:
  "(\<exists>seg t. x # xs = seg @ t \<and> CHR ''/'' \<notin> set seg \<and> Q t) \<longleftrightarrow>
   Q (x # xs) \<or> (x \<noteq> CHR ''/'' \<and> (\<exists>seg t. xs = seg @ t \<and> CHR ''/'' \<notin> set seg \<and> Q t))"
  (is "?l \<longleftrightarrow> ?r")
proof
  assume ?l
  then obtain seg t where st: "x # xs = seg @ t" "CHR ''/'' \<notin> set seg" "Q t" by blast
  show ?r
  proof (cases seg)
    case Nil
    with st show ?thesis by simp
  next
    case (Cons y ys)
    with st have "xs = ys @ t" "CHR ''/'' \<notin> set ys" "x \<noteq> CHR ''/''" by auto
    with st(3) show ?thesis by blast
  qed
next
  assume ?r
  then show ?l
  proof
    assume "Q (x # xs)"
    then show ?l by (intro exI [of _ "[]"] exI [of _ "x # xs"]) simp
  next
    assume "x \<noteq> CHR ''/'' \<and> (\<exists>seg t. xs = seg @ t \<and> CHR ''/'' \<notin> set seg \<and> Q t)"
    then obtain seg t where "x \<noteq> CHR ''/''" "xs = seg @ t" "CHR ''/'' \<notin> set seg" "Q t" by blast
    then show ?l by (intro exI [of _ "x # seg"] exI [of _ t]) auto
  qed
qed

lemma Match_star:
  "Match (CHR ''*'' # pat) s \<longleftrightarrow> (\<exists>seg t. s = seg @ t \<and> CHR ''/'' \<notin> set seg \<and> Match pat t)"
proof (induction s)
  case (Cons x xs)
  then show ?case unfolding segment_Cons by simp
qed simp

lemma Match_segment:
  assumes "CHR ''*'' \<notin> set a" and "CHR ''*'' \<notin> set b"
  shows "Match (a @ CHR ''*'' # b) s \<longleftrightarrow> (\<exists>seg. s = a @ seg @ b \<and> CHR ''/'' \<notin> set seg)"
proof -
  have "Match b t \<longleftrightarrow> t = b" for t
    using Match_literal [OF assms(2), of "[]" t] by simp
  then show ?thesis
    unfolding Match_literal [OF assms(1)] Match_star by auto
qed

section \<open>Lexical cleaning\<close>

lemma split_on_nonempty [simp]: "split_on c xs \<noteq> []"
  by (induction xs) (auto split: list.splits)

lemma split_on_at: "split_on c (xs @ c # ys) = split_on c xs @ split_on c ys"
  by (induction xs) (auto split: list.splits simp: Cons_eq_append_conv append_eq_Cons_conv)

lemma split_on_elements: "e \<in> set (split_on c xs) \<Longrightarrow> c \<notin> set e"
  by (induction xs arbitrary: e) (auto split: list.splits if_splits)

definition real_element :: "string \<Rightarrow> bool" where
  "real_element e \<longleftrightarrow> e \<noteq> [] \<and> e \<noteq> ''.'' \<and> e \<noteq> ''..'' \<and> CHR ''/'' \<notin> set e"

lemma clean_skip: "clean_step rooted st [] = st" "clean_step rooted st ''.'' = st"
  by simp_all

lemma clean_back:
  assumes "real_element e"
  shows "clean_step rooted (clean_step rooted st e) ''..'' = st"
  using assms by (simp add: real_element_def)

declare clean_step.simps [simp del]

text \<open>Spellings of one path: extra slashes, \<open>.\<close> elements, and an element entered and left again.\<close>

inductive respelled :: "string \<Rightarrow> string \<Rightarrow> bool" where
  same: "respelled p p"
| slash: "respelled p (a @ ''/'' @ b) \<Longrightarrow> respelled p (a @ ''//'' @ b)"
| dot: "respelled p (a @ ''/'' @ b) \<Longrightarrow> respelled p (a @ ''/./'' @ b)"
| dotdot: "respelled p (a @ ''/'' @ b) \<Longrightarrow> real_element e \<Longrightarrow> respelled p (a @ ''/'' @ e @ ''/../'' @ b)"

lemma clean_insert:
  assumes "\<And>st rooted. foldl (clean_step rooted) st (split_on (CHR ''/'') mid) = st"
  shows "Clean (a @ ''/'' @ mid @ ''/'' @ b) = Clean (a @ ''/'' @ b)"
proof -
  have "split_on (CHR ''/'') (a @ ''/'' @ mid @ ''/'' @ b) =
      split_on (CHR ''/'') a @ split_on (CHR ''/'') mid @ split_on (CHR ''/'') b"
    by (simp add: split_on_at)
  moreover have "hd (a @ ''/'' @ mid @ ''/'' @ b) = hd (a @ ''/'' @ b)"
    by (cases a) simp_all
  ultimately show ?thesis
    by (simp add: Clean_def Let_def split_on_at assms)
qed

lemma Clean_respelled: "respelled p q \<Longrightarrow> Clean q = Clean p"
proof (induction rule: respelled.induct)
  case (slash p a b)
  then show ?case using clean_insert [of "[]" a b] by (simp add: clean_skip)
next
  case (dot p a b)
  then show ?case using clean_insert [of "''.''" a b] by (simp add: clean_skip)
next
  case (dotdot p a b e)
  have "split_on (CHR ''/'') (e @ ''/..'') = [e, ''..'']"
    using dotdot(2) by (simp add: real_element_def split_on_append)
  then show ?case
    using dotdot clean_insert [of "e @ ''/..''" a b] by (simp add: clean_back)
qed simp

lemma respelled_nonempty: "respelled p q \<Longrightarrow> q = [] \<longleftrightarrow> p = []"
  by (induction rule: respelled.induct) auto

text \<open>A rooted path comes out as a slash and real elements only.\<close>

lemma clean_step_real:
  assumes "\<forall>e \<in> set st. real_element e" and "CHR ''/'' \<notin> set e"
  shows "\<forall>e \<in> set (clean_step True st e). real_element e"
proof (cases "e = [] \<or> e = ''.'' \<or> e = ''..''")
  case True
  with assms(1) show ?thesis
    by (cases st) (auto simp: clean_step.simps real_element_def)
next
  case False
  then have "clean_step True st e = e # st" by (simp add: clean_step.simps)
  with False assms show ?thesis by (simp add: real_element_def)
qed

lemma clean_fold_real:
  "\<forall>e \<in> set st. real_element e \<Longrightarrow> \<forall>e \<in> set es. CHR ''/'' \<notin> set e \<Longrightarrow>
   \<forall>e \<in> set (foldl (clean_step True) st es). real_element e"
proof (induction es arbitrary: st)
  case (Cons e es)
  then show ?case using clean_step_real [of st e] by simp
qed simp

lemma Clean_rooted:
  "\<exists>es. Clean (CHR ''/'' # p) = CHR ''/'' # join ''/'' es \<and> list_all real_element es"
proof -
  let ?es = "rev (foldl (clean_step True) [] (split_on (CHR ''/'') (CHR ''/'' # p)))"
  have "list_all real_element ?es"
    using clean_fold_real [of "[]" "split_on (CHR ''/'') (CHR ''/'' # p)"] split_on_elements
    by (auto simp: list_all_iff)
  moreover have "Clean (CHR ''/'' # p) = CHR ''/'' # join ''/'' ?es"
    by (simp add: Clean_def Let_def)
  ultimately show ?thesis by blast
qed

text \<open>A rooted path of real elements is already clean.\<close>

lemma clean_fold_push:
  "list_all real_element es \<Longrightarrow> foldl (clean_step rooted) st es = rev es @ st"
proof (induction es arbitrary: st)
  case (Cons e es)
  then have "clean_step rooted st e = e # st" by (simp add: clean_step.simps real_element_def)
  with Cons show ?case by simp
qed simp

lemma Clean_canonical:
  assumes "list_all real_element es"
  shows "Clean (CHR ''/'' # join ''/'' es) = CHR ''/'' # join ''/'' es"
proof (cases "es = []")
  case True
  then show ?thesis by (simp add: Clean_def clean_skip)
next
  case False
  have "split_on (CHR ''/'') (join ''/'' es) = es"
    using False assms by (intro split_join) (auto simp: list_all_iff real_element_def)
  then have "foldl (clean_step True) [] (split_on (CHR ''/'') (CHR ''/'' # join ''/'' es)) = rev es"
    using clean_fold_push [OF assms, of True "[]"] by (simp add: clean_skip)
  then show ?thesis by (simp add: Clean_def Let_def)
qed

end
