(* ===== verification/SensitiveFile.thy ===== *)
theory SensitiveFile
  imports Rules GoPath
begin

text \<open>
  \<^verbatim>\<open>detect/sensitivefile.go\<close>: the watch list and the sensitive-file rule.  The watch list keeps the
  source's matcher functions; the rule tries its entries in order on the cleaned path and stops at
  the first that matches.
\<close>

record sensitivePath =
  sp_label :: string
  sp_match :: "string \<Rightarrow> bool"
  sp_severity :: Severity
  sp_technique :: Technique
  sp_reason :: string

fun exactAny :: "string list \<Rightarrow> string \<Rightarrow> bool" where
  "exactAny [] p = False"
| "exactAny (want # rest) p = (if p = want then True else exactAny rest p)"

definition prefixMatch :: "string \<Rightarrow> string \<Rightarrow> bool" where
  "prefixMatch pre p \<longleftrightarrow> prefix pre p \<and> length p > length pre"

fun containsAny :: "string list \<Rightarrow> string \<Rightarrow> bool" where
  "containsAny [] p = False"
| "containsAny (frag # rest) p = (if Contains p frag then True else containsAny rest p)"

definition globPath :: "string \<Rightarrow> string \<Rightarrow> bool" where
  "globPath pattern p = Match pattern p"

definition watch ::
  "string \<Rightarrow> (string \<Rightarrow> bool) \<Rightarrow> Severity \<Rightarrow> Technique \<Rightarrow> string \<Rightarrow> sensitivePath" where
  "watch label m sev tech reason =
     \<lparr>sp_label = label, sp_match = m, sp_severity = sev, sp_technique = tech, sp_reason = reason\<rparr>"

definition sensitivePaths :: "sensitivePath list" where
  "sensitivePaths =
    [watch ''/etc/shadow''
       (exactAny [''/etc/shadow'', ''/etc/shadow-'', ''/etc/gshadow'', ''/etc/gshadow-''])
       SeverityHigh TechEtcShadow ''password hash database'',
     watch ''/proc/<pid>/mem'' (globPath ''/proc/*/mem'')
       SeverityHigh TechProcFilesystem ''direct process memory access'',
     watch ''/proc/<pid>/maps'' (globPath ''/proc/*/maps'')
       SeverityMedium TechProcFilesystem ''process memory layout enumeration'',
     watch ''/etc/sudoers'' (exactAny [''/etc/sudoers''])
       SeverityMedium TechUnsecuredCreds ''sudo policy'',
     watch ''/etc/sudoers.d/*'' (prefixMatch ''/etc/sudoers.d/'')
       SeverityMedium TechUnsecuredCreds ''sudo policy fragment'',
     watch ''~/.ssh private key''
       (containsAny [''/.ssh/id_rsa'', ''/.ssh/id_dsa'', ''/.ssh/id_ecdsa'', ''/.ssh/id_ed25519'',
          ''/.ssh/identity''])
       SeverityMedium TechPrivateKeys ''SSH private key'',
     watch ''~/.aws/credentials'' (containsAny [''/.aws/credentials''])
       SeverityMedium TechCredsInFiles ''cloud provider credentials'',
     watch ''~/.gnupg secret keyring'' (containsAny [''/.gnupg/secring'', ''/.gnupg/private-keys-v1.d/''])
       SeverityMedium TechPrivateKeys ''GnuPG private keyring'',
     watch ''~/.docker/config.json'' (containsAny [''/.docker/config.json''])
       SeverityMedium TechCredsInFiles ''container registry credentials'',
     watch ''~/.kube/config'' (containsAny [''/.kube/config''])
       SeverityMedium TechCredsInFiles ''Kubernetes cluster credentials'']"

definition procTargetPID :: "string \<Rightarrow> string option" where
  "procTargetPID p =
     (if \<not> prefix ''/proc/'' p then None
      else let rest = drop 6 p
           in if CHR ''/'' \<notin> set rest \<or> cut_before (CHR ''/'') rest = [] then None
              else Some (cut_before (CHR ''/'') rest))"

text \<open>The report of the loop body, once the self-inspection test is settled.\<close>

definition sensitive_report :: "Context \<Rightarrow> sensitivePath \<Rightarrow> args \<Rightarrow> args \<times> Alert option" where
  "sensitive_report c sp m =
    (let ev = cx_Event c; isPrint = cfg_IsPrint (cx_Config c) in
     (mapset ''matched_pattern'' (sp_label sp) m,
      Some (newAlert ev RuleNameSensitiveFile (sp_technique sp) (sp_severity sp)
        (''Process '' @ procLabel isPrint ev @ '' opened '' @ Quote isPrint (ev_Path ev) @ '' ('' @
         sp_reason sp @ '') '' @ em_dash @ '' possible credential or memory access''))))"

definition self_target :: "Event \<Rightarrow> string \<Rightarrow> bool" where
  "self_target ev targetPID \<longleftrightarrow> targetPID = ''self'' \<or> targetPID = FormatUint (ev_PID ev)"

fun sensitive_scan :: "Context \<Rightarrow> string \<Rightarrow> sensitivePath list \<Rightarrow> args \<times> Alert option" where
  "sensitive_scan c p [] = (ev_Args (cx_Event c), None)"
| "sensitive_scan c p (sp # rest) =
    (let ev = cx_Event c in
     if \<not> sp_match sp p then sensitive_scan c p rest
     else case procTargetPID p of
       None \<Rightarrow> sensitive_report c sp (ev_Args ev)
     | Some targetPID \<Rightarrow>
         if self_target ev targetPID then
           (if cfg_IgnoreSelfProc (cx_Config c) then (ev_Args ev, None)
            else sensitive_report c sp
              (mapset ''target_pid'' targetPID (mapset ''target_self'' ''true'' (ev_Args ev))))
         else sensitive_report c sp (mapset ''target_pid'' targetPID (ev_Args ev)))"

definition evalSensitiveFileAccess :: rule_eval where
  "evalSensitiveFileAccess c =
    (let ev = cx_Event c in
     if ev_IsExit ev \<or> ev_SyscallID ev \<noteq> SysOpenat then (ev_Args ev, None)
     else if ev_Path ev = [] then (ev_Args ev, None)
     else sensitive_scan c (Clean (ev_Path ev)) sensitivePaths)"

definition sensitive_techniques :: "Technique list" where
  "sensitive_techniques =
     [TechCredentialDump, TechEtcShadow, TechProcFilesystem, TechUnsecuredCreds, TechCredsInFiles,
      TechPrivateKeys]"

definition ruleSensitiveFileAccess :: Rule where
  "ruleSensitiveFileAccess =
     \<lparr>rule_Name = RuleNameSensitiveFile,
      rule_Description = ''Access to credential stores, sudo configuration, private keys, or process memory'',
      rule_Techniques = sensitive_techniques,
      rule_Eval = evalSensitiveFileAccess\<rparr>"

section \<open>The scan\<close>

abbreviation sensitive_marks :: "string list" where
  "sensitive_marks \<equiv> [''target_self'', ''target_pid'', ''matched_pattern'']"

text \<open>What the loop does in one phrase: the first matching entry decides.\<close>

definition first_match :: "string \<Rightarrow> sensitivePath list \<Rightarrow> sensitivePath option" where
  "first_match p sps = find (\<lambda>sp. sp_match sp p) sps"

definition reads_itself :: "Event \<Rightarrow> string \<Rightarrow> bool" where
  "reads_itself ev p = (case procTargetPID p of None \<Rightarrow> False | Some t \<Rightarrow> self_target ev t)"

definition target_marks :: "Event \<Rightarrow> string \<Rightarrow> args" where
  "target_marks ev p =
     (case procTargetPID p of
        None \<Rightarrow> ev_Args ev
      | Some t \<Rightarrow> mapset ''target_pid'' t
          (if self_target ev t then mapset ''target_self'' ''true'' (ev_Args ev) else ev_Args ev))"

lemma sensitive_scan_first:
  "sensitive_scan c p sps =
    (case first_match p sps of
       None \<Rightarrow> (ev_Args (cx_Event c), None)
     | Some sp \<Rightarrow>
         if cfg_IgnoreSelfProc (cx_Config c) \<and> reads_itself (cx_Event c) p then (ev_Args (cx_Event c), None)
         else sensitive_report c sp (target_marks (cx_Event c) p))"
proof (induction sps)
  case Nil
  then show ?case by (simp add: first_match_def)
next
  case (Cons sp rest)
  then show ?case
    by (cases "procTargetPID p") (auto simp: first_match_def Let_def reads_itself_def target_marks_def)
qed

lemma target_marks_keep:
  "k \<notin> set sensitive_marks \<Longrightarrow> map_of (target_marks ev p) k = map_of (ev_Args ev) k"
  by (auto simp: target_marks_def split: option.split)

lemma target_marks_distinct: "distinct_keys (ev_Args ev) \<Longrightarrow> distinct_keys (target_marks ev p)"
  by (auto simp: target_marks_def split: option.split)

lemma first_match_in: "first_match p sps = Some sp \<Longrightarrow> sp \<in> set sps \<and> sp_match sp p"
  by (auto simp: first_match_def find_Some_iff)

lemma watch_techniques: "list_all (\<lambda>sp. sp_technique sp \<in> set sensitive_techniques) sensitivePaths"
  by (simp add: sensitivePaths_def sensitive_techniques_def watch_def)

lemma evalSensitive_cases:
  obtains "evalSensitiveFileAccess c = (ev_Args (cx_Event c), None)"
  | sp where "evalSensitiveFileAccess c =
      sensitive_report c sp (target_marks (cx_Event c) (Clean (ev_Path (cx_Event c))))"
    "sp_technique sp \<in> set sensitive_techniques"
proof (cases "first_match (Clean (ev_Path (cx_Event c))) sensitivePaths")
  case None
  then have "evalSensitiveFileAccess c = (ev_Args (cx_Event c), None)"
    by (simp add: evalSensitiveFileAccess_def Let_def sensitive_scan_first)
  then show thesis by (rule that(1))
next
  case (Some sp)
  have "sp_technique sp \<in> set sensitive_techniques"
    using first_match_in [OF Some] watch_techniques by (auto simp: list_all_iff)
  moreover have "evalSensitiveFileAccess c = (ev_Args (cx_Event c), None) \<or> evalSensitiveFileAccess c =
      sensitive_report c sp (target_marks (cx_Event c) (Clean (ev_Path (cx_Event c))))"
    using Some by (simp add: evalSensitiveFileAccess_def Let_def sensitive_scan_first)
  ultimately show thesis using that by blast
qed

interpretation sf: detection_rule RuleNameSensitiveFile sensitive_techniques sensitive_marks
  evalSensitiveFileAccess
proof
  fix c m a
  assume "evalSensitiveFileAccess c = (m, Some a)"
  then show "\<exists>t\<in>set sensitive_techniques. \<exists>sev desc. a = newAlert (cx_Event c) RuleNameSensitiveFile t sev desc"
    by (cases rule: evalSensitive_cases [of c]) (auto simp: sensitive_report_def Let_def target_marks_keep target_marks_distinct)
next
  fix c m
  assume "evalSensitiveFileAccess c = (m, None)"
  then show "m = ev_Args (cx_Event c)"
    by (cases rule: evalSensitive_cases [of c]) (auto simp: sensitive_report_def Let_def target_marks_keep target_marks_distinct)
next
  fix k c
  assume "k \<notin> set sensitive_marks"
  then show "map_of (fst (evalSensitiveFileAccess c)) k = map_of (ev_Args (cx_Event c)) k"
    by (cases rule: evalSensitive_cases [of c]) (auto simp: sensitive_report_def Let_def target_marks_keep target_marks_distinct)
next
  fix c :: Context
  assume "distinct_keys (ev_Args (cx_Event c))"
  then show "distinct_keys (fst (evalSensitiveFileAccess c))"
    by (cases rule: evalSensitive_cases [of c]) (auto simp: sensitive_report_def Let_def target_marks_keep target_marks_distinct)
next
  fix c :: Context
  assume "ev_IsExit (cx_Event c)"
  then show "snd (evalSensitiveFileAccess c) = None"
    by (simp add: evalSensitiveFileAccess_def)
qed

section \<open>What the watch list covers\<close>

text \<open>The watch list as a predicate on cleaned paths.\<close>

definition proc_file :: "string \<Rightarrow> string \<Rightarrow> bool" where
  "proc_file name p \<longleftrightarrow> (\<exists>seg. p = ''/proc/'' @ seg @ ''/'' @ name \<and> CHR ''/'' \<notin> set seg)"

definition watched :: "string \<Rightarrow> bool" where
  "watched p \<longleftrightarrow>
     p \<in> {''/etc/shadow'', ''/etc/shadow-'', ''/etc/gshadow'', ''/etc/gshadow-'', ''/etc/sudoers''} \<or>
     proc_file ''mem'' p \<or> proc_file ''maps'' p \<or>
     strict_prefix ''/etc/sudoers.d/'' p \<or>
     (\<exists>frag \<in> {''/.ssh/id_rsa'', ''/.ssh/id_dsa'', ''/.ssh/id_ecdsa'', ''/.ssh/id_ed25519'',
        ''/.ssh/identity'', ''/.aws/credentials'', ''/.gnupg/secring'', ''/.gnupg/private-keys-v1.d/'',
        ''/.docker/config.json'', ''/.kube/config''}. sublist frag p)"

lemma exactAny_iff: "exactAny ps p \<longleftrightarrow> p \<in> set ps"
  by (induction ps p rule: exactAny.induct) auto

lemma containsAny_iff: "containsAny fs p \<longleftrightarrow> (\<exists>f \<in> set fs. sublist f p)"
  by (induction fs p rule: containsAny.induct) (auto simp: Contains_iff)

lemma prefixMatch_iff: "prefixMatch pre p \<longleftrightarrow> strict_prefix pre p"
  by (auto simp: prefixMatch_def strict_prefix_def prefix_def)

lemma globPath_proc_mem: "globPath ''/proc/*/mem'' p \<longleftrightarrow> proc_file ''mem'' p"
  using Match_segment [of "''/proc/''" "''/mem''" p] by (simp add: globPath_def proc_file_def)

lemma globPath_proc_maps: "globPath ''/proc/*/maps'' p \<longleftrightarrow> proc_file ''maps'' p"
  using Match_segment [of "''/proc/''" "''/maps''" p] by (simp add: globPath_def proc_file_def)

lemmas matcher_iffs = exactAny_iff containsAny_iff prefixMatch_iff globPath_proc_mem globPath_proc_maps

lemma some_match_iff: "list_ex (\<lambda>sp. sp_match sp p) sensitivePaths \<longleftrightarrow> watched p"
  unfolding sensitivePaths_def watched_def watch_def list_ex_Cons_iff list_ex_Nil_iff sensitivePath.simps matcher_iffs
  by (simp only: list.set insert_iff empty_iff bex_simps simp_thms) argo

lemma first_match_None: "first_match p sensitivePaths = None \<longleftrightarrow> \<not> watched p"
proof -
  have "first_match p sensitivePaths = None \<longleftrightarrow> \<not> list_ex (\<lambda>sp. sp_match sp p) sensitivePaths"
    by (auto simp: first_match_def find_None_iff list_ex_iff)
  then show ?thesis by (simp only: some_match_iff)
qed

lemma sensitive_silent_iff:
  "snd (evalSensitiveFileAccess c) = None \<longleftrightarrow>
   (let ev = cx_Event c; p = Clean (ev_Path ev)
    in ev_IsExit ev \<or> ev_SyscallID ev \<noteq> SysOpenat \<or> ev_Path ev = [] \<or> \<not> watched p \<or>
       (cfg_IgnoreSelfProc (cx_Config c) \<and> reads_itself ev p))"
  using first_match_None [of "Clean (ev_Path (cx_Event c))"]
  by (auto simp: evalSensitiveFileAccess_def sensitive_scan_first Let_def sensitive_report_def
      simp del: SysOpenat_def split: option.split)

lemma severity_of_first:
  assumes "first_match p sensitivePaths = Some sp"
  shows "sp_severity sp =
    (if p \<in> {''/etc/shadow'', ''/etc/shadow-'', ''/etc/gshadow'', ''/etc/gshadow-''} \<or> proc_file ''mem'' p
     then SeverityHigh else SeverityMedium)"
proof -
  let ?rest = "drop 2 sensitivePaths"
  have rest: "list_all (\<lambda>sp. sp_severity sp = SeverityMedium) ?rest"
    by (simp add: sensitivePaths_def watch_def)
  have "first_match p sensitivePaths =
      (if p \<in> {''/etc/shadow'', ''/etc/shadow-'', ''/etc/gshadow'', ''/etc/gshadow-''}
       then Some (sensitivePaths ! 0)
       else if proc_file ''mem'' p then Some (sensitivePaths ! 1) else first_match p ?rest)"
    by (simp add: first_match_def sensitivePaths_def watch_def exactAny_iff globPath_proc_mem
        del: exactAny.simps containsAny.simps)
  moreover have "sp_severity (sensitivePaths ! 0) = SeverityHigh \<and> sp_severity (sensitivePaths ! 1) = SeverityHigh"
    by (simp add: sensitivePaths_def watch_def)
  ultimately show ?thesis
    using assms rest first_match_in [of p ?rest sp] by (auto simp: list_all_iff split: if_splits)
qed

lemma sensitive_severity:
  assumes "snd (evalSensitiveFileAccess c) = Some a"
  shows "al_Severity a =
    (let p = Clean (ev_Path (cx_Event c))
     in if p \<in> {''/etc/shadow'', ''/etc/shadow-'', ''/etc/gshadow'', ''/etc/gshadow-''} \<or> proc_file ''mem'' p
        then SeverityHigh else SeverityMedium)"
proof -
  obtain sp where sp: "first_match (Clean (ev_Path (cx_Event c))) sensitivePaths = Some sp"
    and "a = the (snd (sensitive_report c sp []))"
    using assms by (auto simp: evalSensitiveFileAccess_def sensitive_scan_first Let_def
        sensitive_report_def simp del: SysOpenat_def split: option.splits if_splits)
  then have "al_Severity a = sp_severity sp" by (simp add: sensitive_report_def Let_def)
  with severity_of_first [OF sp] show ?thesis by (simp only: Let_def)
qed

text \<open>C8. The sensitive-file rule fires exactly on entry to an openat whose path, after lexical cleaning,
  is on the watch list, unless self-inspection is ignored and the path goes through the caller's own
  \<open>/proc\<close> directory; the shadow files and process memory are HIGH, everything else is MEDIUM.\<close>

theorem sensitive_rule_iff:
  "(let ev = cx_Event c; p = Clean (ev_Path ev);
        fires = (\<not> ev_IsExit ev \<and> ev_SyscallID ev = SysOpenat \<and> ev_Path ev \<noteq> [] \<and> watched p \<and>
          \<not> (cfg_IgnoreSelfProc (cx_Config c) \<and> reads_itself ev p))
    in case snd (evalSensitiveFileAccess c) of
         None \<Rightarrow> \<not> fires
       | Some a \<Rightarrow> fires \<and> al_Severity a =
           (if p \<in> {''/etc/shadow'', ''/etc/shadow-'', ''/etc/gshadow'', ''/etc/gshadow-''} \<or> proc_file ''mem'' p
            then SeverityHigh else SeverityMedium))"
  using sensitive_silent_iff [of c] sensitive_severity [of c]
  by (cases "snd (evalSensitiveFileAccess c)") (simp_all add: Let_def del: SysOpenat_def)

text \<open>Respelling a path with doubled slashes, \<open>.\<close> elements or \<open>name/..\<close> detours, any number of
  times, changes neither whether the rule alerts, nor the severity and technique, nor the
  annotations it leaves on the event.\<close>

theorem sensitive_rule_respelled:
  assumes "respelled (ev_Path (cx_Event c)) q"
  shows "(let c' = c\<lparr>cx_Event := (cx_Event c)\<lparr>ev_Path := q\<rparr>\<rparr>;
              verdict = (\<lambda>x. map_option (\<lambda>a. (al_Severity a, al_MitreID a)) (snd (evalSensitiveFileAccess x)))
          in verdict c' = verdict c \<and> fst (evalSensitiveFileAccess c') = fst (evalSensitiveFileAccess c))"
  using Clean_respelled [OF assms] respelled_nonempty [OF assms]
  by (simp add: evalSensitiveFileAccess_def sensitive_scan_first Let_def sensitive_report_def
      reads_itself_def target_marks_def self_target_def del: SysOpenat_def split: option.split)

definition open_event :: "string \<Rightarrow> Event" where
  "open_event p = Decode (sample_raw\<lparr>r_SyscallID := SysOpenat, r_Path := p\<rparr>) 0"

definition open_context :: "bool \<Rightarrow> string \<Rightarrow> Context" where
  "open_context ignoreSelf p =
     \<lparr>cx_Event = open_event p, cx_History = None,
      cx_Config = (DefaultConfig (\<lambda>_. None) 1 (\<lambda>_. True))\<lparr>cfg_IgnoreSelfProc := ignoreSelf\<rparr>\<rparr>"

lemma open_event_fields [simp]:
  "ev_Path (open_event p) = p" "ev_SyscallID (open_event p) = SysOpenat" "ev_IsExit (open_event p) = False"
  by (simp_all add: open_event_def Decode_def decode_base_def decodeArgs_def sample_raw_def
      Raw_IsExit_def FlagSysExit_def Let_def)

lemma shadow_detour: "respelled ''/etc/shadow'' ''/etc/x/..//shadow''"
proof -
  have "respelled ''/etc/shadow'' (''/etc'' @ ''/'' @ ''shadow'')"
    using respelled.same [of "''/etc/shadow''"] by simp
  then have "respelled ''/etc/shadow'' (''/etc'' @ ''//'' @ ''shadow'')" by (rule respelled.slash)
  then have "respelled ''/etc/shadow'' (''/etc'' @ ''/'' @ ''/shadow'')" by simp
  then have "respelled ''/etc/shadow'' (''/etc'' @ ''/'' @ ''x'' @ ''/../'' @ ''/shadow'')"
    by (rule respelled.dotdot) (simp add: real_element_def)
  then show ?thesis by simp
qed

theorem sensitive_rule_respelled_witness:
  "(let c = open_context False ''/etc/shadow'';
        c' = c\<lparr>cx_Event := (cx_Event c)\<lparr>ev_Path := ''/etc/x/..//shadow''\<rparr>\<rparr>;
        verdict = (\<lambda>x. map_option (\<lambda>a. (al_Severity a, al_MitreID a)) (snd (evalSensitiveFileAccess x)))
    in verdict c' = verdict c \<and> fst (evalSensitiveFileAccess c') = fst (evalSensitiveFileAccess c))"
  using sensitive_rule_respelled [of "open_context False ''/etc/shadow''" "''/etc/x/..//shadow''"]
    shadow_detour
  by (simp add: open_context_def Let_def)

lemma self_root_target:
  assumes "list_all real_element es" and "es \<noteq> []"
  shows "reads_itself ev (Clean (''/proc/self/root/'' @ join ''/'' es))"
proof -
  let ?es = "[''proc'', ''self'', ''root''] @ es"
  have join: "''/proc/self/root/'' @ join ''/'' es = CHR ''/'' # join ''/'' ?es"
    using assms(2) by (cases es) simp_all
  have "list_all real_element ?es" using assms(1) by (simp add: real_element_def)
  from Clean_canonical [OF this] join show ?thesis
    by (simp only:) (simp add: join [symmetric] reads_itself_def procTargetPID_def self_target_def
        cut_before_def)
qed

text \<open>C29. With self-inspection ignored, any watched file can be read without an alert by naming it
  through \<open>/proc/self/root\<close>: the exemption looks at the second path element only, not at whether the
  matched pattern is a \<open>/proc\<close> pattern.\<close>

theorem ignore_self_proc_hides:
  assumes "list_all real_element es" and "es \<noteq> []" and "cfg_IgnoreSelfProc (cx_Config c)"
    and "ev_Path (cx_Event c) = ''/proc/self/root/'' @ join ''/'' es"
  shows "snd (evalSensitiveFileAccess c) = None"
  using self_root_target [OF assms(1,2)] assms(3,4) by (simp add: sensitive_silent_iff Let_def)

theorem ignore_self_proc_hides_witness:
  "snd (evalSensitiveFileAccess (open_context True ''/proc/self/root/root/.ssh/id_rsa'')) = None \<and>
   watched ''/proc/self/root/root/.ssh/id_rsa'' \<and>
   snd (evalSensitiveFileAccess (open_context True ''/root/.ssh/id_rsa'')) \<noteq> None"
proof (intro conjI)
  show "snd (evalSensitiveFileAccess (open_context True ''/proc/self/root/root/.ssh/id_rsa'')) = None"
    by (rule ignore_self_proc_hides [of "[''root'', ''.ssh'', ''id_rsa'']"])
      (simp_all add: real_element_def open_context_def)
  show w: "watched ''/proc/self/root/root/.ssh/id_rsa''"
    using containsAny_iff [of "[''/.ssh/id_rsa'']" "''/proc/self/root/root/.ssh/id_rsa''"]
    by (simp add: watched_def)
  have "watched ''/root/.ssh/id_rsa''"
    using containsAny_iff [of "[''/.ssh/id_rsa'']" "''/root/.ssh/id_rsa''"]
    by (simp add: watched_def)
  moreover have "Clean ''/root/.ssh/id_rsa'' = ''/root/.ssh/id_rsa''"
    using Clean_canonical [of "[''root'', ''.ssh'', ''id_rsa'']"] by (simp add: real_element_def)
  ultimately show "snd (evalSensitiveFileAccess (open_context True ''/root/.ssh/id_rsa'')) \<noteq> None"
    by (simp add: sensitive_silent_iff Let_def open_context_def reads_itself_def procTargetPID_def)
qed

end
