(* ===== verification/GoTime.thy ===== *)
theory GoTime
  imports Prelude
begin

text \<open>
  The operations of Go's \<^verbatim>\<open>time.Duration\<close> that the detectors print with: the quotient by a millisecond,
  rounding to a millisecond and \<open>String\<close>.
\<close>

text \<open>\<open>d/time.Millisecond\<close>: the quotient of the signed value, towards zero.\<close>

definition milliseconds :: "Duration \<Rightarrow> i64" where
  "milliseconds d =
     (if sint d < 0 then - word_of_int ((- sint d) div 1000000) else word_of_int (sint d div 1000000))"

text \<open>\<open>d.Round(time.Millisecond)\<close>: to the nearest multiple, halves away from zero, saturating.\<close>

definition round_ms :: "Duration \<Rightarrow> Duration" where
  "round_ms d =
     (let s = sint d; r = \<bar>s\<bar> mod 1000000 in
      if s < 0 then
        (if 2 * r < 1000000 then word_of_int (s + r)
         else word_of_int (max (- (2 ^ 63)) (s - 1000000 + r)))
      else
        (if 2 * r < 1000000 then word_of_int (s - r)
         else word_of_int (min (2 ^ 63 - 1) (s + 1000000 - r))))"

text \<open>The fraction of \<open>Duration.String\<close>: \<open>prec\<close> digits without the trailing zeros, and no point when none
  is left.\<close>

fun padded :: "nat \<Rightarrow> nat \<Rightarrow> string" where
  "padded 0 v = []"
| "padded (Suc p) v = padded p (v div 10) @ [digit_char (v mod 10)]"

definition fmtFrac :: "nat \<Rightarrow> nat \<Rightarrow> string" where
  "fmtFrac prec v =
     (let ds = rev (dropWhile (\<lambda>c. c = CHR ''0'') (rev (padded prec v)))
      in if ds = [] then [] else CHR ''.'' # ds)"

definition Duration_abs :: "nat \<Rightarrow> string" where
  "Duration_abs u =
     (if u = 0 then ''0s''
      else if u < 1000 then dec u @ ''ns''
      else if u < 1000000 then dec (u div 1000) @ fmtFrac 3 u @ [CHR 0xC2, CHR 0xB5, CHR ''s'']
      else if u < 1000000000 then dec (u div 1000000) @ fmtFrac 6 u @ ''ms''
      else
        (let secs = u div 1000000000; mins = secs div 60; hours = mins div 60 in
         (if 0 < hours then dec hours @ ''h'' else []) @
         (if 0 < mins then dec (mins mod 60) @ ''m'' else []) @
         dec (secs mod 60) @ fmtFrac 9 u @ ''s''))"

definition Duration_String :: "Duration \<Rightarrow> string" where
  "Duration_String d =
     (if sint d < 0 then CHR ''-'' # Duration_abs (nat (- sint d)) else Duration_abs (nat (sint d)))"

lemma padded_numeral:
  "padded (numeral k) v = padded (pred_numeral k) (v div 10) @ [digit_char (v mod 10)]"
  by (simp only: numeral_eq_Suc [of k] padded.simps)

text \<open>Sanity checks against the values the documentation of \<^verbatim>\<open>time\<close> gives.\<close>

lemmas duration_eval = Duration_String_def Duration_abs_def fmtFrac_def padded_numeral dec_def
  nat_digits.simps [of 10] digit_char_def Let_def

lemma Duration_String_examples:
  "Duration_String 0 = ''0s''" "Duration_String 2400000000 = ''2.4s''"
  "Duration_String 5445000000000 = ''1h30m45s''" "Duration_String 150000000 = ''150ms''"
  "Duration_String (- 1500000) = ''-1.5ms''"
  by (simp_all add: duration_eval)

lemma round_ms_examples:
  "round_ms 2400499999 = 2400000000" "round_ms 2400500000 = 2401000000" "round_ms (- 500000) = - 1000000"
  by (simp_all add: round_ms_def Let_def)

end
