(* ===== verification/RevShell.thy ===== *)
theory RevShell
  imports Rules GoTime
begin

text \<open>
  \<^verbatim>\<open>detect/revshell.go\<close>: the reverse-shell rule.  \<open>findChain\<close> keeps the source's two loops and its
  \<open>-1\<close> sentinels; the map of redirected descriptors is the list of its keys, in insertion order.
\<close>

record chainMatch =
  cm_startTS :: u64
  cm_destIP :: string
  cm_destPort :: u16
  cm_redirected :: "i64 list"
  cm_fdConfirmed :: bool

definition chainMatch_zero :: chainMatch where
  "chainMatch_zero =
     \<lparr>cm_startTS = 0, cm_destIP = [], cm_destPort = 0, cm_redirected = [], cm_fdConfirmed = False\<rparr>"

definition minRedirectedFDs :: nat where [simp]: "minRedirectedFDs = 2"

definition destination :: "chainMatch \<Rightarrow> string" where
  "destination c = (if cm_destIP c = [] then [] else cm_destIP c @ '':'' @ FormatUint (cm_destPort c))"

definition destSuffix :: "string \<Rightarrow> string" where
  "destSuffix dest = (if dest = [] then [] else '' to '' @ dest)"

definition isLoopback :: "string \<Rightarrow> bool" where
  "isLoopback ip \<longleftrightarrow> prefix ''127.'' ip \<or> ip = ''::1''"

text \<open>The local variables of the first loop.\<close>

record anchors =
  an_socketIdx :: int
  an_connectIdx :: int
  an_socketFD :: i64
  an_match :: chainMatch

definition anchor_step :: "nat \<Rightarrow> HistoryEntry \<Rightarrow> anchors \<Rightarrow> anchors" where
  "anchor_step i e v =
     (if he_Syscall e = SysSocket \<and> \<not> he_IsExit e then
        (if an_socketIdx v < 0
         then v\<lparr>an_socketIdx := int i, an_match := (an_match v)\<lparr>cm_startTS := he_Timestamp e\<rparr>\<rparr> else v)
      else if he_Syscall e = SysSocket \<and> he_IsExit e then
        (if 0 \<le> an_socketIdx v \<and> sint (an_socketFD v) < 0 \<and> 0 \<le> sint (he_Ret e)
         then v\<lparr>an_socketFD := he_Ret e\<rparr> else v)
      else if he_Syscall e = SysConnect \<and> \<not> he_IsExit e then
        (if 0 \<le> an_socketIdx v \<and> an_connectIdx v < 0
         then v\<lparr>an_connectIdx := int i,
                an_match := (an_match v)\<lparr>cm_destIP := he_DestIP e, cm_destPort := he_DestPort e\<rparr>\<rparr> else v)
      else v)"

fun anchor_loop :: "nat \<Rightarrow> HistoryEntry list \<Rightarrow> anchors \<Rightarrow> anchors" where
  "anchor_loop i [] v = v"
| "anchor_loop i (e # es) v = anchor_loop (Suc i) es (anchor_step i e v)"

fun redirect_loop :: "i64 \<Rightarrow> HistoryEntry list \<Rightarrow> chainMatch \<Rightarrow> chainMatch" where
  "redirect_loop socketFD [] m = m"
| "redirect_loop socketFD (e # es) m =
     (if \<not> IsDup (he_Syscall e) \<or> he_IsExit e then redirect_loop socketFD es m
      else if StdFdName (he_Arg1 e) = [] then redirect_loop socketFD es m
      else
        let m = m\<lparr>cm_redirected := (if he_Arg1 e \<in> set (cm_redirected m) then cm_redirected m
                                    else cm_redirected m @ [he_Arg1 e])\<rparr>;
            m = (if 0 \<le> sint socketFD \<and> he_Arg0 e = socketFD then m\<lparr>cm_fdConfirmed := True\<rparr> else m)
        in redirect_loop socketFD es m)"

definition anchors_start :: anchors where
  "anchors_start =
     \<lparr>an_socketIdx = -1, an_connectIdx = -1, an_socketFD = -1, an_match = chainMatch_zero\<rparr>"

definition findChain :: "HistoryEntry list \<Rightarrow> chainMatch option" where
  "findChain hist =
     (let v = anchor_loop 0 hist anchors_start
      in if an_socketIdx v < 0 \<or> an_connectIdx v < 0 then None
         else let m = redirect_loop (an_socketFD v) (drop (nat (an_connectIdx v + 1)) hist) (an_match v)
              in if length (cm_redirected m) < minRedirectedFDs then None else Some m)"

definition fd_names :: "i64 list \<Rightarrow> string list" where
  "fd_names fds = sort (map (\<lambda>fd. if StdFdName fd \<noteq> [] then StdFdName fd else FormatInt fd) fds)"

definition FormatBool :: "bool \<Rightarrow> string" where
  "FormatBool b = (if b then ''true'' else ''false'')"

definition chain_marks :: "Event \<Rightarrow> chainMatch \<Rightarrow> args" where
  "chain_marks ev chain =
    (let m = mapset ''chain_redirected'' (join '','' (fd_names (cm_redirected chain))) (ev_Args ev);
         m = mapset ''chain_duration_ms'' (FormatInt (milliseconds (ev_Timestamp ev - cm_startTS chain))) m;
         m = mapset ''chain_socket_fd_confirmed'' (FormatBool (cm_fdConfirmed chain)) m
     in if destination chain \<noteq> [] then mapset ''chain_dest'' (destination chain) m else m)"

definition evalReverseShell :: rule_eval where
  "evalReverseShell c =
    (let ev = cx_Event c; isPrint = cfg_IsPrint (cx_Config c) in
     if ev_IsExit ev \<or> \<not> IsExecution (ev_SyscallID ev) then (ev_Args ev, None)
     else let hist = Within (cx_History c) (ev_Timestamp ev) (cfg_RevShellWindow (cx_Config c)) in
       if hist = [] then (ev_Args ev, None)
       else case findChain hist of
         None \<Rightarrow> (ev_Args ev, None)
       | Some chain \<Rightarrow>
           if cfg_IgnoreLoopback (cx_Config c) \<and> isLoopback (cm_destIP chain) then (ev_Args ev, None)
           else let m = chain_marks ev chain in
             (m, Some (newAlert ev RuleNameReverseShell TechCommandInterpreter SeverityCritical
                (''Process '' @ procLabel isPrint ev @ '' completed socket '' @ rarrow @ '' connect'' @
                 destSuffix (destination chain) @ '' '' @ rarrow @ '' dup2('' @
                 join '','' (fd_names (cm_redirected chain)) @ '') '' @ rarrow @ '' execve('' @
                 Quote isPrint (ev_Path ev) @ '') in '' @ mapget ''chain_duration_ms'' m @ ''ms '' @
                 em_dash @ '' reverse shell pattern''))))"

definition ruleReverseShell :: Rule where
  "ruleReverseShell =
     \<lparr>rule_Name = RuleNameReverseShell,
      rule_Description = ''socket '' @ rarrow @ '' connect '' @ rarrow @ '' dup2(std fds) '' @ rarrow @
        '' execve sequence within one process'',
      rule_Techniques = [TechCommandInterpreter, TechAppLayerProtocol],
      rule_Eval = evalReverseShell\<rparr>"

abbreviation chain_keys :: "string list" where
  "chain_keys \<equiv> [''chain_redirected'', ''chain_duration_ms'', ''chain_socket_fd_confirmed'', ''chain_dest'']"

lemma chain_marks_keep: "k \<notin> set chain_keys \<Longrightarrow> map_of (chain_marks ev chain) k = map_of (ev_Args ev) k"
  by (simp add: chain_marks_def Let_def)

lemma chain_marks_distinct: "distinct_keys (ev_Args ev) \<Longrightarrow> distinct_keys (chain_marks ev chain)"
  by (simp add: chain_marks_def Let_def)

lemma evalReverseShell_cases:
  obtains "evalReverseShell c = (ev_Args (cx_Event c), None)"
  | chain desc where "evalReverseShell c = (chain_marks (cx_Event c) chain,
      Some (newAlert (cx_Event c) RuleNameReverseShell TechCommandInterpreter SeverityCritical desc))"
proof (cases "snd (evalReverseShell c)")
  case None
  then have "evalReverseShell c = (ev_Args (cx_Event c), None)"
    by (auto simp: evalReverseShell_def Let_def split: if_splits option.splits)
  then show thesis by (rule that(1))
next
  case (Some a)
  then have "\<exists>chain desc. evalReverseShell c = (chain_marks (cx_Event c) chain,
      Some (newAlert (cx_Event c) RuleNameReverseShell TechCommandInterpreter SeverityCritical desc))"
    by (auto simp: evalReverseShell_def Let_def split: if_splits option.splits)
  then show thesis using that(2) by blast
qed

interpretation rs: detection_rule RuleNameReverseShell "[TechCommandInterpreter, TechAppLayerProtocol]"
  chain_keys evalReverseShell
proof
  fix c m a
  assume "evalReverseShell c = (m, Some a)"
  then show "\<exists>t\<in>set [TechCommandInterpreter, TechAppLayerProtocol]. \<exists>sev desc.
      a = newAlert (cx_Event c) RuleNameReverseShell t sev desc"
    by (cases rule: evalReverseShell_cases [of c]) auto
next
  fix c m
  assume "evalReverseShell c = (m, None)"
  then show "m = ev_Args (cx_Event c)" by (cases rule: evalReverseShell_cases [of c]) auto
next
  fix k c
  assume "k \<notin> set chain_keys"
  then show "map_of (fst (evalReverseShell c)) k = map_of (ev_Args (cx_Event c)) k"
    by (cases rule: evalReverseShell_cases [of c]) (auto simp: chain_marks_keep)
next
  fix c :: Context
  assume "distinct_keys (ev_Args (cx_Event c))"
  then show "distinct_keys (fst (evalReverseShell c))"
    by (cases rule: evalReverseShell_cases [of c]) (simp_all add: chain_marks_distinct)
next
  fix c :: Context
  assume "ev_IsExit (cx_Event c)"
  then show "snd (evalReverseShell c) = None" by (simp add: evalReverseShell_def)
qed

section \<open>The chain search against its specification\<close>

definition is_socket :: "HistoryEntry \<Rightarrow> bool" where
  "is_socket e \<longleftrightarrow> he_Syscall e = SysSocket \<and> \<not> he_IsExit e"

definition is_connect :: "HistoryEntry \<Rightarrow> bool" where
  "is_connect e \<longleftrightarrow> he_Syscall e = SysConnect \<and> \<not> he_IsExit e"

definition std_dup :: "HistoryEntry \<Rightarrow> bool" where
  "std_dup e \<longleftrightarrow> IsDup (he_Syscall e) \<and> \<not> he_IsExit e \<and> he_Arg1 e \<in> {0, 1, 2}"

definition socket_ret :: "HistoryEntry \<Rightarrow> bool" where
  "socket_ret e \<longleftrightarrow> he_Syscall e = SysSocket \<and> he_IsExit e \<and> 0 \<le> sint (he_Ret e)"

lemma anchor_loop_append:
  "anchor_loop i (xs @ ys) v = anchor_loop (i + length xs) ys (anchor_loop i xs v)"
  by (induction xs arbitrary: i v) simp_all

lemma anchor_no_socket:
  "list_all (\<lambda>e. \<not> is_socket e) es \<Longrightarrow> an_socketIdx v < 0 \<Longrightarrow> anchor_loop i es v = v"
  by (induction es arbitrary: i) (auto simp: anchor_step_def is_socket_def)

text \<open>Once the socket is anchored, entries that are no connect, or come after the connect, only fill in
  the descriptor.\<close>

lemma anchor_only_fd:
  assumes "0 \<le> an_socketIdx v" and "list_all (\<lambda>e. \<not> is_connect e) es \<or> 0 \<le> an_connectIdx v"
  shows "anchor_loop i es v =
    v\<lparr>an_socketFD := (if 0 \<le> sint (an_socketFD v) then an_socketFD v
       else case find socket_ret es of None \<Rightarrow> an_socketFD v | Some e \<Rightarrow> he_Ret e)\<rparr>"
  using assms
proof (induction es arbitrary: i v)
  case Nil
  then show ?case by simp
next
  case (Cons e es)
  have step: "anchor_step i e v =
      (if socket_ret e \<and> sint (an_socketFD v) < 0 then v\<lparr>an_socketFD := he_Ret e\<rparr> else v)"
    using Cons.prems by (auto simp: anchor_step_def socket_ret_def is_connect_def)
  show ?case
  proof (cases "socket_ret e \<and> sint (an_socketFD v) < 0")
    case True
    then have "0 \<le> sint (he_Ret e)" by (simp add: socket_ret_def)
    with True step Cons.prems show ?thesis
      using Cons.IH [of "v\<lparr>an_socketFD := he_Ret e\<rparr>" "Suc i"] by auto
  next
    case False
    with step Cons.prems show ?thesis by (auto simp: Cons.IH)
  qed
qed

lemma std_dup_name: "StdFdName fd \<noteq> [] \<longleftrightarrow> fd \<in> {0, 1, 2}"
  by (simp add: StdFdName_def)

lemma redirect_loop_spec:
  fixes m :: chainMatch
  defines "out \<equiv> \<lambda>fd es. redirect_loop fd es m"
  assumes "distinct (cm_redirected m)"
  shows "distinct (cm_redirected (out fd es)) \<and>
    set (cm_redirected (out fd es)) = set (cm_redirected m) \<union> he_Arg1 ` {e \<in> set es. std_dup e} \<and>
    cm_startTS (out fd es) = cm_startTS m \<and> cm_destIP (out fd es) = cm_destIP m \<and>
    cm_destPort (out fd es) = cm_destPort m \<and>
    (cm_fdConfirmed (out fd es) \<longleftrightarrow> cm_fdConfirmed m \<or>
       (0 \<le> sint fd \<and> (\<exists>e \<in> set es. std_dup e \<and> he_Arg0 e = fd)))"
  using assms(2) unfolding out_def
proof (induction fd es m rule: redirect_loop.induct)
  case (1 fd m)
  then show ?case by simp
next
  case (2 fd e es m)
  show ?case
  proof (cases "std_dup e")
    case False
    then have "redirect_loop fd (e # es) m = redirect_loop fd es m"
      using std_dup_name [of "he_Arg1 e"] by (auto simp: std_dup_def)
    moreover have "{x \<in> set (e # es). std_dup x} = {x \<in> set es. std_dup x}" using False by auto
    moreover have "\<not> IsDup (he_Syscall e) \<or> he_IsExit e \<or> StdFdName (he_Arg1 e) = []"
      using False std_dup_name [of "he_Arg1 e"] by (auto simp: std_dup_def)
    ultimately show ?thesis using 2 False by auto
  next
    case True
    define m' where "m' = (let m = m\<lparr>cm_redirected := (if he_Arg1 e \<in> set (cm_redirected m) then cm_redirected m
        else cm_redirected m @ [he_Arg1 e])\<rparr>
      in if 0 \<le> sint fd \<and> he_Arg0 e = fd then m\<lparr>cm_fdConfirmed := True\<rparr> else m)"
    have guards: "\<not> (\<not> IsDup (he_Syscall e) \<or> he_IsExit e)" "StdFdName (he_Arg1 e) \<noteq> []"
      using True std_dup_name [of "he_Arg1 e"] by (auto simp: std_dup_def)
    then have loop: "redirect_loop fd (e # es) m = redirect_loop fd es m'"
      by (simp add: m'_def Let_def)
    have d: "distinct (cm_redirected m')" using 2(4) by (simp add: m'_def Let_def)
    note IH = 2(3) [OF guards refl refl, folded m'_def [unfolded Let_def]]
    have m': "set (cm_redirected m') = insert (he_Arg1 e) (set (cm_redirected m))"
      "cm_startTS m' = cm_startTS m" "cm_destIP m' = cm_destIP m" "cm_destPort m' = cm_destPort m"
      "cm_fdConfirmed m' \<longleftrightarrow> cm_fdConfirmed m \<or> 0 \<le> sint fd \<and> he_Arg0 e = fd"
      by (auto simp: m'_def Let_def)
    show ?thesis using IH [OF d] True unfolding loop m' by auto
  qed
qed

definition first_ret :: "HistoryEntry list \<Rightarrow> i64" where
  "first_ret es = (case find socket_ret es of None \<Rightarrow> -1 | Some e \<Rightarrow> he_Ret e)"

lemma find_append: "find P (xs @ ys) = (case find P xs of None \<Rightarrow> find P ys | Some x \<Rightarrow> Some x)"
  by (induction xs) simp_all

lemma socket_not_ret: "is_socket e \<Longrightarrow> \<not> socket_ret e" "is_connect e \<Longrightarrow> \<not> socket_ret e"
  by (auto simp: is_socket_def is_connect_def socket_ret_def)

lemma found_ret: "find socket_ret es = Some e \<Longrightarrow> 0 \<le> sint (he_Ret e)"
  by (auto simp: find_Some_iff socket_ret_def)

text \<open>The first loop on a history cut at the first socket and the first connect after it.\<close>

lemma anchor_split:
  assumes pre: "list_all (\<lambda>e. \<not> is_socket e) pre" and s: "is_socket s"
    and mid: "list_all (\<lambda>e. \<not> is_connect e) mid" and c: "is_connect c"
  shows "anchor_loop 0 (pre @ s # mid @ c # post) anchors_start =
    \<lparr>an_socketIdx = int (length pre), an_connectIdx = int (length pre + length mid + 1),
     an_socketFD = first_ret (mid @ post),
     an_match = chainMatch_zero\<lparr>cm_startTS := he_Timestamp s, cm_destIP := he_DestIP c,
       cm_destPort := he_DestPort c\<rparr>\<rparr>"
proof -
  let ?v1 = "anchors_start\<lparr>an_socketIdx := int (length pre),
      an_match := chainMatch_zero\<lparr>cm_startTS := he_Timestamp s\<rparr>\<rparr>"
  let ?v2 = "?v1\<lparr>an_socketFD := first_ret mid\<rparr>"
  let ?v3 = "?v2\<lparr>an_connectIdx := int (length pre + length mid + 1), an_match := chainMatch_zero
      \<lparr>cm_startTS := he_Timestamp s, cm_destIP := he_DestIP c, cm_destPort := he_DestPort c\<rparr>\<rparr>"
  have 0: "anchor_loop 0 pre anchors_start = anchors_start"
    using pre by (rule anchor_no_socket) (simp add: anchors_start_def)
  have 1: "anchor_step (length pre) s anchors_start = ?v1"
    using s by (simp add: anchor_step_def is_socket_def anchors_start_def)
  have 2: "anchor_loop i mid ?v1 = ?v2" for i
    using mid anchor_only_fd [of ?v1 mid i]
    by (simp add: anchors_start_def first_ret_def split: option.split)
  have 3: "anchor_step (length pre + length mid + 1) c ?v2 = ?v3"
    using c by (simp add: anchor_step_def is_connect_def anchors_start_def)
  have 4: "anchor_loop i post ?v3 = ?v3\<lparr>an_socketFD := first_ret (mid @ post)\<rparr>" for i
    using anchor_only_fd [of ?v3 post i] found_ret [of mid]
    by (auto simp: first_ret_def find_append anchors_start_def split: option.splits)
  show ?thesis
    using 0 1 2 3 4 by (simp add: anchor_loop_append anchors_start_def)
qed

text \<open>The redirections of standard streams in the part of the history after the connect.\<close>

definition redirected_fds :: "HistoryEntry list \<Rightarrow> i64 set" where
  "redirected_fds es = he_Arg1 ` {e \<in> set es. std_dup e}"

lemma findChain_split:
  assumes "list_all (\<lambda>e. \<not> is_socket e) pre" and "is_socket s"
    and "list_all (\<lambda>e. \<not> is_connect e) mid" and "is_connect c"
  shows "case findChain (pre @ s # mid @ c # post) of
      None \<Rightarrow> card (redirected_fds post) < 2
    | Some m \<Rightarrow> 2 \<le> card (redirected_fds post) \<and> set (cm_redirected m) = redirected_fds post \<and>
        distinct (cm_redirected m) \<and>
        cm_startTS m = he_Timestamp s \<and> cm_destIP m = he_DestIP c \<and> cm_destPort m = he_DestPort c \<and>
        (cm_fdConfirmed m \<longleftrightarrow> 0 \<le> sint (first_ret (mid @ post)) \<and>
           (\<exists>e \<in> set post. std_dup e \<and> he_Arg0 e = first_ret (mid @ post)))"
proof -
  let ?start = "chainMatch_zero\<lparr>cm_startTS := he_Timestamp s, cm_destIP := he_DestIP c,
       cm_destPort := he_DestPort c\<rparr>"
  let ?m = "redirect_loop (first_ret (mid @ post)) post ?start"
  have "nat (int (length pre + length mid + 1) + 1) = Suc (Suc (length pre + length mid))" by simp
  then have drop: "drop (nat (int (length pre + length mid + 1) + 1)) (pre @ s # mid @ c # post) = post"
    by simp
  have fc: "findChain (pre @ s # mid @ c # post) =
      (if length (cm_redirected ?m) < 2 then None else Some ?m)"
    unfolding findChain_def anchor_split [OF assms] Let_def anchors.simps drop by simp
  have "distinct (cm_redirected ?start)" by (simp add: chainMatch_zero_def)
  note spec = redirect_loop_spec [OF this, of "first_ret (mid @ post)" post]
  have "distinct (cm_redirected ?m)" using spec by blast
  moreover have "set (cm_redirected ?m) = redirected_fds post"
    using conjunct1 [OF conjunct2 [OF spec]] by (simp add: redirected_fds_def chainMatch_zero_def)
  ultimately have set: "set (cm_redirected ?m) = redirected_fds post" "distinct (cm_redirected ?m)"
    by blast+
  then have "length (cm_redirected ?m) = card (redirected_fds post)"
    by (metis distinct_card)
  with fc set spec show ?thesis by (simp add: chainMatch_zero_def)
qed

lemma findChain_no_socket: "list_all (\<lambda>e. \<not> is_socket e) hist \<Longrightarrow> findChain hist = None"
  by (simp add: findChain_def Let_def anchor_no_socket anchors_start_def)

lemma findChain_no_connect:
  assumes "list_all (\<lambda>e. \<not> is_socket e) pre" and "is_socket s" and "list_all (\<lambda>e. \<not> is_connect e) rest"
  shows "findChain (pre @ s # rest) = None"
proof -
  let ?v1 = "anchors_start\<lparr>an_socketIdx := int (length pre),
      an_match := chainMatch_zero\<lparr>cm_startTS := he_Timestamp s\<rparr>\<rparr>"
  have 0: "anchor_loop 0 pre anchors_start = anchors_start"
    using assms(1) by (rule anchor_no_socket) (simp add: anchors_start_def)
  have 1: "anchor_step (length pre) s anchors_start = ?v1"
    using assms(2) by (simp add: anchor_step_def is_socket_def anchors_start_def)
  have "an_connectIdx (anchor_loop i rest ?v1) < 0" for i
    using assms(3) anchor_only_fd [of ?v1 rest i] by (simp add: anchors_start_def)
  with 0 1 show ?thesis by (simp add: findChain_def Let_def anchor_loop_append)
qed

definition chain_in :: "HistoryEntry list \<Rightarrow> bool" where
  "chain_in hist \<longleftrightarrow>
     (\<exists>s c d1 d2. subseq [s, c, d1, d2] hist \<and> is_socket s \<and> is_connect c \<and>
        std_dup d1 \<and> std_dup d2 \<and> he_Arg1 d1 \<noteq> he_Arg1 d2)"

lemma redirected_finite [simp]: "finite (redirected_fds es)"
  by (simp add: redirected_fds_def)

lemma two_members: "finite A \<Longrightarrow> 2 \<le> card A \<longleftrightarrow> (\<exists>a \<in> A. \<exists>b \<in> A. a \<noteq> b)"
  by (metis One_nat_def Suc_1 Suc_le_eq card_1_singleton_iff card_le_Suc0_iff_eq not_less_eq_eq
      numeral_2_eq_2)

lemma subseq_pair:
  assumes "d1 \<in> set es" and "d2 \<in> set es" and "d1 \<noteq> d2"
  shows "subseq [d1, d2] es \<or> subseq [d2, d1] es"
  using assms
proof (induction es)
  case (Cons e es)
  then show ?case by (auto simp: subseq_singleton_left)
qed simp

lemma two_redirects:
  "2 \<le> card (redirected_fds es) \<longleftrightarrow>
   (\<exists>d1 d2. subseq [d1, d2] es \<and> std_dup d1 \<and> std_dup d2 \<and> he_Arg1 d1 \<noteq> he_Arg1 d2)"
  (is "_ \<longleftrightarrow> ?pair")
proof
  assume "2 \<le> card (redirected_fds es)"
  then obtain d1 d2 where "d1 \<in> set es" "d2 \<in> set es" "std_dup d1" "std_dup d2" "he_Arg1 d1 \<noteq> he_Arg1 d2"
    by (auto simp: two_members redirected_fds_def)
  then show ?pair using subseq_pair [of d1 es d2] by metis
next
  assume ?pair
  then obtain d1 d2 where sub: "subseq [d1, d2] es" and d: "std_dup d1" "std_dup d2" "he_Arg1 d1 \<noteq> he_Arg1 d2"
    by blast
  from sub have "d1 \<in> set es" "d2 \<in> set es"
    using subseq_order.order_trans [of "[d1]" "[d1, d2]" es] subseq_order.order_trans [of "[d2]" "[d1, d2]" es]
    by (simp_all add: subseq_singleton_left)
  with d show "2 \<le> card (redirected_fds es)"
    by (auto simp: two_members redirected_fds_def)
qed

text \<open>Skipping entries that cannot start the sequence loses nothing.\<close>

lemma subseq_skip:
  "list_all (\<lambda>e. e \<noteq> x) pre \<Longrightarrow> subseq (x # xs) (pre @ es) \<longleftrightarrow> subseq (x # xs) es"
  by (induction pre) auto

lemma chain_in_split:
  assumes pre: "list_all (\<lambda>e. \<not> is_socket e) pre" and s: "is_socket s"
    and mid: "list_all (\<lambda>e. \<not> is_connect e) mid" and c: "is_connect c"
  shows "chain_in (pre @ s # mid @ c # post) \<longleftrightarrow> 2 \<le> card (redirected_fds post)"
proof
  assume "chain_in (pre @ s # mid @ c # post)"
  then obtain s' c' d1 d2 where sub: "subseq [s', c', d1, d2] (pre @ s # mid @ c # post)"
    and k: "is_socket s'" "is_connect c'" "std_dup d1" "std_dup d2" "he_Arg1 d1 \<noteq> he_Arg1 d2"
    unfolding chain_in_def by blast
  have "list_all (\<lambda>e. e \<noteq> s') pre" using pre k(1) by (auto simp: list_all_iff)
  then have "subseq [s', c', d1, d2] (s # mid @ c # post)" using sub by (simp only: subseq_skip)
  then have "subseq [c', d1, d2] (mid @ c # post)"
    by (metis subseq_Cons' subseq_Cons2_iff)
  moreover have "list_all (\<lambda>e. e \<noteq> c') mid" using mid k(2) by (auto simp: list_all_iff)
  ultimately have "subseq [c', d1, d2] (c # post)" by (simp only: subseq_skip)
  then have "subseq [d1, d2] post" by (metis subseq_Cons' subseq_Cons2_iff)
  with k show "2 \<le> card (redirected_fds post)" unfolding two_redirects by blast
next
  assume "2 \<le> card (redirected_fds post)"
  then obtain d1 d2 where "subseq [d1, d2] post" and k: "std_dup d1" "std_dup d2" "he_Arg1 d1 \<noteq> he_Arg1 d2"
    unfolding two_redirects by blast
  then have "subseq [s, c, d1, d2] (pre @ s # mid @ c # post)"
    by (auto intro!: subseq_append_iff [THEN iffD2] exI [of _ "[]"] list_emb_append2)
  with s c k show "chain_in (pre @ s # mid @ c # post)" unfolding chain_in_def by blast
qed

lemma first_such:
  assumes "\<not> list_all (\<lambda>e. \<not> P e) es"
  obtains pre x post where "es = pre @ x # post" "P x" "list_all (\<lambda>e. \<not> P e) pre"
  using assms split_list_first_prop [of es P] by (auto simp: list_all_iff)

lemma chain_cases:
  obtains "findChain hist = None" "\<not> chain_in hist"
  | pre s mid c post where "hist = pre @ s # mid @ c # post" "list_all (\<lambda>e. \<not> is_socket e) pre"
      "is_socket s" "list_all (\<lambda>e. \<not> is_connect e) mid" "is_connect c"
proof (cases "list_all (\<lambda>e. \<not> is_socket e) hist")
  case True
  have "\<not> chain_in hist"
  proof
    assume "chain_in hist"
    then obtain s c d1 d2 where "subseq [s, c, d1, d2] hist" "is_socket s" unfolding chain_in_def by blast
    then show False using True list_emb_set [of "(=)" "[s, c, d1, d2]" hist s] by (auto simp: list_all_iff)
  qed
  then show thesis using that(1) findChain_no_socket [OF True] by blast
next
  case False
  then obtain pre s rest where h: "hist = pre @ s # rest" "is_socket s" "list_all (\<lambda>e. \<not> is_socket e) pre"
    by (rule first_such)
  show thesis
  proof (cases "list_all (\<lambda>e. \<not> is_connect e) rest")
    case True
    have "\<not> chain_in hist"
    proof
      assume "chain_in hist"
      then obtain s' c d1 d2 where sub: "subseq [s', c, d1, d2] hist" and k: "is_socket s'" "is_connect c"
        unfolding chain_in_def by blast
      have "list_all (\<lambda>e. e \<noteq> s') pre" using h(3) k(1) by (auto simp: list_all_iff)
      then have "subseq [s', c, d1, d2] (s # rest)" using sub h(1) by (simp only: subseq_skip)
      then have "subseq [c, d1, d2] rest" by (metis subseq_Cons' subseq_Cons2_iff)
      then show False using True k(2) list_emb_set [of "(=)" "[c, d1, d2]" rest c] by (auto simp: list_all_iff)
    qed
    then show thesis using that(1) findChain_no_connect [OF h(3,2) True] h(1) by simp
  next
    case False
    then obtain mid c post where "rest = mid @ c # post" "is_connect c" "list_all (\<lambda>e. \<not> is_connect e) mid"
      by (rule first_such)
    with h show thesis using that(2) by blast
  qed
qed

lemma findChain_iff: "findChain hist \<noteq> None \<longleftrightarrow> chain_in hist"
proof (cases rule: chain_cases [of hist])
  case 1
  then show ?thesis by simp
next
  case (2 pre s mid c post)
  then show ?thesis
    using findChain_split [OF 2(2-5), of post] chain_in_split [OF 2(2-5), of post]
    by (auto split: option.splits)
qed

lemma within_empty: "chain_in [] = False"
  by (simp add: chain_in_def)

text \<open>The destination of a chain: where the first connect after the first socket went.\<close>

definition chain_target :: "HistoryEntry list \<Rightarrow> string" where
  "chain_target hist =
     (case dropWhile (\<lambda>e. \<not> is_connect e) (dropWhile (\<lambda>e. \<not> is_socket e) hist) of
        [] \<Rightarrow> [] | c # _ \<Rightarrow> he_DestIP c)"

lemma chain_target_split:
  assumes "list_all (\<lambda>e. \<not> is_socket e) pre" and "is_socket s"
    and "list_all (\<lambda>e. \<not> is_connect e) mid" and "is_connect c"
  shows "chain_target (pre @ s # mid @ c # post) = he_DestIP c"
proof -
  have "\<not> is_connect s" using assms(2) by (simp add: is_socket_def is_connect_def)
  moreover have "dropWhile (\<lambda>e. \<not> is_socket e) (pre @ s # mid @ c # post) = s # mid @ c # post"
    using assms(1,2) by (simp add: dropWhile_append2 list_all_iff)
  moreover have "dropWhile (\<lambda>e. \<not> is_connect e) (mid @ c # post) = c # post"
    using assms(3,4) by (simp add: dropWhile_append2 list_all_iff)
  ultimately show ?thesis by (simp add: chain_target_def)
qed

lemma findChain_target: "findChain hist = Some m \<Longrightarrow> cm_destIP m = chain_target hist"
proof (cases rule: chain_cases [of hist])
  case (2 pre s mid c post)
  assume "findChain hist = Some m"
  then show ?thesis
    using findChain_split [OF 2(2-5), of post] chain_target_split [OF 2(2-5), of post] 2(1) by simp
qed simp

text \<open>C6. The reverse-shell rule fires exactly when a process enters an exec call and its history inside
  the detection window contains, in this order and with anything in between, a socket, a connect and
  redirections of two different standard streams.  With loopback ignored there is one more condition,
  and it is about one call only: the address recorded for the first connect after the first socket
  (\<open>chain_target\<close>) does not start with 127. and is not ::1.  Later connects are not looked at, so that a
  first connect to 127.0.0.1 silences the rule for a shell that dials out afterwards, and a connect without a
  recorded address (any family but IPv4) counts as remote.  Every such alert is CRITICAL and tagged
  T1059.\<close>

theorem reverse_shell_iff:
  "(let ev = cx_Event c;
        hist = Within (cx_History c) (ev_Timestamp ev) (cfg_RevShellWindow (cx_Config c));
        fires = (\<not> ev_IsExit ev \<and> IsExecution (ev_SyscallID ev) \<and> chain_in hist \<and>
          \<not> (cfg_IgnoreLoopback (cx_Config c) \<and> isLoopback (chain_target hist)))
    in case snd (evalReverseShell c) of
         None \<Rightarrow> \<not> fires
       | Some a \<Rightarrow> fires \<and> al_Severity a = SeverityCritical \<and> al_MitreID a = ''T1059'')"
proof -
  let ?hist = "Within (cx_History c) (ev_Timestamp (cx_Event c)) (cfg_RevShellWindow (cx_Config c))"
  show ?thesis
    using findChain_iff [of ?hist] findChain_target [of ?hist] within_empty
    by (auto simp: evalReverseShell_def Let_def TechCommandInterpreter_def technique_def
        split: option.splits if_splits)
qed

text \<open>The decoy: a connect to loopback right after the first socket silences the rule, whatever follows.\<close>

lemma loopback_decoy:
  assumes "Within (cx_History c) (ev_Timestamp (cx_Event c)) (cfg_RevShellWindow (cx_Config c)) = pre @ s # mid @ k # post"
    and "list_all (\<lambda>e. \<not> is_socket e) pre" "is_socket s" "list_all (\<lambda>e. \<not> is_connect e) mid" "is_connect k"
    and "cfg_IgnoreLoopback (cx_Config c)" and "isLoopback (he_DestIP k)"
  shows "snd (evalReverseShell c) = None"
proof (cases "findChain (pre @ s # mid @ k # post)")
  case None
  then show ?thesis using assms(1) by (simp add: evalReverseShell_def Let_def)
next
  case (Some m)
  then have "cm_destIP m = he_DestIP k" using findChain_target [OF Some] chain_target_split [OF assms(2-5)] by simp
  then show ?thesis using assms(1,6,7) Some by (simp add: evalReverseShell_def Let_def)
qed

text \<open>The evidence in a chain match is that of the history: the start is the first socket, the
  destination that of the first connect after it, the redirected descriptors are exactly the
  standard ones replaced after that connect (at least two), and the descriptor counts as confirmed
  exactly when one of those redirections duplicates the first descriptor a socket call returned.\<close>

theorem findChain_evidence:
  assumes "findChain hist = Some m"
  shows "\<exists>pre s mid c post. hist = pre @ s # mid @ c # post \<and>
    is_socket s \<and> list_all (\<lambda>e. \<not> is_socket e) pre \<and> is_connect c \<and> list_all (\<lambda>e. \<not> is_connect e) mid \<and>
    cm_startTS m = he_Timestamp s \<and> cm_destIP m = he_DestIP c \<and> cm_destPort m = he_DestPort c \<and>
    distinct (cm_redirected m) \<and> set (cm_redirected m) = redirected_fds post \<and>
    2 \<le> length (cm_redirected m) \<and> length (cm_redirected m) \<le> 3 \<and>
    (cm_fdConfirmed m \<longleftrightarrow> 0 \<le> sint (first_ret (mid @ post)) \<and>
       (\<exists>e \<in> set post. std_dup e \<and> he_Arg0 e = first_ret (mid @ post)))"
proof (cases rule: chain_cases [of hist])
  case 1
  with assms show ?thesis by simp
next
  case (2 pre s mid c post)
  have ev: "2 \<le> card (redirected_fds post)" "set (cm_redirected m) = redirected_fds post"
    "distinct (cm_redirected m)" "cm_startTS m = he_Timestamp s" "cm_destIP m = he_DestIP c"
    "cm_destPort m = he_DestPort c"
    "cm_fdConfirmed m \<longleftrightarrow> 0 \<le> sint (first_ret (mid @ post)) \<and>
       (\<exists>e \<in> set post. std_dup e \<and> he_Arg0 e = first_ret (mid @ post))"
    using findChain_split [OF 2(2-5), of post] assms 2(1) by simp_all
  have len: "length (cm_redirected m) = card (redirected_fds post)"
    using ev(2,3) by (metis distinct_card)
  have "redirected_fds post \<subseteq> {0, 1, 2}" by (auto simp: redirected_fds_def std_dup_def)
  then have "card (redirected_fds post) \<le> card {0, 1, 2 :: i64}" by (intro card_mono) simp_all
  then have "length (cm_redirected m) \<le> 3" using len by simp
  with ev len 2 show ?thesis by (intro exI [of _ pre] exI [of _ s] exI [of _ mid] exI [of _ c] exI [of _ post]) simp
qed

definition entry :: "Syscall \<Rightarrow> u64 \<Rightarrow> bool \<Rightarrow> i64 \<Rightarrow> i64 \<Rightarrow> i64 \<Rightarrow> HistoryEntry" where
  "entry sc ts isExit a0 a1 ret =
     \<lparr>he_Syscall = sc, he_Timestamp = ts, he_IsExit = isExit, he_Arg0 = a0, he_Arg1 = a1, he_Ret = ret,
      he_DestIP = (if sc = SysConnect then ''10.0.0.9'' else []),
      he_DestPort = (if sc = SysConnect then 4444 else 0)\<rparr>"

definition shell_history :: "HistoryEntry list" where
  "shell_history =
     [entry SysSocket 100 False 2 1 0, entry SysSocket 110 True 0 0 3, entry SysConnect 120 False 3 0 0,
      entry SysDup2 130 False 3 0 0, entry SysDup2 140 False 3 1 0]"

lemma shell_history_match:
  "findChain shell_history =
     Some \<lparr>cm_startTS = 100, cm_destIP = ''10.0.0.9'', cm_destPort = 4444, cm_redirected = [0, 1],
           cm_fdConfirmed = True\<rparr>"
  by (simp add: shell_history_def entry_def findChain_def anchor_step_def anchors_start_def
      chainMatch_zero_def IsDup_def StdFdName_def Let_def)

theorem findChain_evidence_witness:
  "\<exists>m pre s mid c post. findChain shell_history = Some m \<and> cm_fdConfirmed m \<and>
    shell_history = pre @ s # mid @ c # post \<and> is_socket s \<and> is_connect c \<and>
    cm_startTS m = he_Timestamp s \<and> set (cm_redirected m) = redirected_fds post"
  using findChain_evidence [OF shell_history_match] shell_history_match by fastforce

end
