(* ===== verification/Dedup.thy ===== *)
theory Dedup
  imports Alerts
begin

text \<open>
  \<^verbatim>\<open>detect/dedup.go\<close>: folding of repeated alerts.  A nil \<open>*deduper\<close> is \<open>None\<close>; the entries the map
  points to are stored in the map itself, since no other reference to them outlives a call.
  \<open>admit\<close> returns the deduper, the alert as it left it and the verdict.  It reads the alert's
  arguments through the event's argument map of that moment.
\<close>

definition maxDedupKeys :: nat where [simp]: "maxDedupKeys = 16384"

definition dedupRetain :: u64 where [simp]: "dedupRetain = 4"

record dedupEntry =
  de_firstTS :: u64
  de_suppressed :: u64

record deduper =
  dd_window :: u64
  dd_seen :: "(string, dedupEntry) gomap"
  dd_lastSweep :: u64
  dd_total :: u64

definition newDeduper :: "Duration \<Rightarrow> deduper option" where
  "newDeduper window =
     (if sint window \<le> 0 then None
      else Some \<lparr>dd_window = window, dd_seen = [], dd_lastSweep = 0, dd_total = 0\<rparr>)"

definition identityArgs :: "string list" where
  "identityArgs =
     [''path'', ''request'', ''target_pid'', ''target_uid'', ''target_gid'', ''euid'', ''egid'', ''chain_dest'']"

fun key_args :: "args \<Rightarrow> string list \<Rightarrow> string" where
  "key_args m [] = []"
| "key_args m (k # ks) =
     (case map_of m k of None \<Rightarrow> [] | Some v \<Rightarrow> ''|'' @ k @ ''='' @ v) @ key_args m ks"

definition dedupKey :: "args \<Rightarrow> Alert \<Rightarrow> string" where
  "dedupKey evArgs a =
     al_Rule a @ ''|'' @ FormatUint (al_PID a) @ ''|'' @ al_MitreID a @ ''|'' @ al_Syscall a @
     key_args (argsOf evArgs a) identityArgs"

definition key_expired :: "u64 \<Rightarrow> deduper \<Rightarrow> string \<times> dedupEntry \<Rightarrow> bool" where
  "key_expired now d e \<longleftrightarrow>
     \<not> now \<le> de_firstTS (snd e) \<and>
     (let age = now - de_firstTS (snd e)
      in (de_suppressed (snd e) = 0 \<and> dd_window d \<le> age) \<or> dedupRetain * dd_window d \<le> age)"

definition deduper_maybeSweep :: "u64 \<Rightarrow> deduper \<Rightarrow> deduper" where
  "deduper_maybeSweep now d =
     (if dd_lastSweep d \<noteq> 0 \<and> now - dd_lastSweep d < dd_window d \<and> length (dd_seen d) < maxDedupKeys
      then d
      else let kept = filter (\<lambda>e. \<not> key_expired now d e) (dd_seen d)
           in d\<lparr>dd_lastSweep := now, dd_seen := (if maxDedupKeys \<le> length kept then [] else kept)\<rparr>)"

text \<open>\<open>admit\<close> after the sweep, for the key it computed.\<close>

definition admit_key :: "string \<Rightarrow> u64 \<Rightarrow> Alert \<Rightarrow> deduper \<Rightarrow> deduper \<times> Alert \<times> bool" where
  "admit_key key now a d =
     (case map_of (dd_seen d) key of
        Some e \<Rightarrow>
          if de_firstTS e \<le> now \<and> now - de_firstTS e < dd_window d then
            (d\<lparr>dd_seen := mapset key (e\<lparr>de_suppressed := de_suppressed e + 1\<rparr>) (dd_seen d),
               dd_total := dd_total d + 1\<rparr>, a, False)
          else
            (d\<lparr>dd_seen := mapset key (e\<lparr>de_firstTS := now, de_suppressed := 0\<rparr>) (dd_seen d)\<rparr>,
             a\<lparr>al_Suppressed := de_suppressed e\<rparr>, True)
      | None \<Rightarrow>
          (d\<lparr>dd_seen := mapset key \<lparr>de_firstTS = now, de_suppressed = 0\<rparr> (dd_seen d)\<rparr>, a, True))"

definition deduper_admit ::
  "deduper option \<Rightarrow> args \<Rightarrow> Alert \<Rightarrow> u64 \<Rightarrow> deduper option \<times> Alert \<times> bool" where
  "deduper_admit d evArgs a now =
     (case d of
        None \<Rightarrow> (None, a, True)
      | Some d \<Rightarrow>
          (case admit_key (dedupKey evArgs a) now a (deduper_maybeSweep now d) of
             (d, a, ok) \<Rightarrow> (Some d, a, ok)))"

section \<open>Bounds\<close>

definition dedup_wf :: "deduper \<Rightarrow> bool" where
  "dedup_wf d \<longleftrightarrow> distinct_keys (dd_seen d)"

definition key_store :: "u64 \<times> string \<Rightarrow> deduper \<Rightarrow> deduper" where
  "key_store call d = fst (admit_key (snd call) (fst call) undefined d)"

lemma admit_key_deduper: "fst (admit_key key now a d) = fst (admit_key key now b d)"
  by (auto simp: admit_key_def split: option.split)

lemma admit_key_params [simp]:
  "dd_window (fst (admit_key key now a d)) = dd_window d"
  "dd_lastSweep (fst (admit_key key now a d)) = dd_lastSweep d"
  by (auto simp: admit_key_def split: option.split)

lemma sweep_params [simp]:
  "dd_window (deduper_maybeSweep now d) = dd_window d"
  "dd_total (deduper_maybeSweep now d) = dd_total d"
  by (auto simp: deduper_maybeSweep_def Let_def)

lemma admit_key_seen:
  "\<exists>e. dd_seen (fst (admit_key key now a d)) = mapset key e (dd_seen d)"
  by (auto simp: admit_key_def split: option.split)

lemma admit_key_wf [wf_intros]: "dedup_wf d \<Longrightarrow> dedup_wf (fst (admit_key key now a d))"
  using admit_key_seen [of key now a d] by (auto simp: dedup_wf_def)

lemma sweep_wf [wf_intros]: "dedup_wf d \<Longrightarrow> dedup_wf (deduper_maybeSweep now d)"
  by (auto simp: deduper_maybeSweep_def Let_def dedup_wf_def)

lemma newDeduper_wf: "newDeduper w = Some d \<Longrightarrow> dedup_wf d"
  by (auto simp: newDeduper_def dedup_wf_def split: if_splits)

interpretation dd: swept_cache dedup_wf dd_seen deduper_maybeSweep key_expired "\<lambda>_. maxDedupKeys"
  fst key_store
proof
  fix t :: deduper and now
  show "(dd_seen (deduper_maybeSweep now t) = dd_seen t \<and> length (dd_seen t) < maxDedupKeys) \<or>
    (let kept = filter (\<lambda>e. \<not> key_expired now t e) (dd_seen t)
     in dd_seen (deduper_maybeSweep now t) = (if maxDedupKeys \<le> length kept then [] else kept))"
    by (simp add: deduper_maybeSweep_def Let_def)
next
  fix t :: deduper and e
  show "length (dd_seen (key_store e t)) \<le> Suc (length (dd_seen t))"
    using admit_key_seen [of "snd e" "fst e" undefined t] by (auto simp: key_store_def length_mapset_le)
qed (auto simp: key_store_def intro: wf_intros)

text \<open>A run of calls: the arguments the event's map had, the alert and the time of each.\<close>

type_synonym admit_call = "args \<times> Alert \<times> u64"

definition call_key :: "admit_call \<Rightarrow> u64 \<times> string" where
  "call_key call = (case call of (m, a, now) \<Rightarrow> (now, dedupKey m a))"

fun admit_run :: "admit_call list \<Rightarrow> deduper \<Rightarrow> deduper \<times> (Alert \<times> bool) list" where
  "admit_run [] d = (d, [])"
| "admit_run ((m, a, now) # calls) d =
     (case admit_key (dedupKey m a) now a (deduper_maybeSweep now d) of
        (d1, a1, ok) \<Rightarrow> (case admit_run calls d1 of (d2, res) \<Rightarrow> (d2, (a1, ok) # res)))"

lemma handle_call: "dd.handle (call_key (m, a, now)) d =
    fst (admit_key (dedupKey m a) now a (deduper_maybeSweep now d))"
  by (simp add: dd.handle_def key_store_def call_key_def
      admit_key_deduper [of "dedupKey m a" now a _ undefined])

lemma admit_run_handle: "fst (admit_run calls d) = fold dd.handle (map call_key calls) d"
proof (induction calls d rule: admit_run.induct)
  case (2 m a now calls d)
  then show ?case
    by (cases "admit_key (dedupKey m a) now a (deduper_maybeSweep now d)"; cases "admit_run calls
        (fst (admit_key (dedupKey m a) now a (deduper_maybeSweep now d)))") (simp add: handle_call)
qed simp

text \<open>Whatever alerts arrive in whatever order and at whatever times, the deduplicator never holds
  more than 16384 keys, and every call of a run gets a verdict.\<close>

theorem dedup_bounded:
  "case newDeduper w of
     None \<Rightarrow> sint w \<le> 0
   | Some d \<Rightarrow> length (dd_seen (fst (admit_run calls d))) \<le> 16384 \<and>
       length (snd (admit_run calls d)) = length calls"
proof -
  have "length (snd (admit_run calls d)) = length calls" for d
    by (induction calls d rule: admit_run.induct) (auto split: prod.split)
  moreover have "newDeduper w = Some d \<Longrightarrow> length (dd_seen (fst (admit_run calls d))) \<le> 16384" for d
    using dd.run_bounded [of d "map call_key calls"] newDeduper_wf [of w d]
    by (auto simp: admit_run_handle newDeduper_def split: if_splits)
  ultimately show ?thesis by (auto simp: newDeduper_def)
qed

section \<open>Folding\<close>

text \<open>Time differences on the kernel clock, without wrap-around.\<close>

lemma age_mono: "t \<le> s \<Longrightarrow> s \<le> u \<Longrightarrow> s - t \<le> u - t" for t s u :: u64
  by (simp add: word_le_nat_alt unat_sub order_trans)

text \<open>Windows below 2^62 nanoseconds (146 years) keep the fourfold retention from wrapping.\<close>

definition sane_window :: "u64 \<Rightarrow> bool" where
  "sane_window w \<longleftrightarrow> 0 < w \<and> w < 0x4000000000000000"

lemma retain_ge: "sane_window w \<Longrightarrow> w \<le> dedupRetain * w"
proof -
  assume "sane_window w"
  then have "unat w < 4611686018427387904" by (simp add: sane_window_def word_less_nat_alt)
  then have "unat (4 * w) = 4 * unat w"
    by (subst unat_mult_lem [THEN iffD1]) (simp_all add: unat_word_ariths)
  then show ?thesis by (simp add: word_le_nat_alt)
qed

lemma run_Cons:
  "admit_run ((m, a, now) # calls) d =
    (let (d1, res) = admit_key (dedupKey m a) now a (deduper_maybeSweep now d)
     in (fst (admit_run calls d1), res # snd (admit_run calls d1)))"
  by (simp add: Let_def split: prod.split)

declare admit_run.simps(2) [simp del]

lemma run_append:
  "admit_run (xs @ ys) d =
    (let d1 = fst (admit_run xs d) in (fst (admit_run ys d1), snd (admit_run xs d) @ snd (admit_run ys d1)))"
proof (induction xs d rule: admit_run.induct)
  case (2 m a now calls d)
  then show ?case
    by (cases "admit_key (dedupKey m a) now a (deduper_maybeSweep now d)") (simp add: run_Cons Let_def)
qed (simp add: Let_def)

lemma run_wf [wf_intros]: "dedup_wf d \<Longrightarrow> dedup_wf (fst (admit_run calls d))"
proof (induction calls d rule: admit_run.induct)
  case (2 m a now calls d)
  have "dedup_wf (fst (admit_key (dedupKey m a) now a (deduper_maybeSweep now d)))"
    using 2 by (intro wf_intros)
  then show ?case
    using 2 by (cases "admit_key (dedupKey m a) now a (deduper_maybeSweep now d)") (simp add: run_Cons Let_def)
qed simp

lemma step_window [simp]:
  "dd_window (fst (admit_key key now a (deduper_maybeSweep now d))) = dd_window d"
  by simp

lemma run_window [simp]: "dd_window (fst (admit_run calls d)) = dd_window d"
proof (induction calls d rule: admit_run.induct)
  case (2 m a now calls d)
  then show ?case
    using step_window [of "dedupKey m a" now a d]
    by (cases "admit_key (dedupKey m a) now a (deduper_maybeSweep now d)") (simp add: run_Cons Let_def)
qed simp

lemma sweep_shrinks: "length (dd_seen (deduper_maybeSweep now d)) \<le> length (dd_seen d)"
  by (auto simp: deduper_maybeSweep_def Let_def)

lemma step_grows: "length (dd_seen (fst (admit_key key now a (deduper_maybeSweep now d)))) \<le> Suc (length (dd_seen d))"
  using admit_key_seen [of key now a "deduper_maybeSweep now d"] sweep_shrinks [of now d]
  by (auto intro: order_trans [OF length_mapset_le])

lemma run_grows: "length (dd_seen (fst (admit_run calls d))) \<le> length (dd_seen d) + length calls"
proof (induction calls d rule: admit_run.induct)
  case (2 m a now calls d)
  then show ?case
    using step_grows [of "dedupKey m a" now a d]
    by (cases "admit_key (dedupKey m a) now a (deduper_maybeSweep now d)") (fastforce simp: run_Cons Let_def)
qed simp

text \<open>The entry of a key through a call at a time when it must not expire.\<close>

definition armed :: "string \<Rightarrow> u64 \<Rightarrow> u64 \<Rightarrow> deduper \<Rightarrow> bool" where
  "armed key t n d \<longleftrightarrow> map_of (dd_seen d) key = Some \<lparr>de_firstTS = t, de_suppressed = n\<rparr>"

lemma armed_sweep:
  assumes "dedup_wf d" and "length (dd_seen d) < maxDedupKeys" and "armed key t n d"
    and "\<not> key_expired now d (key, \<lparr>de_firstTS = t, de_suppressed = n\<rparr>)"
  shows "armed key t n (deduper_maybeSweep now d)"
  using dd.fresh_lookup [of d key _ now] assms by (simp add: armed_def dedup_wf_def)

lemma not_expired_in_window:
  assumes "sane_window (dd_window d)" and "now - t < dd_window d"
  shows "\<not> key_expired now d (key, \<lparr>de_firstTS = t, de_suppressed = n\<rparr>)"
  using assms retain_ge [OF assms(1)] by (auto simp: key_expired_def Let_def)

lemma admit_after_absent:
  assumes "map_of (dd_seen d) key = None"
  shows "admit_key key now a d =
    (d\<lparr>dd_seen := mapset key \<lparr>de_firstTS = now, de_suppressed = 0\<rparr> (dd_seen d)\<rparr>, a, True)"
  using assms by (simp add: admit_key_def)

lemma admitted_armed: "snd (snd (admit_key key now a d)) \<Longrightarrow> armed key now 0 (fst (admit_key key now a d))"
  by (auto simp: admit_key_def armed_def split: option.splits if_splits)

lemma armed_refuses:
  assumes "armed key t n d" and "t \<le> now" and "now - t < dd_window d"
  shows "snd (admit_key key now a d) = (a, False)" and "armed key t (n + 1) (fst (admit_key key now a d))"
  using assms by (simp_all add: admit_key_def armed_def)

lemma armed_other: "key' \<noteq> key \<Longrightarrow> armed key t n (fst (admit_key key' now a d)) \<longleftrightarrow> armed key t n d"
  by (auto simp: admit_key_def armed_def split: option.splits)

lemma absent_other:
  "key' \<noteq> key \<Longrightarrow> map_of (dd_seen (fst (admit_key key' now a d))) key = map_of (dd_seen d) key"
  by (auto simp: admit_key_def split: option.splits)

definition repeats :: "string \<Rightarrow> admit_call list \<Rightarrow> nat" where
  "repeats key calls = length (filter (\<lambda>c. snd (call_key c) = key) calls)"

definition within_window :: "u64 \<Rightarrow> u64 \<Rightarrow> admit_call \<Rightarrow> bool" where
  "within_window t w c \<longleftrightarrow> t \<le> fst (call_key c) \<and> fst (call_key c) - t < w"

lemma call_key_simps [simp]: "call_key (m, a, now) = (now, dedupKey m a)"
  by (simp add: call_key_def)

text \<open>The key table never fills up during these calls: it has room whenever one of them starts.\<close>

fun roomy :: "admit_call list \<Rightarrow> deduper \<Rightarrow> bool" where
  "roomy [] d \<longleftrightarrow> True"
| "roomy ((m, a, now) # calls) d \<longleftrightarrow>
     length (dd_seen d) < maxDedupKeys \<and>
     roomy calls (fst (admit_key (dedupKey m a) now a (deduper_maybeSweep now d)))"

lemma roomy_append: "roomy (xs @ ys) d \<longleftrightarrow> roomy xs d \<and> roomy ys (fst (admit_run xs d))"
  by (induction xs d rule: roomy.induct) (auto simp: run_Cons Let_def split_def)

text \<open>A short run has room: every call adds one key at most.\<close>

lemma roomy_short: "length (dd_seen d) + length calls \<le> maxDedupKeys \<Longrightarrow> roomy calls d"
proof (induction calls d rule: roomy.induct)
  case (2 m a now calls d)
  then show ?case using step_grows [of "dedupKey m a" now a d] by simp
qed simp

text \<open>Inside the window every repeat is refused and counted.\<close>

lemma run_in_window:
  assumes "dedup_wf d" and "sane_window (dd_window d)" and "armed key t n d"
    and "roomy calls d"
    and "list_all (within_window t (dd_window d)) calls"
  shows "armed key t (n + of_nat (repeats key calls)) (fst (admit_run calls d)) \<and>
    list_all2 (\<lambda>c v. snd (call_key c) = key \<longrightarrow> \<not> snd v) calls (snd (admit_run calls d))"
  using assms
proof (induction calls d arbitrary: n rule: admit_run.induct)
  case (1 d)
  then show ?case by (simp add: repeats_def)
next
  case (2 m a now calls d)
  let ?d = "deduper_maybeSweep now d"
  obtain d1 r where step: "admit_key (dedupKey m a) now a ?d = (d1, r)" by (rule prod.exhaust)
  have now: "t \<le> now" "now - t < dd_window d" using 2(6) by (simp_all add: within_window_def)
  have sw: "armed key t n ?d"
    using armed_sweep [OF 2(2) _ 2(4)] 2(5) not_expired_in_window [OF 2(3) now(2)] by simp
  have wf1: "dedup_wf d1" and win1: "dd_window d1 = dd_window d"
    using wf_intros 2(2) step by (metis fst_conv) (use step_window [of "dedupKey m a" now a d] step in simp)
  have len1: "roomy calls d1" using step 2(5) by simp
  have "armed key t (n + (if dedupKey m a = key then 1 else 0)) d1 \<and> (dedupKey m a = key \<longrightarrow> \<not> snd r)"
    using armed_refuses [OF sw now(1), of a] armed_other [of "dedupKey m a" key t n now a ?d] sw now step
    by (cases "dedupKey m a = key") simp_all
  then show ?case
    using 2(1) [OF step [symmetric], of "fst r" "snd r" "n + (if dedupKey m a = key then 1 else 0)"]
      wf1 win1 len1 2(3,6) step
    by (auto simp: run_Cons Let_def repeats_def ac_simps)
qed

lemma sweep_state:
  assumes "dedup_wf d" and "armed key t n d \<or> n = 0 \<and> map_of (dd_seen d) key = None"
    and "length (dd_seen d) < maxDedupKeys" and "now - t < dedupRetain * dd_window d"
  shows "armed key t n (deduper_maybeSweep now d) \<or>
    n = 0 \<and> map_of (dd_seen (deduper_maybeSweep now d)) key = None"
    (is "armed key t n ?d \<or> _")
proof (cases "armed key t n d \<and> \<not> key_expired now d (key, \<lparr>de_firstTS = t, de_suppressed = n\<rparr>)")
  case True
  then show ?thesis using armed_sweep [OF assms(1,3)] by simp
next
  case False
  have sub: "set (dd_seen ?d) \<subseteq> set (dd_seen d)" and dist: "distinct_keys (dd_seen ?d)"
    using dd.sweep_subset [OF assms(1)] sweep_wf [OF assms(1)] by (simp_all add: dedup_wf_def)
  have "n = 0" using assms(2,4) False by (auto simp: key_expired_def Let_def)
  moreover have "map_of (dd_seen ?d) key = map_of (dd_seen d) key \<or> map_of (dd_seen ?d) key = None"
  proof (cases "map_of (dd_seen ?d) key")
    case (Some v)
    then have "(key, v) \<in> set (dd_seen d)" using map_of_SomeD sub by fastforce
    then show ?thesis using Some assms(1) by (simp add: dedup_wf_def)
  qed simp
  ultimately show ?thesis using assms(2) by (auto simp: armed_def)
qed

text \<open>After the window, calls for other keys leave the count in place; an entry with nothing folded may
  go, which loses nothing.\<close>

lemma run_past_window:
  assumes "dedup_wf d" and "armed key t n d \<or> n = 0 \<and> map_of (dd_seen d) key = None"
    and "roomy calls d"
    and "list_all (within_window t (dedupRetain * dd_window d)) calls" and "repeats key calls = 0"
  shows "armed key t n (fst (admit_run calls d)) \<or> n = 0 \<and> map_of (dd_seen (fst (admit_run calls d))) key = None"
  using assms
proof (induction calls d rule: admit_run.induct)
  case (1 d)
  then show ?case by simp
next
  case (2 m a now calls d)
  let ?d = "deduper_maybeSweep now d"
  obtain d1 r where step: "admit_key (dedupKey m a) now a ?d = (d1, r)" by (rule prod.exhaust)
  have now: "now - t < dedupRetain * dd_window d" using 2(5) by (simp add: within_window_def)
  have other: "dedupKey m a \<noteq> key" "repeats key calls = 0"
    using 2(6) by (auto simp: repeats_def split: if_splits)
  have "armed key t n ?d \<or> n = 0 \<and> map_of (dd_seen ?d) key = None"
    using sweep_state [OF 2(2,3) _ now] 2(4) by simp
  then have next_st: "armed key t n d1 \<or> n = 0 \<and> map_of (dd_seen d1) key = None"
    using armed_other [OF other(1), of t n now a ?d] absent_other [OF other(1), of now a ?d] step by simp
  have wf1: "dedup_wf d1" and win1: "dd_window d1 = dd_window d"
    using wf_intros 2(2) step by (metis fst_conv) (use step_window [of "dedupKey m a" now a d] step in simp)
  have len1: "roomy calls d1" using step 2(4) by simp
  show ?case
    using 2(1) [OF step [symmetric], of "fst r" "snd r"] wf1 next_st win1 len1 2(5) other(2) step
    by (simp add: run_Cons Let_def)
qed

text \<open>The state a run from a fresh deduplicator is in, right after it emitted an alert.\<close>

lemma emission_state:
  assumes new: "newDeduper w = Some d0" and d: "d = fst (admit_run earlier d0)"
    and adm: "snd (snd (admit_key (dedupKey m a) t a (deduper_maybeSweep t d)))"
  defines "d1 \<equiv> fst (admit_key (dedupKey m a) t a (deduper_maybeSweep t d))"
  shows "dedup_wf d1" and "dd_window d1 = w" and "armed (dedupKey m a) t 0 d1"
proof -
  have d0: "dedup_wf d0" "dd_window d0 = w"
    using new newDeduper_wf [OF new] by (auto simp: newDeduper_def split: if_splits)
  show "dedup_wf d1" unfolding d1_def d by (intro wf_intros d0(1))
  show "dd_window d1 = w" unfolding d1_def d using d0(2) by simp
  show "armed (dedupKey m a) t 0 d1" unfolding d1_def using admitted_armed [OF adm] .
qed

lemma admit_resurface:
  assumes "armed key t n d \<or> n = 0 \<and> map_of (dd_seen d) key = None"
    and "dedup_wf d" and "length (dd_seen d) < maxDedupKeys"
    and "dd_window d \<le> now - t" and "now - t < dedupRetain * dd_window d" and "al_Suppressed b = 0"
  shows "snd (admit_key key now b (deduper_maybeSweep now d)) = (b\<lparr>al_Suppressed := n\<rparr>, True)"
proof -
  have b: "b\<lparr>al_Suppressed := 0\<rparr> = b" using assms(6) by (metis Alert.surjective Alert.update_convs(16))
  let ?d = "deduper_maybeSweep now d"
  consider "armed key t n ?d" | "n = 0" "map_of (dd_seen ?d) key = None"
    using sweep_state [OF assms(2,1,3,5)] by auto
  then show ?thesis
  proof cases
    case 1
    moreover have "\<not> now - t < dd_window d" using assms(4) by (simp add: not_less)
    ultimately show ?thesis by (simp add: admit_key_def armed_def)
  next
    case 2
    then show ?thesis by (simp add: admit_after_absent b)
  qed
qed

text \<open>Once the window is over the key is admitted, in whatever state its entry is.\<close>

lemma admit_late:
  assumes "armed key t n d" and "dedup_wf d" and "dd_window d \<le> now - t"
  shows "snd (snd (admit_key key now b (deduper_maybeSweep now d)))"
proof -
  let ?d = "deduper_maybeSweep now d"
  have "map_of (dd_seen ?d) key = None \<or> armed key t n ?d"
  proof (cases "map_of (dd_seen ?d) key")
    case (Some v)
    then have "(key, v) \<in> set (dd_seen d)" using map_of_SomeD dd.sweep_subset [OF assms(2)] by fastforce
    then show ?thesis using Some assms(1,2) by (auto simp: armed_def dedup_wf_def dest: map_of_is_SomeI)
  qed simp
  moreover have "\<not> now - t < dd_window d" using assms(3) by (simp add: not_less)
  ultimately show ?thesis by (auto simp: admit_key_def armed_def)
qed

text \<open>C22. A finding is emitted once per window.  Take any deduplicator a run has led to, with a window below
  2^62 ns (146 years).  Once it emits an alert, every alert with the same key that arrives within the
  window measured from that emission is refused, whatever else arrives in between, as long as the key
  table has room (fewer than 16384 keys) whenever one of these calls starts; how much arrived before
  does not matter.  The window does not slide: however many repeats it refused, the first alert with the
  key that arrives once the window is over is emitted.\<close>

theorem dedup_once_per_window:
  assumes "newDeduper w = Some d0" and "sane_window w" and "d = fst (admit_run earlier d0)"
    and "admit_key (dedupKey m a) t a (deduper_maybeSweep t d) = (d1, a', True)"
    and "roomy calls d1" and "list_all (within_window t w) calls"
  shows "list_all2 (\<lambda>c v. snd (call_key c) = dedupKey m a \<longrightarrow> \<not> snd v) calls (snd (admit_run calls d1)) \<and>
    (dedupKey m' b = dedupKey m a \<and> w \<le> t' - t \<longrightarrow>
       snd (snd (admit_key (dedupKey m' b) t' b (deduper_maybeSweep t' (fst (admit_run calls d1))))))"
proof -
  have "snd (snd (admit_key (dedupKey m a) t a (deduper_maybeSweep t d)))" by (simp add: assms(4))
  note st = emission_state [OF assms(1,3) this, unfolded assms(4) fst_conv]
  note run = run_in_window [OF st(1) _ st(3) assms(5), unfolded st(2), OF assms(2,6)]
  then show ?thesis using admit_late [OF conjunct1 [OF run] run_wf [OF st(1)], of t' b] st(2) by simp
qed

text \<open>C23. A finding resurfaces with its count.  Under the same conditions, room in the key table included: the
  first alert with the same key after the window, and before the fourfold retention ends, is emitted and
  carries the exact number of repeats folded since the last emission, whatever other findings arrive in
  between.\<close>

theorem dedup_resurfaces:
  assumes "newDeduper w = Some d0" and "sane_window w" and "d = fst (admit_run earlier d0)"
    and "admit_key (dedupKey m a) t a (deduper_maybeSweep t d) = (d1, a', True)"
    and "roomy (folded @ others @ [(m', b, t')]) d1"
    and "list_all (within_window t w) folded"
    and "list_all (within_window t (dedupRetain * w)) others" and "repeats (dedupKey m a) others = 0"
    and "dedupKey m' b = dedupKey m a" and "al_Suppressed b = 0"
    and "w \<le> t' - t" and "t' - t < dedupRetain * w"
  shows "last (snd (admit_run (folded @ others @ [(m', b, t')]) d1)) =
    (b\<lparr>al_Suppressed := of_nat (repeats (dedupKey m a) folded)\<rparr>, True)"
proof -
  let ?key = "dedupKey m a" and ?n = "of_nat (repeats (dedupKey m a) folded) :: u64"
  have "snd (snd (admit_key ?key t a (deduper_maybeSweep t d)))" by (simp add: assms(4))
  note st = emission_state [OF assms(1,3) this, unfolded assms(4) fst_conv]
  let ?d2 = "fst (admit_run folded d1)" let ?d3 = "fst (admit_run others ?d2)"
  have room: "roomy folded d1" "roomy others ?d2" "length (dd_seen ?d3) < maxDedupKeys"
    using assms(5) by (simp_all add: roomy_append)
  have "armed ?key t ?n ?d2" using run_in_window [OF st(1) _ st(3) room(1)] st(2) assms(2,6) by simp
  then have "armed ?key t ?n ?d3 \<or> ?n = 0 \<and> map_of (dd_seen ?d3) ?key = None"
    using run_past_window [of ?d2 ?key t ?n others] run_wf [OF st(1)] st(2) room(2) assms(7,8) by simp
  moreover have "dedup_wf ?d3" "dd_window ?d3 = w" using run_wf [OF run_wf] st by simp_all
  ultimately have "snd (admit_key ?key t' b (deduper_maybeSweep t' ?d3)) = (b\<lparr>al_Suppressed := ?n\<rparr>, True)"
    using admit_resurface [of ?key t ?n ?d3 t' b] room(3) assms(10-12) by simp
  then have "snd (admit_run [(m', b, t')] ?d3) = [(b\<lparr>al_Suppressed := ?n\<rparr>, True)]"
    using assms(9) by (simp add: run_Cons Let_def split_def)
  then show ?thesis by (simp add: run_append Let_def)
qed

definition sample_alert :: Alert where
  "sample_alert = newAlert (Decode sample_raw 0) ''sensitive-file-access'' TechEtcShadow SeverityHigh ''read''"

definition sample_deduper :: deduper where
  "sample_deduper = \<lparr>dd_window = 5000000000, dd_seen = [], dd_lastSweep = 0, dd_total = 0\<rparr>"

lemma sample_deduper_new: "newDeduper 5000000000 = Some sample_deduper"
  by (simp add: newDeduper_def sample_deduper_def)

definition sample_seen :: deduper where
  "sample_seen =
     \<lparr>dd_window = 5000000000, dd_seen = [(dedupKey [] sample_alert, \<lparr>de_firstTS = 1000000000, de_suppressed = 0\<rparr>)],
      dd_lastSweep = 1000000000, dd_total = 0\<rparr>"

lemma sample_first:
  "admit_key (dedupKey [] sample_alert) 1000000000 sample_alert (deduper_maybeSweep 1000000000 sample_deduper) =
     (sample_seen, sample_alert, True)"
  by (simp add: sample_deduper_def sample_seen_def admit_key_def deduper_maybeSweep_def)

lemma sample_roomy: "length calls < 16384 \<Longrightarrow> roomy calls sample_seen"
  by (rule roomy_short) (simp add: sample_seen_def)

theorem dedup_once_per_window_witness:
  "list_all2 (\<lambda>c v. snd (call_key c) = dedupKey [] sample_alert \<longrightarrow> \<not> snd v)
     [([], sample_alert, 2000000000), ([], sample_alert, 5999999999)]
     (snd (admit_run [([], sample_alert, 2000000000), ([], sample_alert, 5999999999)] sample_seen)) \<and>
   snd (snd (admit_key (dedupKey [] sample_alert) 6000000000 sample_alert (deduper_maybeSweep 6000000000
     (fst (admit_run [([], sample_alert, 2000000000), ([], sample_alert, 5999999999)] sample_seen)))))"
  using dedup_once_per_window [OF sample_deduper_new _ _ sample_first sample_roomy,
      of "[]" "[([], sample_alert, 2000000000), ([], sample_alert, 5999999999)]" "[]" sample_alert 6000000000]
  by (simp add: sane_window_def within_window_def)

theorem dedup_resurfaces_witness:
  "last (snd (admit_run ([([], sample_alert, 2000000000), ([], sample_alert, 3000000000)] @ [] @
      [([], sample_alert, 6000000000)]) sample_seen)) =
   (sample_alert\<lparr>al_Suppressed := of_nat 2\<rparr>, True)"
proof -
  have "al_Suppressed sample_alert = 0" by (simp add: sample_alert_def)
  moreover have "repeats (dedupKey [] sample_alert) [([], sample_alert, 2000000000), ([], sample_alert, 3000000000)] = 2"
    by (simp add: repeats_def)
  ultimately show ?thesis
    using dedup_resurfaces [OF sample_deduper_new _ _ sample_first sample_roomy, of "[]"
        "[([], sample_alert, 2000000000), ([], sample_alert, 3000000000)]" "[]" "[]" sample_alert 6000000000]
    by (simp add: sane_window_def within_window_def repeats_def)
qed

section \<open>The identity of a finding\<close>

lemma key_args_fields:
  "list_all (\<lambda>k. case map_of m k of None \<Rightarrow> True | Some v \<Rightarrow> CHR ''|'' \<notin> set (k @ ''='' @ v)) ks \<Longrightarrow>
   CHR ''|'' \<notin> set x \<Longrightarrow>
   split_on (CHR ''|'') (x @ key_args m ks) =
     x # concat (map (\<lambda>k. case map_of m k of None \<Rightarrow> [] | Some v \<Rightarrow> [k @ ''='' @ v]) ks)"
proof (induction ks arbitrary: x)
  case Nil
  then show ?case by (simp add: split_on_no_sep)
next
  case (Cons k ks)
  show ?case
  proof (cases "map_of m k")
    case None
    with Cons show ?thesis by simp
  next
    case (Some v)
    with Cons.prems Cons.IH [of "k @ ''='' @ v"] show ?thesis
      by (simp add: split_on_append)
  qed
qed

definition plain :: "string \<Rightarrow> bool" where
  "plain s \<longleftrightarrow> CHR ''|'' \<notin> set s"

definition plain_args :: "args \<Rightarrow> bool" where
  "plain_args m \<longleftrightarrow> list_all (\<lambda>k. plain (mapget k m)) identityArgs"

lemma plain_args_fields:
  "plain_args m \<Longrightarrow>
   list_all (\<lambda>k. case map_of m k of None \<Rightarrow> True | Some v \<Rightarrow> CHR ''|'' \<notin> set (k @ ''='' @ v)) identityArgs"
  by (simp add: plain_args_def plain_def mapget_def identityArgs_def split: option.splits)

definition key_fields :: "args \<Rightarrow> string list \<Rightarrow> string list" where
  "key_fields m ks = concat (map (\<lambda>k. case map_of m k of None \<Rightarrow> [] | Some v \<Rightarrow> [k @ ''='' @ v]) ks)"

lemma key_fields_names:
  "f \<in> set (key_fields m ks) \<longleftrightarrow> (\<exists>k \<in> set ks. \<exists>v. map_of m k = Some v \<and> f = k @ ''='' @ v)"
proof (induction ks)
  case Nil
  then show ?case by (simp add: key_fields_def)
next
  case (Cons k ks)
  then show ?case by (cases "map_of m k") (simp_all add: key_fields_def)
qed

lemma key_fields_inject:
  assumes "key_fields m ks = key_fields m' ks" and "\<forall>k \<in> set ks. CHR ''='' \<notin> set k" and "k \<in> set ks"
  shows "map_of m k = map_of m' k"
proof -
  have sub: "map_of m2 k = Some v" if "key_fields m1 ks = key_fields m2 ks" "map_of m1 k = Some v" for m1 m2 v
  proof -
    have "k @ ''='' @ v \<in> set (key_fields m1 ks)" using that(2) assms(3) by (auto simp: key_fields_names)
    then have "\<exists>k' \<in> set ks. \<exists>v'. map_of m2 k' = Some v' \<and> k @ ''='' @ v = k' @ ''='' @ v'"
      unfolding that(1) key_fields_names .
    then obtain k' v' where k': "k' \<in> set ks" "map_of m2 k' = Some v'" "k @ ''='' @ v = k' @ ''='' @ v'"
      by blast
    then have "k = k' \<and> v = v'"
      using append_sep_inject [of k "CHR ''=''" v k' v'] assms(2,3) by simp
    with k' show ?thesis by simp
  qed
  from sub [OF assms(1)] sub [OF assms(1) [symmetric]] show ?thesis
    by (metis not_Some_eq)
qed

lemma identity_no_eq: "\<forall>k \<in> set identityArgs. CHR ''='' \<notin> set k"
  by (simp add: identityArgs_def)

lemma plain_FormatUint: "plain (FormatUint v)"
  using not_in_dec [of "CHR ''|''"] by (simp add: plain_def FormatUint_def)

lemma dedupKey_fields:
  assumes "plain (al_Rule a)" "plain (al_MitreID a)" "plain (al_Syscall a)" "plain_args (argsOf m a)"
  shows "split_on (CHR ''|'') (dedupKey m a) =
    [al_Rule a, FormatUint (al_PID a), al_MitreID a, al_Syscall a] @ key_fields (argsOf m a) identityArgs"
  using assms plain_FormatUint [of "al_PID a"]
    key_args_fields [OF plain_args_fields [OF assms(4)], of "al_Syscall a"]
  by (simp add: dedupKey_def split_on_append key_fields_def plain_def)

text \<open>Findings are folded together only when they are the same finding: equal keys mean the same
  rule, process, technique, system call and identifying arguments (path, request, targets,
  destination), provided no field contains the separator.\<close>

theorem dedupKey_identity:
  assumes "dedupKey m a = dedupKey m' b"
    and "list_all plain [al_Rule a, al_MitreID a, al_Syscall a, al_Rule b, al_MitreID b, al_Syscall b]"
    and "plain_args (argsOf m a)" and "plain_args (argsOf m' b)"
  shows "al_Rule a = al_Rule b \<and> al_PID a = al_PID b \<and> al_MitreID a = al_MitreID b \<and>
    al_Syscall a = al_Syscall b \<and>
    list_all (\<lambda>k. map_of (argsOf m a) k = map_of (argsOf m' b) k) identityArgs"
proof -
  have fields: "[al_Rule a, FormatUint (al_PID a), al_MitreID a, al_Syscall a] @ key_fields (argsOf m a) identityArgs =
      [al_Rule b, FormatUint (al_PID b), al_MitreID b, al_Syscall b] @ key_fields (argsOf m' b) identityArgs"
    using dedupKey_fields [of a m] dedupKey_fields [of b m'] assms by simp
  then have "key_fields (argsOf m a) identityArgs = key_fields (argsOf m' b) identityArgs" by simp
  then have "list_all (\<lambda>k. map_of (argsOf m a) k = map_of (argsOf m' b) k) identityArgs"
    unfolding list_all_iff using key_fields_inject [OF _ identity_no_eq] by blast
  with fields show ?thesis by simp
qed

lemma sample_alert_fields:
  "al_Rule sample_alert = ''sensitive-file-access''" "al_MitreID sample_alert = ''T1003.008''"
  "al_Syscall sample_alert = ''connect''" "argsOf m sample_alert = m"
proof -
  have "ev_Syscall (Decode r t) = Syscall_String (r_SyscallID r)" for r t
    by (simp add: Decode_def decode_base_def Let_def)
  then have "al_Syscall sample_alert = Syscall_String SysConnect"
    by (simp add: sample_alert_def sample_raw_def)
  then show "al_Syscall sample_alert = ''connect''" by (simp add: Syscall_String_def syscallNames_def)
qed (simp_all add: sample_alert_def argsOf_def TechEtcShadow_def technique_def)

theorem dedupKey_identity_witness:
  "list_all (\<lambda>k. map_of (argsOf [(''path'', ''/etc/shadow''), (''flags'', ''O_RDONLY'')] sample_alert) k =
     map_of (argsOf [(''path'', ''/etc/shadow''), (''flags'', ''O_RDWR'')] sample_alert) k) identityArgs"
  using dedupKey_identity [of "[(''path'', ''/etc/shadow''), (''flags'', ''O_RDONLY'')]" sample_alert
      "[(''path'', ''/etc/shadow''), (''flags'', ''O_RDWR'')]" sample_alert]
  by (simp add: dedupKey_def sample_alert_fields plain_args_def plain_def identityArgs_def mapget_def)

section \<open>Accounting\<close>

text \<open>Nothing is lost in the accounting: over any run, the running total of folded alerts grows by
  exactly the number of refused calls.\<close>

theorem dedup_total_counts_refusals:
  "dd_total (fst (admit_run calls d)) =
     dd_total d + of_nat (length (filter (\<lambda>v. \<not> snd v) (snd (admit_run calls d))))"
proof (induction calls d rule: admit_run.induct)
  case (2 m a now calls d)
  obtain d1 r where step: "admit_key (dedupKey m a) now a (deduper_maybeSweep now d) = (d1, r)"
    by (rule prod.exhaust)
  then have "dd_total d1 = dd_total d + (if snd r then 0 else 1)"
    by (auto simp: admit_key_def split: option.splits if_splits)
  with 2 [OF step [symmetric], of "fst r" "snd r"] step show ?case
    by (simp add: run_Cons Let_def)
qed simp

end
