(* ===== verification/Storyline.thy ===== *)
theory Storyline
  imports Rules GoTime
begin

text \<open>
  \<^verbatim>\<open>detect/storyline.go\<close>: the correlator that groups alerts of one process tree into storylines.

  The map \<open>byPID\<close> holds pointers: several processes share one \<open>*storyline\<close>, and an update through one
  of them is seen through all.  The model keeps the storylines in the store \<open>co_heap\<close> and \<open>byPID\<close> maps
  to addresses, so that identity of stories (\<open>containsStory\<close>) is equality of addresses.  Sets of
  processes are lists of their members.  The nodes of the lineage are only reached through the map and
  are stored in it.  \<open>len\<close> and the alert counter are natural numbers.
\<close>

section \<open>Data\<close>

definition tacticsByTechnique :: "(string, Tactic) gomap" where
  "tacticsByTechnique =
     [(''T1548'', TacticPrivEsc), (''T1068'', TacticPrivEsc), (''T1003'', TacticCredentialAccess),
      (''T1552'', TacticCredentialAccess), (''T1055'', TacticDefenseEvasion),
      (''T1059'', TacticExecution), (''T1071'', TacticCommandControl)]"

definition TacticsFor :: "Alert \<Rightarrow> Tactic list" where
  "TacticsFor a =
     (case map_of tacticsByTechnique (cut_before (CHR ''.'') (al_MitreID a)) of None \<Rightarrow> [] | Some t \<Rightarrow> [t]) @
     (if al_Rule a = RuleNameReverseShell then [TacticCommandControl] else [])"

definition sessionBoundaries :: "string list" where
  "sessionBoundaries =
     [''systemd'', ''init'', ''sshd'', ''sshd-session'', ''login'', ''containerd-shim'',
      ''containerd-shim-runc-v2'', ''conmon'', ''runc'', ''cron'', ''crond'', ''tmux: server'',
      ''screen'', ''kthreadd'']"

definition maxAncestry :: nat where [simp]: "maxAncestry = 16"

definition maxStorySteps :: nat where [simp]: "maxStorySteps = 24"

definition maxLineage :: nat where [simp]: "maxLineage = 65536"

definition lineageSweepEvery :: Duration where [simp]: "lineageSweepEvery = 30000000000"

record procNode =
  pn_ppid :: u32
  pn_comm :: string
  pn_lastSeen :: u64

record storyline =
  sl_id :: string
  sl_root :: u32
  sl_rootComm :: string
  sl_members :: "u32 list"
  sl_tactics :: "Tactic list"
  sl_techniques :: "string list"
  sl_procs :: "string list"
  sl_steps :: "StoryStep list"
  sl_alerts :: nat
  sl_firstTS :: u64
  sl_lastTS :: u64
  sl_reportedN :: nat

record Correlator =
  co_cfg :: StorylineConfig
  co_lineage :: "(u32, procNode) gomap"
  co_byPID :: "(u32, nat) gomap"
  co_heap :: "storyline list"
  co_seq :: u64
  co_lastSweep :: u64
  co_chains :: u64

section \<open>Steps and small helpers\<close>

fun oldest_plain :: "StoryStep list \<Rightarrow> nat option" where
  "oldest_plain [] = None"
| "oldest_plain (st # sts) =
     (if \<not> st_pivotal st then Some 0 else map_option Suc (oldest_plain sts))"

definition drop_at :: "nat \<Rightarrow> 'a list \<Rightarrow> 'a list" where
  "drop_at i xs = take i xs @ drop (Suc i) xs"

definition addStep :: "storyline \<Rightarrow> StoryStep \<Rightarrow> storyline" where
  "addStep s st =
     (if maxStorySteps \<le> length (sl_steps s) then
        (case oldest_plain (sl_steps s) of
           None \<Rightarrow> if \<not> st_pivotal st then s else s\<lparr>sl_steps := drop_at 0 (sl_steps s) @ [st]\<rparr>
         | Some evict \<Rightarrow> s\<lparr>sl_steps := drop_at evict (sl_steps s) @ [st]\<rparr>)
      else s\<lparr>sl_steps := sl_steps s @ [st]\<rparr>)"

definition hasTactic :: "storyline \<Rightarrow> Tactic \<Rightarrow> bool" where
  "hasTactic s t \<longleftrightarrow> t \<in> set (sl_tactics s)"

definition appendUnique :: "'a list \<Rightarrow> 'a \<Rightarrow> 'a list" where
  "appendUnique xs v = (if v \<in> set xs then xs else xs @ [v])"

definition tacticNames :: "Tactic list \<Rightarrow> string" where
  "tacticNames ts = join '' + '' (map tac_Name ts)"

fun first_present :: "args \<Rightarrow> string list \<Rightarrow> string option" where
  "first_present m [] = None"
| "first_present m (k # ks) = (case map_of m k of Some v \<Rightarrow> Some v | None \<Rightarrow> first_present m ks)"

definition stepSummary :: "args \<Rightarrow> Alert \<Rightarrow> string" where
  "stepSummary evArgs a =
    (let m = argsOf evArgs a in
     if al_Rule a = RuleNameReverseShell then
       (if mapget ''chain_dest'' m \<noteq> [] then ''reverse shell to '' @ mapget ''chain_dest'' m
        else ''reverse shell'')
     else if al_Rule a = RuleNameProcessInjection then
       ''ptrace '' @ mapget ''request'' m @ '' '' @ rarrow @ '' pid '' @ mapget ''target_pid'' m
     else if mapget ''path'' m \<noteq> [] then al_Syscall a @ '' '' @ mapget ''path'' m
     else case first_present m [''target_uid'', ''target_gid''] of
       Some v \<Rightarrow> al_Syscall a @ ''('' @ v @ '')''
     | None \<Rightarrow>
       (case map_of m ''ruid'' of
          Some v \<Rightarrow> al_Syscall a @ ''('' @ v @ '','' @ mapget ''euid'' m @ '','' @ mapget ''suid'' m @ '')''
        | None \<Rightarrow>
          (case map_of m ''rgid'' of
             Some v \<Rightarrow> al_Syscall a @ ''('' @ v @ '','' @ mapget ''egid'' m @ '','' @ mapget ''sgid'' m @ '')''
           | None \<Rightarrow> al_Syscall a)))"

section \<open>The correlator\<close>

definition NewCorrelator :: "StorylineConfig \<Rightarrow> Correlator option" where
  "NewCorrelator cfg =
    (if \<not> sc_Enabled cfg then None
     else
       let cfg = (if sc_Threshold cfg < 2 then cfg\<lparr>sc_Threshold := 2\<rparr> else cfg);
           cfg = (if sint (sc_Window cfg) \<le> 0 then cfg\<lparr>sc_Window := sc_Window DefaultStorylineConfig\<rparr> else cfg)
       in Some \<lparr>co_cfg = cfg, co_lineage = [], co_byPID = [], co_heap = [], co_seq = 0,
                co_lastSweep = 0, co_chains = 0\<rparr>)"

definition story_expired :: "Correlator \<Rightarrow> u64 \<Rightarrow> nat \<Rightarrow> bool" where
  "story_expired c now a \<longleftrightarrow>
     sl_lastTS (co_heap c ! a) < now \<and> sc_Window (co_cfg c) < now - sl_lastTS (co_heap c ! a)"

definition live_byPID :: "Correlator \<Rightarrow> u64 \<Rightarrow> (u32, nat) gomap" where
  "live_byPID c now = filter (\<lambda>e. \<not> story_expired c now (snd e)) (co_byPID c)"

text \<open>A node goes when it is old and no live story still resolves through it.\<close>

definition node_stale :: "u64 \<Rightarrow> Correlator \<Rightarrow> u32 \<times> procNode \<Rightarrow> bool" where
  "node_stale now c e \<longleftrightarrow>
     map_of (live_byPID c now) (fst e) = None \<and>
     pn_lastSeen (snd e) < now \<and> sc_Window (co_cfg c) < now - pn_lastSeen (snd e)"

definition Correlator_maybeSweep :: "u64 \<Rightarrow> Correlator \<Rightarrow> Correlator" where
  "Correlator_maybeSweep now c =
     (if co_lastSweep c \<noteq> 0 \<and> now - co_lastSweep c < lineageSweepEvery \<and> length (co_lineage c) < maxLineage
      then c
      else let kept = filter (\<lambda>e. \<not> node_stale now c e) (co_lineage c)
           in c\<lparr>co_lastSweep := now, co_byPID := live_byPID c now,
                co_lineage := (if maxLineage \<le> length kept then [] else kept)\<rparr>)"

definition Correlator_learn :: "Event \<Rightarrow> Correlator \<Rightarrow> Correlator" where
  "Correlator_learn ev c =
     c\<lparr>co_lineage := mapset (ev_PID ev)
         \<lparr>pn_ppid = ev_PPID ev, pn_comm = ev_Comm ev, pn_lastSeen = ev_Timestamp ev\<rparr> (co_lineage c)\<rparr>"

definition Correlator_Observe :: "Event \<Rightarrow> Correlator \<Rightarrow> Correlator" where
  "Correlator_Observe ev c =
     (if ev_PID ev = 0 then c
      else Correlator_learn ev (Correlator_maybeSweep (ev_Timestamp ev) c))"

definition Correlator_Storylines :: "Correlator option \<Rightarrow> nat" where
  "Correlator_Storylines c = (case c of None \<Rightarrow> 0 | Some c \<Rightarrow> length (remdups (map snd (co_byPID c))))"

definition Correlator_Chains :: "Correlator option \<Rightarrow> u64" where
  "Correlator_Chains c = (case c of None \<Rightarrow> 0 | Some c \<Rightarrow> co_chains c)"

definition Correlator_node :: "Correlator \<Rightarrow> u32 \<Rightarrow> u64 \<Rightarrow> Correlator \<times> procNode option" where
  "Correlator_node c pid now =
     (case map_of (co_lineage c) pid of
        Some n \<Rightarrow> (c, Some n)
      | None \<Rightarrow>
          (case sc_Lookup (co_cfg c) of
             None \<Rightarrow> (c, None)
           | Some lookup \<Rightarrow>
               (case lookup pid of
                  None \<Rightarrow> (c, None)
                | Some (ppid, comm) \<Rightarrow>
                    (let n = \<lparr>pn_ppid = ppid, pn_comm = comm, pn_lastSeen = now\<rparr>
                     in (c\<lparr>co_lineage := mapset pid n (co_lineage c)\<rparr>, Some n)))))"

text \<open>The loop of \<open>ancestry\<close>.  The set \<open>seen\<close> always equals the elements of \<open>chain\<close>.\<close>

function ancestry_loop :: "u64 \<Rightarrow> Correlator \<Rightarrow> u32 list \<Rightarrow> u32 \<Rightarrow> Correlator \<times> u32 list" where
  "ancestry_loop now c chain cur =
     (if \<not> length chain < maxAncestry then (c, chain)
      else if cur \<le> 2 \<or> cur \<in> set chain then (c, chain)
      else case Correlator_node c cur now of
        (c, None) \<Rightarrow> (c, chain @ [cur])
      | (c, Some n) \<Rightarrow>
          if pn_comm n \<in> set sessionBoundaries then (c, chain)
          else ancestry_loop now c (chain @ [cur]) (pn_ppid n))"
  by pat_completeness auto
termination
  by (relation "measure (\<lambda>(now, c, chain, cur). maxAncestry - length chain)") auto

declare ancestry_loop.simps [simp del]

definition ancestry :: "Correlator \<Rightarrow> u32 \<Rightarrow> u32 \<Rightarrow> u64 \<Rightarrow> Correlator \<times> u32 list" where
  "ancestry c pid ppid now = ancestry_loop now c [pid] ppid"

definition commOf :: "Correlator \<Rightarrow> u32 \<Rightarrow> string" where
  "commOf c pid = (case map_of (co_lineage c) pid of Some n \<Rightarrow> pn_comm n | None \<Rightarrow> ''?'')"

definition set_story :: "nat \<Rightarrow> storyline \<Rightarrow> Correlator \<Rightarrow> Correlator" where
  "set_story a s c = c\<lparr>co_heap := (co_heap c)[a := s]\<rparr>"

definition claim_pids :: "u32 list \<Rightarrow> nat \<Rightarrow> Correlator \<Rightarrow> Correlator" where
  "claim_pids pids a c = c\<lparr>co_byPID := fold (\<lambda>pid m. mapset pid a m) pids (co_byPID c)\<rparr>"

text \<open>\<open>merge(dst, src)\<close>, on the records and on the pointers.\<close>

definition merge_steps :: "storyline \<Rightarrow> storyline \<Rightarrow> StoryStep list" where
  "merge_steps dst src =
    (let shift = milliseconds (sl_firstTS src - sl_firstTS dst);
         moved = map (\<lambda>st. st\<lparr>st_OffsetMS := st_OffsetMS st + shift\<rparr>) (sl_steps src)
     in sort_key (\<lambda>st. sint (st_OffsetMS st)) (sl_steps dst @ moved))"

definition merge_into :: "storyline \<Rightarrow> storyline \<Rightarrow> storyline" where
  "merge_into dst src =
    (let merged = merge_steps dst src;
         dst = dst\<lparr>sl_members := fold (\<lambda>pid ms. appendUnique ms pid) (sl_members src) (sl_members dst),
                   sl_tactics := fold (\<lambda>t ts. appendUnique ts t) (sl_tactics src) (sl_tactics dst),
                   sl_techniques := fold (\<lambda>t ts. appendUnique ts t) (sl_techniques src) (sl_techniques dst),
                   sl_procs := fold (\<lambda>p ps. appendUnique ps p) (sl_procs src) (sl_procs dst),
                   sl_steps := []\<rparr>;
         dst = fold (\<lambda>st s. addStep s st) merged dst
     in dst\<lparr>sl_alerts := sl_alerts dst + sl_alerts src,
            sl_lastTS := (if sl_lastTS dst < sl_lastTS src then sl_lastTS src else sl_lastTS dst),
            sl_reportedN := (if sl_reportedN dst < sl_reportedN src then sl_reportedN src else sl_reportedN dst)\<rparr>)"

definition Correlator_merge :: "Correlator \<Rightarrow> nat \<Rightarrow> nat \<Rightarrow> Correlator" where
  "Correlator_merge c dst src =
     set_story dst (merge_into (co_heap c ! dst) (co_heap c ! src))
       (claim_pids (sl_members (co_heap c ! src)) dst c)"

fun found_stories :: "Correlator \<Rightarrow> u64 \<Rightarrow> u32 list \<Rightarrow> nat list \<Rightarrow> nat list" where
  "found_stories c now [] found = found"
| "found_stories c now (pid # pids) found =
     (case map_of (co_byPID c) pid of
        None \<Rightarrow> found_stories c now pids found
      | Some s \<Rightarrow>
          if story_expired c now s then found_stories c now pids found
          else found_stories c now pids (appendUnique found s))"

fun absorb_stories :: "Correlator \<Rightarrow> nat \<Rightarrow> nat list \<Rightarrow> Correlator \<times> nat" where
  "absorb_stories c s [] = (c, s)"
| "absorb_stories c s (other # others) =
     (if sl_firstTS (co_heap c ! other) < sl_firstTS (co_heap c ! s)
      then absorb_stories (Correlator_merge c other s) other others
      else absorb_stories (Correlator_merge c s other) s others)"

definition fresh_story :: "Correlator \<Rightarrow> u32 \<Rightarrow> u64 \<Rightarrow> storyline" where
  "fresh_story c tip now =
     \<lparr>sl_id = ''ks-'' @ FormatUint tip @ ''-'' @ FormatUint (co_seq c), sl_root = tip,
      sl_rootComm = commOf c tip, sl_members = [], sl_tactics = [], sl_techniques = [], sl_procs = [],
      sl_steps = [], sl_alerts = 0, sl_firstTS = now, sl_lastTS = 0, sl_reportedN = 0\<rparr>"

definition pick_story :: "Correlator \<Rightarrow> u32 list \<Rightarrow> u64 \<Rightarrow> Correlator \<times> nat" where
  "pick_story c chain now =
     (case found_stories c now chain [] of
        [] \<Rightarrow>
          (let c = c\<lparr>co_seq := co_seq c + 1\<rparr>
           in (c\<lparr>co_heap := co_heap c @ [fresh_story c (last chain) now]\<rparr>, length (co_heap c)))
      | s # others \<Rightarrow> absorb_stories c s others)"

definition join_chain :: "u32 list \<Rightarrow> nat \<Rightarrow> Correlator \<Rightarrow> Correlator" where
  "join_chain chain a c =
    (let s = co_heap c ! a;
         s = s\<lparr>sl_members := fold (\<lambda>pid ms. appendUnique ms pid) chain (sl_members s)\<rparr>;
         tip = last chain;
         s = (if tip \<noteq> sl_root s \<and> sl_root s \<in> set chain
              then s\<lparr>sl_root := tip, sl_rootComm := commOf c tip\<rparr> else s)
     in claim_pids chain a (set_story a s c))"

definition storyFor :: "Correlator \<Rightarrow> u32 list \<Rightarrow> u64 \<Rightarrow> Correlator \<times> nat" where
  "storyFor c chain now =
     (case pick_story c chain now of (c, a) \<Rightarrow> (join_chain chain a c, a))"

definition chainAlert :: "Alert \<Rightarrow> storyline \<Rightarrow> Alert" where
  "chainAlert trigger s =
    (let names = map tac_Name (sl_tactics s); ids = map tac_ID (sl_tactics s);
         span = sl_lastTS s - sl_firstTS s;
         root = sl_rootComm s @ ''['' @ FormatUint (sl_root s) @ '']'';
         arrow = '' '' @ rarrow @ '' ''
     in \<lparr>al_Timestamp = al_Timestamp trigger, al_PID = al_PID trigger, al_TID = al_TID trigger,
         al_PPID = al_PPID trigger, al_Comm = al_Comm trigger, al_UID = al_UID trigger,
         al_GID = al_GID trigger, al_Syscall = al_Syscall trigger,
         al_Args = OwnArgs
           [(''tactics'', join arrow names), (''tactic_ids'', join '','' ids),
            (''techniques'', join '','' (sl_techniques s)), (''processes'', join '','' (sl_procs s)),
            (''root'', root), (''alert_count'', dec (sl_alerts s)),
            (''span_ms'', FormatInt (milliseconds span))],
         al_MitreID = join '','' (sl_techniques s),
         al_MitreTechnique = ''Multi-stage attack: '' @ join '', '' names,
         al_Severity = SeverityCritical,
         al_Description =
           ''Multi-stage attack in the process tree of '' @ root @ '': '' @ join arrow names @ '' ('' @
           dec (length (sl_tactics s)) @ '' tactics, '' @ dec (sl_alerts s) @ '' alerts, '' @
           dec (length (sl_procs s)) @ '' processes, '' @ Duration_String (round_ms span) @ '')'',
         al_Rule = RuleNameAttackChain, al_Storyline = sl_id s, al_Suppressed = 0,
         al_Story = sl_steps s\<rparr>)"

text \<open>What \<open>Correlate\<close> writes into the storyline before it decides.\<close>

definition file_alert :: "args \<Rightarrow> u64 \<Rightarrow> Alert \<Rightarrow> storyline \<Rightarrow> storyline \<times> bool" where
  "file_alert evArgs now a s =
    (let s = s\<lparr>sl_alerts := Suc (sl_alerts s), sl_lastTS := now\<rparr>;
         newTactic = (\<exists>t \<in> set (TacticsFor a). \<not> hasTactic s t);
         s = s\<lparr>sl_tactics := fold (\<lambda>t ts. appendUnique ts t) (TacticsFor a) (sl_tactics s),
               sl_techniques := appendUnique (sl_techniques s) (al_MitreID a),
               sl_procs := appendUnique (sl_procs s) (al_Comm a @ ''['' @ FormatUint (al_PID a) @ '']'')\<rparr>
     in (addStep s
           \<lparr>st_OffsetMS = milliseconds (now - sl_firstTS s), st_PID = al_PID a, st_Comm = al_Comm a,
            st_Rule = al_Rule a, st_MitreID = al_MitreID a, st_Tactic = tacticNames (TacticsFor a),
            st_Summary = stepSummary evArgs a, st_pivotal = newTactic\<rparr>, newTactic))"

text \<open>The event's argument map is that of the moment of the call.  Returns the correlator, the alert with
  its storyline id, and the attack-chain alert if one is raised.\<close>

definition Correlate ::
  "Correlator \<Rightarrow> args \<Rightarrow> Event \<Rightarrow> Alert \<Rightarrow> Correlator \<times> Alert \<times> Alert option" where
  "Correlate c evArgs ev a =
    (let now = ev_Timestamp ev;
         (c, chain) = ancestry c (ev_PID ev) (ev_PPID ev) now;
         (c, p) = storyFor c chain now;
         a = a\<lparr>al_Storyline := sl_id (co_heap c ! p)\<rparr>;
         (s, newTactic) = file_alert evArgs now a (co_heap c ! p);
         n = length (sl_tactics s)
     in if \<not> newTactic \<or> int n < sc_Threshold (co_cfg c) \<or> n \<le> sl_reportedN s
        then (set_story p s c, a, None)
        else let s = s\<lparr>sl_reportedN := n\<rparr>
             in ((set_story p s c)\<lparr>co_chains := co_chains c + 1\<rparr>, a, Some (chainAlert a s)))"

section \<open>Turning points\<close>

lemma oldest_plain_Some: "oldest_plain sts = Some i \<Longrightarrow> i < length sts \<and> \<not> st_pivotal (sts ! i)"
  by (induction sts arbitrary: i) (auto split: if_splits)

lemma oldest_plain_None: "oldest_plain sts = None \<longleftrightarrow> list_all st_pivotal sts"
  by (induction sts) auto

lemma filter_drop_at: "i < length xs \<Longrightarrow> \<not> P (xs ! i) \<Longrightarrow> filter P (drop_at i xs) = filter P xs"
  by (subst (2) id_take_nth_drop [of i xs]) (simp_all add: drop_at_def)

lemma length_drop_at: "i < length xs \<Longrightarrow> length (drop_at i xs) = length xs - 1"
  by (simp add: drop_at_def)

lemma subseq_drop_at: "subseq (drop_at i xs) xs"
proof -
  have "subseq (drop (Suc i) xs) (drop i xs)"
  proof (cases "i < length xs")
    case True
    then show ?thesis by (metis Cons_nth_drop_Suc list_emb_Cons subseq_order.order_refl)
  qed simp
  then have "subseq (take i xs @ drop (Suc i) xs) (take i xs @ drop i xs)"
    by (rule list_emb_append_mono [OF subseq_order.order_refl])
  then show ?thesis by (simp add: drop_at_def)
qed

lemma addStep_fields [simp]:
  "sl_id (addStep s st) = sl_id s" "sl_root (addStep s st) = sl_root s"
  "sl_members (addStep s st) = sl_members s" "sl_tactics (addStep s st) = sl_tactics s"
  "sl_techniques (addStep s st) = sl_techniques s" "sl_procs (addStep s st) = sl_procs s"
  "sl_alerts (addStep s st) = sl_alerts s" "sl_firstTS (addStep s st) = sl_firstTS s"
  "sl_lastTS (addStep s st) = sl_lastTS s" "sl_reportedN (addStep s st) = sl_reportedN s"
  by (auto simp: addStep_def split: option.split)

lemma addStep_bound:
  assumes "length (sl_steps s) \<le> maxStorySteps"
  shows "length (sl_steps (addStep s st)) \<le> maxStorySteps"
  using assms oldest_plain_Some [of "sl_steps s"]
  by (auto simp: addStep_def drop_at_def split: option.split)

text \<open>A full story makes room without losing a turning point: as long as fewer than 24 of its steps
  introduced a tactic, adding a step keeps all of those and their order, keeps the new step as the
  last one, and leaves at most 24 steps, all of them from the story or the new one.\<close>

theorem addStep_keeps_turning_points:
  assumes "length (sl_steps s) \<le> 24" and "length (filter st_pivotal (sl_steps s)) < 24"
  shows "filter st_pivotal (sl_steps (addStep s st)) = filter st_pivotal (sl_steps s @ [st]) \<and>
    last (sl_steps (addStep s st)) = st \<and> length (sl_steps (addStep s st)) \<le> 24 \<and>
    subseq (sl_steps (addStep s st)) (sl_steps s @ [st])"
proof (cases "24 \<le> length (sl_steps s)")
  case True
  have "\<not> list_all st_pivotal (sl_steps s)"
  proof
    assume "list_all st_pivotal (sl_steps s)"
    then have "filter st_pivotal (sl_steps s) = sl_steps s" by (simp add: filter_id_conv list_all_iff)
    with assms(2) True show False by simp
  qed
  then obtain i where i: "oldest_plain (sl_steps s) = Some i" using oldest_plain_None by blast
  then have st: "sl_steps (addStep s st) = drop_at i (sl_steps s) @ [st]"
    using True by (simp add: addStep_def)
  show ?thesis
    using oldest_plain_Some [OF i] assms(1) subseq_drop_at [of i "sl_steps s"]
    by (simp add: st filter_drop_at length_drop_at list_emb_append_mono)
next
  case False
  then show ?thesis by (simp add: addStep_def)
qed

definition sample_step :: "bool \<Rightarrow> u32 \<Rightarrow> StoryStep" where
  "sample_step piv pid =
     \<lparr>st_OffsetMS = 0, st_PID = pid, st_Comm = [], st_Rule = [], st_MitreID = [], st_Tactic = [],
      st_Summary = [], st_pivotal = piv\<rparr>"

definition noisy_story :: storyline where
  "noisy_story =
     \<lparr>sl_id = ''ks-1-1'', sl_root = 1, sl_rootComm = [], sl_members = [], sl_tactics = [], sl_techniques = [],
      sl_procs = [], sl_steps = sample_step True 1 # replicate 23 (sample_step False 2), sl_alerts = 24,
      sl_firstTS = 0, sl_lastTS = 0, sl_reportedN = 0\<rparr>"

theorem addStep_keeps_turning_points_witness:
  "filter st_pivotal (sl_steps (addStep noisy_story (sample_step True 3))) =
     [sample_step True 1, sample_step True 3] \<and>
   length (sl_steps (addStep noisy_story (sample_step True 3))) \<le> 24"
  using addStep_keeps_turning_points [of noisy_story "sample_step True 3"]
  by (simp add: noisy_story_def sample_step_def)

section \<open>Ancestry\<close>

definition known_boundary :: "Correlator \<Rightarrow> u32 \<Rightarrow> bool" where
  "known_boundary c pid = (case map_of (co_lineage c) pid of None \<Rightarrow> False | Some n \<Rightarrow> pn_comm n \<in> set sessionBoundaries)"

definition parent_of :: "Correlator \<Rightarrow> u32 \<Rightarrow> u32 option" where
  "parent_of c pid = map_option pn_ppid (map_of (co_lineage c) pid)"

lemma node_result:
  "Correlator_node c pid now = (c', n) \<Longrightarrow> map_of (co_lineage c') pid = n"
  by (auto simp: Correlator_node_def Let_def split: option.splits)

lemma node_extends:
  "Correlator_node c pid now = (c', n) \<Longrightarrow> map_of (co_lineage c) \<subseteq>\<^sub>m map_of (co_lineage c')"
  by (auto simp: Correlator_node_def Let_def map_le_def split: option.splits if_splits)

lemma node_keeps [keep]:
  "Correlator_node c pid now = (c', n) \<Longrightarrow> \<exists>l. c' = c\<lparr>co_lineage := l\<rparr> \<and> length l \<le> Suc (length (co_lineage c)) \<and>
     (distinct_keys (co_lineage c) \<longrightarrow> distinct_keys l)"
  by (auto simp: Correlator_node_def Let_def length_mapset_le split: option.splits intro: exI [of _ "co_lineage c"])

text \<open>The invariant of the loop: every ancestor so far is known, is no boundary and is the recorded parent
  of its predecessor.\<close>

definition climbed :: "Correlator \<Rightarrow> u32 \<Rightarrow> u32 list \<Rightarrow> u32 \<Rightarrow> bool" where
  "climbed c ppid ups cur \<longleftrightarrow>
     list_all (\<lambda>p. 2 < p \<and> \<not> known_boundary c p \<and> map_of (co_lineage c) p \<noteq> None) ups \<and>
     successively (\<lambda>p q. parent_of c p = Some q) ups \<and>
     (if ups = [] then cur = ppid else hd ups = ppid \<and> parent_of c (last ups) = Some cur)"

lemma climbed_extends:
  assumes "climbed c ppid ups cur" and "map_of (co_lineage c) \<subseteq>\<^sub>m map_of (co_lineage c')"
  shows "climbed c' ppid ups cur"
proof -
  have same: "map_of (co_lineage c') p = map_of (co_lineage c) p" if "p \<in> set ups" for p
  proof -
    have "map_of (co_lineage c) p \<noteq> None" using that assms(1) by (simp add: climbed_def list_all_iff)
    then show ?thesis using assms(2) by (auto simp: map_le_def dom_def)
  qed
  then have "known_boundary c' p = known_boundary c p" "parent_of c' p = parent_of c p" if "p \<in> set ups" for p
    using that by (simp_all add: known_boundary_def parent_of_def)
  with same assms(1) show ?thesis
    by (auto simp: climbed_def list_all_iff cong: successively_cong)
qed

definition good_chain :: "Correlator \<Rightarrow> u32 \<Rightarrow> u32 \<Rightarrow> u32 list \<Rightarrow> bool" where
  "good_chain c pid ppid chain \<longleftrightarrow>
     distinct chain \<and> 0 < length chain \<and> length chain \<le> 16 \<and> hd chain = pid \<and>
     list_all (\<lambda>p. 2 < p \<and> \<not> known_boundary c p) (tl chain) \<and>
     successively (\<lambda>p q. parent_of c p = Some q) (tl chain) \<and>
     (tl chain = [] \<or> hd (tl chain) = ppid)"

lemma climbed_good:
  assumes "climbed c ppid ups cur" and "distinct (pid # ups)" and "length (pid # ups) \<le> 16"
  shows "good_chain c pid ppid (pid # ups)"
  using assms by (cases ups) (auto simp: climbed_def good_chain_def list_all_iff)

lemma successively_snoc: "successively P (xs @ [x]) \<longleftrightarrow> successively P xs \<and> (xs = [] \<or> P (last xs) x)"
  by (auto simp: successively_append_iff)

lemma ancestry_loop_good:
  assumes "climbed c ppid ups cur" and "distinct (pid # ups)" and "length (pid # ups) \<le> 16"
    and "ancestry_loop now c (pid # ups) cur = (c', chain)"
  shows "good_chain c' pid ppid chain"
  using assms
proof (induction now c "pid # ups" cur arbitrary: ups rule: ancestry_loop.induct)
  case (1 now c cur)
  note step = 1(5) [unfolded ancestry_loop.simps [of now c "pid # ups" cur]]
  show ?case
  proof (cases "length (pid # ups) < maxAncestry \<and> \<not> (cur \<le> 2 \<or> cur \<in> set (pid # ups))")
    case False
    then have "c' = c \<and> chain = pid # ups" using step by (auto split: if_splits)
    then show ?thesis using climbed_good [OF 1(2,3,4)] by simp
  next
    case True
    then have more: "length (pid # ups) < maxAncestry" "2 < cur" "cur \<notin> set (pid # ups)" by auto
    obtain c1 n where node: "Correlator_node c cur now = (c1, n)" by (rule prod.exhaust)
    have up: "climbed c1 ppid ups cur" using climbed_extends [OF 1(2) node_extends [OF node]] .
    show ?thesis
    proof (cases n)
      case None
      then have res: "c' = c1" "chain = pid # ups @ [cur]" using step True node by (auto split: if_splits)
      have "\<not> known_boundary c1 cur" using node_result [OF node] None by (simp add: known_boundary_def)
      then show ?thesis
        using up more 1(3) unfolding res
        by (auto simp: climbed_def good_chain_def list_all_iff successively_snoc hd_append)
    next
      case (Some nd)
      show ?thesis
      proof (cases "pn_comm nd \<in> set sessionBoundaries")
        case b: True
        then have "c' = c1" "chain = pid # ups" using step True node Some by (auto split: if_splits)
        then show ?thesis using climbed_good [OF up 1(3,4)] by simp
      next
        case b: False
        then have rest: "ancestry_loop now c1 (pid # ups @ [cur]) (pn_ppid nd) = (c', chain)"
          using step True node Some by (auto split: if_splits)
        have "climbed c1 ppid (ups @ [cur]) (pn_ppid nd)"
          using up more(2) b node_result [OF node] Some
          by (auto simp: climbed_def successively_snoc known_boundary_def parent_of_def hd_append)
        moreover have "distinct (pid # ups @ [cur])" "length (pid # ups @ [cur]) \<le> 16"
          using 1(3) more by auto
        ultimately show ?thesis
          using 1(1) [of c1 n nd "ups @ [cur]", OF _ _ node [symmetric] Some b _ _ _ _ rest [unfolded append_Cons]] True by simp
      qed
    qed
  qed
qed

text \<open>The ancestry walk returns the alerting process followed by its chain of recorded parents: at most
  sixteen processes, none twice (so a cycle of parent links ends the walk), and no ancestor is
  init, kthreadd, the idle task or a known session boundary.\<close>

theorem ancestry_chain:
  "(case ancestry c pid ppid now of (c', chain) \<Rightarrow> good_chain c' pid ppid chain)"
  using ancestry_loop_good [of c ppid "[]" ppid pid now]
  by (cases "ancestry_loop now c [pid] ppid") (simp add: ancestry_def climbed_def)

text \<open>The walk changes nothing but the lineage cache, and that only by adding nodes.\<close>

lemma ancestry_loop_keeps:
  assumes "ancestry_loop now c chain cur = (c', chain')" and "length chain \<le> 16"
  shows "\<exists>l. c' = c\<lparr>co_lineage := l\<rparr> \<and> length l + length chain \<le> length (co_lineage c) + 16 \<and>
    (distinct_keys (co_lineage c) \<longrightarrow> distinct_keys l)"
  using assms
proof (induction now c chain cur rule: ancestry_loop.induct)
  case (1 now c chain cur)
  note step = 1(2) [unfolded ancestry_loop.simps [of now c chain cur]]
  have stay: ?case if "c' = c"
    using that 1(3) by (intro exI [of _ "co_lineage c"]) simp
  show ?case
  proof (cases "length chain < maxAncestry \<and> \<not> (cur \<le> 2 \<or> cur \<in> set chain)")
    case False
    then show ?thesis using step stay by (auto split: if_splits)
  next
    case True
    obtain c1 n where node: "Correlator_node c cur now = (c1, n)" by (rule prod.exhaust)
    obtain l1 where l1: "c1 = c\<lparr>co_lineage := l1\<rparr>" "length l1 \<le> Suc (length (co_lineage c))"
      "distinct_keys (co_lineage c) \<longrightarrow> distinct_keys l1"
      using node_keeps [OF node] by blast
    have one: ?thesis if "c' = c1" using that l1 True by (intro exI [of _ l1]) auto
    show ?thesis
    proof (cases "\<exists>nd. n = Some nd \<and> pn_comm nd \<notin> set sessionBoundaries")
      case False
      then show ?thesis using step True node one by (auto split: option.splits if_splits)
    next
      case more: True
      then obtain nd where nd: "n = Some nd" "pn_comm nd \<notin> set sessionBoundaries" by blast
      then have "ancestry_loop now c1 (chain @ [cur]) (pn_ppid nd) = (c', chain')"
        using step True node by (auto split: if_splits)
      from 1(1) [OF _ _ node [symmetric] nd this] True obtain l where
        "c' = c1\<lparr>co_lineage := l\<rparr>" "length l + length (chain @ [cur]) \<le> length (co_lineage c1) + 16"
        "distinct_keys (co_lineage c1) \<longrightarrow> distinct_keys l" by auto
      then show ?thesis using l1 by (intro exI [of _ l]) auto
    qed
  qed
qed

lemma ancestry_keeps:
  assumes "ancestry c pid ppid now = (c', chain)"
  shows "\<exists>l. c' = c\<lparr>co_lineage := l\<rparr> \<and> length l \<le> length (co_lineage c) + 15 \<and>
    (distinct_keys (co_lineage c) \<longrightarrow> distinct_keys l)"
  using ancestry_loop_keeps [of now c "[pid]" ppid c' chain] assms by (auto simp: ancestry_def)

section \<open>The lineage is bounded\<close>

lemma learn_lineage_length:
  "length (co_lineage (Correlator_learn ev c)) \<le> Suc (length (co_lineage c))"
  by (simp add: Correlator_learn_def length_mapset_le)

interpretation ln: swept_cache "\<lambda>_. True" co_lineage Correlator_maybeSweep node_stale "\<lambda>_. maxLineage"
  ev_Timestamp Correlator_learn
  by unfold_locales (auto simp: Correlator_maybeSweep_def Let_def intro: learn_lineage_length)

lemma Observe_handle: "ev_PID ev \<noteq> 0 \<Longrightarrow> Correlator_Observe ev c = ln.handle ev c"
  by (simp add: Correlator_Observe_def ln.handle_def)

lemma Observe_bounded:
  "length (co_lineage c) \<le> maxLineage \<Longrightarrow> length (co_lineage (Correlator_Observe ev c)) \<le> maxLineage"
  using ln.handle_bounded [of ev c] by (cases "ev_PID ev = 0") (simp_all add: ln.handle_def Correlator_Observe_def)

text \<open>Under any flood of processes the lineage stays bounded: after observing any sequence of events it
  has at most 65536 nodes, and resolving the ancestry of an alert through the process lookup caches
  at most fifteen more until the next event.\<close>

theorem lineage_bounded:
  "case NewCorrelator cfg of
     None \<Rightarrow> \<not> sc_Enabled cfg
   | Some c0 \<Rightarrow>
       (let c = fold Correlator_Observe evs c0
        in length (co_lineage c) \<le> 65536 \<and>
           length (co_lineage (fst (ancestry c pid ppid now))) \<le> 65536 + 15)"
proof -
  have run: "length (co_lineage c) \<le> maxLineage \<Longrightarrow>
      length (co_lineage (fold Correlator_Observe evs c)) \<le> maxLineage" for c
    by (induction evs arbitrary: c) (simp_all del: maxLineage_def add: Observe_bounded)
  have "length (co_lineage (fst (ancestry c pid ppid now))) \<le> length (co_lineage c) + 15" for c
    using ancestry_keeps [of c pid ppid now] by (cases "ancestry c pid ppid now") auto
  then have walk: "length (co_lineage (fst (ancestry c pid ppid now))) \<le> 65536 + 15"
    if "length (co_lineage c) \<le> 65536" for c using that by (meson add_le_mono1 le_trans)
  show ?thesis
  proof (cases "NewCorrelator cfg")
    case (Some c0)
    then have "co_lineage c0 = []" by (auto simp: NewCorrelator_def Let_def split: if_splits)
    then show ?thesis using run [of c0] walk [of "fold Correlator_Observe evs c0"] Some by (simp add: Let_def)
  qed (simp add: NewCorrelator_def Let_def split: if_splits)
qed

end
