(* ===== verification/StorylineInv.thy ===== *)
theory StorylineInv
  imports Storyline
begin

text \<open>
  The invariant of the correlator of \<^verbatim>\<open>detect/storyline.go\<close>, by rule induction over the states that
  observing events and correlating alerts can reach; what joining a chain does to the pointers; and
  the bound on attack-chain alerts.
\<close>

inductive correlator_reachable :: "StorylineConfig \<Rightarrow> Correlator \<Rightarrow> bool" for cfg where
  start: "NewCorrelator cfg = Some c \<Longrightarrow> correlator_reachable cfg c"
| observe: "correlator_reachable cfg c \<Longrightarrow> correlator_reachable cfg (Correlator_Observe ev c)"
| correlate: "correlator_reachable cfg c \<Longrightarrow> correlator_reachable cfg (fst (Correlate c m ev a))"

section \<open>Well-formed storylines\<close>

definition allTactics :: "Tactic list" where
  "allTactics = [TacticPrivEsc, TacticCredentialAccess, TacticDefenseEvasion, TacticExecution, TacticCommandControl]"

definition story_ok :: "storyline \<Rightarrow> bool" where
  "story_ok s \<longleftrightarrow>
     distinct (sl_members s) \<and> distinct (sl_tactics s) \<and> set (sl_tactics s) \<subseteq> set allTactics \<and>
     length (sl_steps s) \<le> 24 \<and> sl_reportedN s \<le> length (sl_tactics s)"

definition pointers_ok :: "Correlator \<Rightarrow> bool" where
  "pointers_ok c \<longleftrightarrow>
     (\<forall>pid a. map_of (co_byPID c) pid = Some a \<longrightarrow>
        a < length (co_heap c) \<and> pid \<in> set (sl_members (co_heap c ! a)))"

definition noise :: "Correlator \<Rightarrow> nat" where
  "noise c = sum_list (map (\<lambda>s. sl_reportedN s - 1) (co_heap c))"

definition correlator_ok :: "Correlator \<Rightarrow> bool" where
  "correlator_ok c \<longleftrightarrow>
     distinct_keys (co_byPID c) \<and> pointers_ok c \<and> list_all story_ok (co_heap c) \<and>
     2 \<le> sc_Threshold (co_cfg c) \<and> unat (co_chains c) \<le> noise c"

lemma set_appendUnique [simp]: "set (appendUnique xs v) = insert v (set xs)"
  by (auto simp: appendUnique_def)

lemma distinct_appendUnique [simp]: "distinct xs \<Longrightarrow> distinct (appendUnique xs v)"
  by (simp add: appendUnique_def)

lemma length_appendUnique: "length xs \<le> length (appendUnique xs v)"
  by (simp add: appendUnique_def)

lemma set_fold_appendUnique [simp]: "set (fold (\<lambda>v xs. appendUnique xs v) vs xs) = set xs \<union> set vs"
  by (induction vs arbitrary: xs) auto

lemma distinct_fold_appendUnique [simp]: "distinct xs \<Longrightarrow> distinct (fold (\<lambda>v xs. appendUnique xs v) vs xs)"
  by (induction vs arbitrary: xs) auto

lemma length_distinct_mono: "distinct xs \<Longrightarrow> distinct ys \<Longrightarrow> set xs \<subseteq> set ys \<Longrightarrow> length xs \<le> length ys"
  by (metis List.finite_set card_mono distinct_card)

lemma tactics_five: "set ts \<subseteq> set allTactics \<Longrightarrow> distinct ts \<Longrightarrow> length ts \<le> 5"
  using length_distinct_mono [of ts allTactics]
  by (simp add: allTactics_def TacticPrivEsc_def TacticCredentialAccess_def TacticDefenseEvasion_def
      TacticExecution_def TacticCommandControl_def)

lemma TacticsFor_known: "set (TacticsFor a) \<subseteq> set allTactics"
  by (auto simp: TacticsFor_def allTactics_def tacticsByTechnique_def split: option.splits if_splits)

lemma fold_addStep_keeps:
  "sl_id (fold (\<lambda>st s. addStep s st) sts s) = sl_id s"
  "sl_root (fold (\<lambda>st s. addStep s st) sts s) = sl_root s"
  "sl_members (fold (\<lambda>st s. addStep s st) sts s) = sl_members s"
  "sl_tactics (fold (\<lambda>st s. addStep s st) sts s) = sl_tactics s"
  "sl_firstTS (fold (\<lambda>st s. addStep s st) sts s) = sl_firstTS s"
  "sl_reportedN (fold (\<lambda>st s. addStep s st) sts s) = sl_reportedN s"
  by (induction sts arbitrary: s) simp_all

lemma fold_addStep_bound:
  "length (sl_steps s) \<le> maxStorySteps \<Longrightarrow> length (sl_steps (fold (\<lambda>st s. addStep s st) sts s)) \<le> maxStorySteps"
  by (induction sts arbitrary: s) (simp_all del: maxStorySteps_def add: addStep_bound)

lemma merge_into_fields:
  "sl_id (merge_into dst src) = sl_id dst" "sl_root (merge_into dst src) = sl_root dst"
  "sl_firstTS (merge_into dst src) = sl_firstTS dst"
  "set (sl_members (merge_into dst src)) = set (sl_members dst) \<union> set (sl_members src)"
  "set (sl_tactics (merge_into dst src)) = set (sl_tactics dst) \<union> set (sl_tactics src)"
  "sl_reportedN (merge_into dst src) = max (sl_reportedN dst) (sl_reportedN src)"
  by (auto simp: merge_into_def Let_def fold_addStep_keeps max_def)

lemma merge_into_ok:
  assumes "story_ok dst" and "story_ok src"
  shows "story_ok (merge_into dst src)"
proof -
  let ?m = "merge_into dst src"
  have d: "distinct (sl_members ?m)" "distinct (sl_tactics ?m)"
    using assms by (simp_all add: merge_into_def Let_def fold_addStep_keeps story_ok_def)
  have "length (sl_steps ?m) \<le> 24"
    using fold_addStep_bound [where sts = "merge_steps dst src"]
    by (simp add: merge_into_def Let_def)
  moreover have "sl_reportedN dst \<le> length (sl_tactics ?m)" "sl_reportedN src \<le> length (sl_tactics ?m)"
    using length_distinct_mono [of "sl_tactics dst" "sl_tactics ?m"]
      length_distinct_mono [of "sl_tactics src" "sl_tactics ?m"] d assms
    by (auto simp: story_ok_def merge_into_fields)
  ultimately show ?thesis using d assms by (simp add: story_ok_def merge_into_fields)
qed

section \<open>Stores and pointers\<close>

lemma map_of_claim:
  "map_of (co_byPID (claim_pids pids a c)) k = (if k \<in> set pids then Some a else map_of (co_byPID c) k)"
proof -
  have "map_of (fold (\<lambda>pid m. mapset pid a m) pids m) k = (if k \<in> set pids then Some a else map_of m k)" for m
    by (induction pids arbitrary: m) auto
  then show ?thesis by (simp add: claim_pids_def)
qed

lemma claim_distinct: "distinct_keys (co_byPID c) \<Longrightarrow> distinct_keys (co_byPID (claim_pids pids a c))"
proof -
  have "distinct_keys m \<Longrightarrow> distinct_keys (fold (\<lambda>pid m. mapset pid a m) pids m)" for m
    by (induction pids arbitrary: m) auto
  then show "distinct_keys (co_byPID c) \<Longrightarrow> ?thesis" by (simp add: claim_pids_def)
qed

lemma claim_fields [simp]:
  "co_heap (claim_pids pids a c) = co_heap c" "co_cfg (claim_pids pids a c) = co_cfg c"
  "co_chains (claim_pids pids a c) = co_chains c" "co_lineage (claim_pids pids a c) = co_lineage c"
  "co_seq (claim_pids pids a c) = co_seq c"
  by (simp_all add: claim_pids_def)

lemma set_story_fields [simp]:
  "co_heap (set_story a s c) = (co_heap c)[a := s]" "co_cfg (set_story a s c) = co_cfg c"
  "co_chains (set_story a s c) = co_chains c" "co_byPID (set_story a s c) = co_byPID c"
  "co_lineage (set_story a s c) = co_lineage c" "co_seq (set_story a s c) = co_seq c"
  by (simp_all add: set_story_def)

lemma set_story_claim: "set_story a s (claim_pids pids b c) = claim_pids pids b (set_story a s c)"
  by (simp add: set_story_def claim_pids_def)

text \<open>Replacing a story by one with more members and no smaller report count.\<close>

definition story_grows :: "storyline \<Rightarrow> storyline \<Rightarrow> bool" where
  "story_grows s s' \<longleftrightarrow> set (sl_members s) \<subseteq> set (sl_members s') \<and> sl_reportedN s \<le> sl_reportedN s'"

lemma noise_set_story:
  assumes "a < length (co_heap c)"
  shows "noise (set_story a s c) + (sl_reportedN (co_heap c ! a) - 1) = noise c + (sl_reportedN s - 1)"
proof -
  let ?f = "\<lambda>s. sl_reportedN s - 1"
  have heap: "co_heap c = take a (co_heap c) @ co_heap c ! a # drop (Suc a) (co_heap c)"
    using assms by (rule id_take_nth_drop)
  have "sum_list (map ?f (co_heap c)) =
      sum_list (map ?f (take a (co_heap c))) + ?f (co_heap c ! a) + sum_list (map ?f (drop (Suc a) (co_heap c)))"
    by (subst heap) simp
  moreover have "sum_list (map ?f ((co_heap c)[a := s])) =
      sum_list (map ?f (take a (co_heap c))) + ?f s + sum_list (map ?f (drop (Suc a) (co_heap c)))"
    using assms by (simp add: upd_conv_take_nth_drop)
  ultimately show ?thesis by (simp add: noise_def)
qed

lemma set_story_ok [wf_intros]:
  assumes "correlator_ok c" and "a < length (co_heap c)" and "story_ok s" and "story_grows (co_heap c ! a) s"
  shows "correlator_ok (set_story a s c)"
proof -
  have "pointers_ok (set_story a s c)"
    using assms by (auto simp: correlator_ok_def pointers_ok_def story_grows_def nth_list_update)
  moreover have "list_all story_ok ((co_heap c)[a := s])"
    using assms(1,3) by (auto simp: correlator_ok_def list_all_iff dest!: subsetD [OF set_update_subset_insert])
  moreover have "noise c \<le> noise (set_story a s c)"
    using noise_set_story [OF assms(2), of s] diff_le_mono [of "sl_reportedN (co_heap c ! a)" "sl_reportedN s" 1]
      assms(4) unfolding story_grows_def by linarith
  ultimately show ?thesis using assms(1) by (simp add: correlator_ok_def)
qed

lemma claim_ok [wf_intros]:
  assumes "correlator_ok c" and "a < length (co_heap c)" and "set pids \<subseteq> set (sl_members (co_heap c ! a))"
  shows "correlator_ok (claim_pids pids a c)"
  using assms claim_distinct [of c pids a]
  by (auto simp: correlator_ok_def pointers_ok_def map_of_claim noise_def split: if_splits)

lemma sweep_ok [wf_intros]: "correlator_ok c \<Longrightarrow> correlator_ok (Correlator_maybeSweep now c)"
  by (auto simp: correlator_ok_def Correlator_maybeSweep_def Let_def pointers_ok_def live_byPID_def noise_def
      map_of_kept split: option.splits if_splits)

lemma lineage_ok: "correlator_ok (c\<lparr>co_lineage := l\<rparr>) = correlator_ok c"
  by (simp add: correlator_ok_def pointers_ok_def noise_def)

lemma Observe_ok [wf_intros]: "correlator_ok c \<Longrightarrow> correlator_ok (Correlator_Observe ev c)"
  by (simp add: Correlator_Observe_def Correlator_learn_def lineage_ok wf_intros)

lemma ancestry_ok: "correlator_ok c \<Longrightarrow> ancestry c pid ppid now = (c', chain) \<Longrightarrow> correlator_ok c'"
  using ancestry_keeps [of c pid ppid now c' chain] by (auto simp: lineage_ok)

lemma story_okD: "correlator_ok c \<Longrightarrow> a < length (co_heap c) \<Longrightarrow> story_ok (co_heap c ! a)"
  by (simp add: correlator_ok_def list_all_length)

lemma merge_fields [simp]:
  "co_cfg (Correlator_merge c dst src) = co_cfg c" "co_lineage (Correlator_merge c dst src) = co_lineage c"
  "length (co_heap (Correlator_merge c dst src)) = length (co_heap c)"
  by (simp_all add: Correlator_merge_def)

lemma merge_ok [wf_intros]:
  assumes "correlator_ok c" and "dst < length (co_heap c)" and "src < length (co_heap c)"
  shows "correlator_ok (Correlator_merge c dst src)"
proof -
  let ?s = "merge_into (co_heap c ! dst) (co_heap c ! src)"
  have "correlator_ok (set_story dst ?s c)"
    using assms by (intro wf_intros merge_into_ok story_okD) (auto simp: story_grows_def merge_into_fields)
  then show ?thesis
    unfolding Correlator_merge_def set_story_claim
    by (rule claim_ok) (use assms in \<open>auto simp: merge_into_fields\<close>)
qed

lemma merge_heap_keeps:
  assumes "dst < length (co_heap c)"
  shows "sl_firstTS (co_heap (Correlator_merge c dst src) ! i) = sl_firstTS (co_heap c ! i)"
    and "sl_id (co_heap (Correlator_merge c dst src) ! i) = sl_id (co_heap c ! i)"
  using assms by (simp_all add: Correlator_merge_def nth_list_update merge_into_fields)

section \<open>Joining the stories of a chain\<close>

lemma found_spec:
  "set (found_stories c now pids found) = set found \<union>
     {a. \<exists>p \<in> set pids. map_of (co_byPID c) p = Some a \<and> \<not> story_expired c now a}"
  by (induction c now pids found rule: found_stories.induct) (auto split: option.splits)

lemma found_allocated:
  "correlator_ok c \<Longrightarrow> a \<in> set (found_stories c now pids []) \<Longrightarrow> a < length (co_heap c)"
  by (auto simp: found_spec correlator_ok_def pointers_ok_def)

text \<open>Absorbing: the result is the oldest of the stories, and whatever pointed to one of them points to it.\<close>

definition absorbed :: "Correlator \<Rightarrow> nat set \<Rightarrow> Correlator \<Rightarrow> nat \<Rightarrow> bool" where
  "absorbed c bs c' a \<longleftrightarrow>
     correlator_ok c' \<and> a \<in> bs \<and> length (co_heap c') = length (co_heap c) \<and>
     co_cfg c' = co_cfg c \<and> co_lineage c' = co_lineage c \<and>
     (\<forall>i. sl_id (co_heap c' ! i) = sl_id (co_heap c ! i)) \<and>
     (\<forall>i. sl_firstTS (co_heap c' ! i) = sl_firstTS (co_heap c ! i)) \<and>
     (\<forall>b \<in> bs. sl_firstTS (co_heap c ! a) \<le> sl_firstTS (co_heap c ! b)) \<and>
     (\<forall>q b. map_of (co_byPID c) q = Some b \<longrightarrow> b \<in> bs \<longrightarrow> map_of (co_byPID c') q = Some a)"

lemma merge_pointers:
  assumes "correlator_ok c" and "map_of (co_byPID c) q = Some b"
  shows "map_of (co_byPID (Correlator_merge c win lose)) q = Some win \<or>
    (map_of (co_byPID (Correlator_merge c win lose)) q = Some b \<and> b \<noteq> lose)"
  using assms by (auto simp: Correlator_merge_def map_of_claim correlator_ok_def pointers_ok_def)

lemma absorbed_step:
  assumes ok: "correlator_ok c" and win: "win < length (co_heap c)"
    and older: "sl_firstTS (co_heap c ! win) \<le> sl_firstTS (co_heap c ! lose)"
    and rest: "absorbed (Correlator_merge c win lose) (insert win others) c' a"
  shows "absorbed c (insert win (insert lose others)) c' a"
proof -
  have ptr: "map_of (co_byPID c') q = Some a"
    if "map_of (co_byPID c) q = Some b" "b \<in> insert win (insert lose others)" for q b
  proof -
    from merge_pointers [OF ok that(1), of win lose] that(2) obtain b'
      where "map_of (co_byPID (Correlator_merge c win lose)) q = Some b'" "b' \<in> insert win others" by auto
    then show ?thesis using rest unfolding absorbed_def by blast
  qed
  have min: "sl_firstTS (co_heap c ! a) \<le> sl_firstTS (co_heap c ! b)" if "b \<in> insert win (insert lose others)" for b
  proof -
    have "sl_firstTS (co_heap c ! a) \<le> sl_firstTS (co_heap c ! b')" if "b' \<in> insert win others" for b'
      using rest that unfolding absorbed_def merge_heap_keeps [OF win] by blast
    from this [of win] this [of b] that older show ?thesis by (auto intro: order_trans)
  qed
  show ?thesis
    using rest ptr min by (auto simp: absorbed_def merge_heap_keeps [OF win])
qed

lemma absorb_absorbed:
  assumes "correlator_ok c" and "\<forall>b \<in> set (s # others). b < length (co_heap c)"
    and "absorb_stories c s others = (c', a)"
  shows "absorbed c (set (s # others)) c' a"
  using assms
proof (induction c s others rule: absorb_stories.induct)
  case (1 c s)
  then show ?case by (simp add: absorbed_def)
next
  case (2 c s other others)
  have alloc: "s < length (co_heap c)" "other < length (co_heap c)" using 2(4) by simp_all
  show ?case
  proof (cases "sl_firstTS (co_heap c ! other) < sl_firstTS (co_heap c ! s)")
    case True
    have "absorbed (Correlator_merge c other s) (set (other # others)) c' a"
      using 2(1) [OF True merge_ok [OF 2(3) alloc(2,1)]] 2(4,5) True by simp
    then have "absorbed c (insert other (insert s (set others))) c' a"
      using absorbed_step [OF 2(3) alloc(2)] True by simp
    then show ?thesis by (simp add: insert_commute)
  next
    case False
    have "absorbed (Correlator_merge c s other) (set (s # others)) c' a"
      using 2(2) [OF False merge_ok [OF 2(3) alloc]] 2(4,5) False by simp
    then show ?thesis using absorbed_step [OF 2(3) alloc(1)] False by (simp add: not_less)
  qed
qed

text \<open>A fresh story.\<close>

definition opened :: "Correlator \<Rightarrow> storyline \<Rightarrow> Correlator" where
  "opened c s = c\<lparr>co_seq := co_seq c + 1, co_heap := co_heap c @ [s]\<rparr>"

lemma opened_ok:
  assumes "correlator_ok c" and "story_ok s" and "sl_reportedN s = 0"
  shows "correlator_ok (opened c s)"
proof -
  have "pointers_ok (opened c s)"
    unfolding pointers_ok_def
  proof (intro allI impI)
    fix pid a
    assume "map_of (co_byPID (opened c s)) pid = Some a"
    then have "map_of (co_byPID c) pid = Some a" by (simp add: opened_def)
    then have "a < length (co_heap c) \<and> pid \<in> set (sl_members (co_heap c ! a))"
      using assms(1) unfolding correlator_ok_def pointers_ok_def by blast
    then show "a < length (co_heap (opened c s)) \<and> pid \<in> set (sl_members (co_heap (opened c s) ! a))"
      by (simp add: opened_def nth_append)
  qed
  with assms show ?thesis by (simp add: opened_def correlator_ok_def noise_def)
qed

lemma fresh_story_ok: "story_ok (fresh_story c tip now)" "sl_reportedN (fresh_story c tip now) = 0"
  by (simp_all add: fresh_story_def story_ok_def)

lemma pick_story_cases:
  assumes "pick_story c chain now = (c', a)"
  obtains "found_stories c now chain [] = []" "a = length (co_heap c)"
      "c' = opened c (fresh_story (c\<lparr>co_seq := co_seq c + 1\<rparr>) (last chain) now)"
  | s others where "found_stories c now chain [] = s # others" "absorb_stories c s others = (c', a)"
  using assms by (cases "found_stories c now chain []") (auto simp: pick_story_def Let_def opened_def)

lemma pick_story_ok:
  assumes "correlator_ok c" and "pick_story c chain now = (c', a)"
  shows "correlator_ok c'" and "a < length (co_heap c')" and "co_cfg c' = co_cfg c"
proof -
  have "correlator_ok c' \<and> a < length (co_heap c') \<and> co_cfg c' = co_cfg c"
    using assms(2)
  proof (cases rule: pick_story_cases)
    case 1
    then show ?thesis
      using opened_ok [OF assms(1) fresh_story_ok] by (simp add: opened_def)
  next
    case (2 s others)
    have alloc: "\<forall>b \<in> set (s # others). b < length (co_heap c)"
      using found_allocated [OF assms(1)] 2(1) by metis
    have "absorbed c (set (s # others)) c' a" by (rule absorb_absorbed [OF assms(1) alloc 2(2)])
    with alloc show ?thesis unfolding absorbed_def by metis
  qed
  then show "correlator_ok c'" "a < length (co_heap c')" "co_cfg c' = co_cfg c" by simp_all
qed

definition joined :: "u32 list \<Rightarrow> Correlator \<Rightarrow> storyline \<Rightarrow> storyline" where
  "joined chain c s =
    (let s = s\<lparr>sl_members := fold (\<lambda>pid ms. appendUnique ms pid) chain (sl_members s)\<rparr>
     in if last chain \<noteq> sl_root s \<and> sl_root s \<in> set chain
        then s\<lparr>sl_root := last chain, sl_rootComm := commOf c (last chain)\<rparr> else s)"

lemma join_chain_joined: "join_chain chain a c = claim_pids chain a (set_story a (joined chain c (co_heap c ! a)) c)"
  by (simp add: join_chain_def joined_def Let_def)

lemma joined_fields:
  "set (sl_members (joined chain c s)) = set (sl_members s) \<union> set chain"
  "sl_reportedN (joined chain c s) = sl_reportedN s" "sl_tactics (joined chain c s) = sl_tactics s"
  "sl_id (joined chain c s) = sl_id s" "sl_firstTS (joined chain c s) = sl_firstTS s"
  by (simp_all add: joined_def Let_def)

lemma joined_ok: "story_ok s \<Longrightarrow> story_ok (joined chain c s)"
  by (simp add: joined_def Let_def story_ok_def)

lemma join_chain_ok [wf_intros]:
  assumes "correlator_ok c" and "a < length (co_heap c)"
  shows "correlator_ok (join_chain chain a c)"
proof -
  have "correlator_ok (set_story a (joined chain c (co_heap c ! a)) c)"
    using assms by (intro wf_intros joined_ok story_okD) (simp_all add: story_grows_def joined_fields)
  then show ?thesis unfolding join_chain_joined
    by (rule claim_ok) (use assms in \<open>simp_all add: joined_fields\<close>)
qed

lemma storyFor_ok:
  assumes "correlator_ok c" and "storyFor c chain now = (c', a)"
  shows "correlator_ok c'" and "a < length (co_heap c')" and "co_cfg c' = co_cfg c"
proof -
  obtain c1 where pick: "pick_story c chain now = (c1, a)" and c': "c' = join_chain chain a c1"
    using assms(2) by (auto simp: storyFor_def split: prod.splits)
  show "correlator_ok c'" "a < length (co_heap c')" "co_cfg c' = co_cfg c"
    unfolding c' using pick_story_ok [OF assms(1) pick] join_chain_ok
    by (simp_all add: join_chain_joined)
qed

lemma storyFor_unifies:
  assumes "correlator_ok c" and "chain \<noteq> []"
  shows "(case storyFor c chain now of (c', a) \<Rightarrow>
    correlator_ok c' \<and> list_all (\<lambda>p. map_of (co_byPID c') p = Some a) chain \<and>
    (let found = found_stories c now chain [] in
     list_all (\<lambda>b. \<forall>q. map_of (co_byPID c) q = Some b \<longrightarrow> map_of (co_byPID c') q = Some a) found \<and>
     (if found = [] then a = length (co_heap c) \<and> sl_firstTS (co_heap c' ! a) = now
      else a \<in> set found \<and> sl_id (co_heap c' ! a) = sl_id (co_heap c ! a) \<and>
        list_all (\<lambda>b. sl_firstTS (co_heap c ! a) \<le> sl_firstTS (co_heap c ! b)) found)))"
proof -
  obtain c1 a where pick: "pick_story c chain now = (c1, a)" by (rule prod.exhaust)
  let ?c' = "join_chain chain a c1"
  have sf: "storyFor c chain now = (?c', a)" using pick by (simp add: storyFor_def)
  note ok1 = pick_story_ok [OF assms(1) pick]
  have ptr: "map_of (co_byPID ?c') q = (if q \<in> set chain then Some a else map_of (co_byPID c1) q)" for q
    by (simp add: join_chain_joined map_of_claim)
  have story: "co_heap ?c' ! a = joined chain c1 (co_heap c1 ! a)"
    using ok1(2) by (simp add: join_chain_joined)
  from pick show ?thesis
  proof (cases rule: pick_story_cases)
    case 1
    then have "sl_firstTS (co_heap c1 ! a) = now" by (simp add: opened_def fresh_story_def)
    then have "sl_firstTS (co_heap ?c' ! a) = now" unfolding story joined_fields .
    moreover have "list_all (\<lambda>p. map_of (co_byPID ?c') p = Some a) chain" by (simp add: ptr list_all_iff)
    ultimately show ?thesis
      using storyFor_ok(1) [OF assms(1) sf] 1(1,2) unfolding sf by simp
  next
    case (2 s others)
    have alloc: "\<forall>b \<in> set (s # others). b < length (co_heap c)"
      using found_allocated [OF assms(1)] 2(1) by metis
    have ab: "absorbed c (set (s # others)) c1 a" by (rule absorb_absorbed [OF assms(1) alloc 2(2)])
    have "list_all (\<lambda>b. \<forall>q. map_of (co_byPID c) q = Some b \<longrightarrow> map_of (co_byPID ?c') q = Some a) (s # others)"
      using ab unfolding ptr absorbed_def list_all_iff by metis
    moreover have "list_all (\<lambda>p. map_of (co_byPID ?c') p = Some a) chain" by (simp add: ptr list_all_iff)
    moreover have "a \<in> set (s # others)" "sl_id (co_heap ?c' ! a) = sl_id (co_heap c ! a)"
      "list_all (\<lambda>b. sl_firstTS (co_heap c ! a) \<le> sl_firstTS (co_heap c ! b)) (s # others)"
      using ab unfolding story absorbed_def list_all_iff by (simp_all add: joined_fields)
    ultimately show ?thesis
      using storyFor_ok(1) [OF assms(1) sf] unfolding sf 2(1) prod.case Let_def by simp
  qed
qed

section \<open>Filing an alert\<close>

lemma file_alert_story:
  assumes "story_ok s" and "file_alert m now a s = (s', newTactic)"
  shows "story_ok s'" and "story_grows s s'" and "sl_reportedN s' = sl_reportedN s" and "sl_id s' = sl_id s"
    and "set (sl_tactics s') = set (sl_tactics s) \<union> set (TacticsFor a)"
    and "newTactic \<longleftrightarrow> \<not> set (TacticsFor a) \<subseteq> set (sl_tactics s)"
proof -
  show g: "sl_reportedN s' = sl_reportedN s" "sl_id s' = sl_id s"
    "set (sl_tactics s') = set (sl_tactics s) \<union> set (TacticsFor a)"
    "newTactic \<longleftrightarrow> \<not> set (TacticsFor a) \<subseteq> set (sl_tactics s)"
    using assms(2) by (auto simp: file_alert_def Let_def hasTactic_def)
  have d: "distinct (sl_tactics s')" "distinct (sl_members s')" "sl_members s' = sl_members s"
    using assms by (auto simp: file_alert_def Let_def story_ok_def)
  then show "story_grows s s'" using g by (simp add: story_grows_def)
  have "length (sl_tactics s) \<le> length (sl_tactics s')"
    using length_distinct_mono [of "sl_tactics s" "sl_tactics s'"] assms(1) d g by (auto simp: story_ok_def)
  moreover have "length (sl_steps s') \<le> 24"
    using assms addStep_bound [where s = "s\<lparr>sl_alerts := x, sl_lastTS := y, sl_tactics := z, sl_techniques := u,
        sl_procs := v\<rparr>" for x y z u v]
    by (auto simp: file_alert_def Let_def story_ok_def)
  ultimately show "story_ok s'"
    using assms(1) d g TacticsFor_known [of a] by (auto simp: story_ok_def)
qed

lemma Correlate_steps:
  assumes "correlator_ok c"
  obtains c1 chain c2 p s newTactic where
    "ancestry c (ev_PID ev) (ev_PPID ev) (ev_Timestamp ev) = (c1, chain)"
    "storyFor c1 chain (ev_Timestamp ev) = (c2, p)" "correlator_ok c2" "p < length (co_heap c2)"
    "co_cfg c2 = co_cfg c"
    "file_alert m (ev_Timestamp ev) (a\<lparr>al_Storyline := sl_id (co_heap c2 ! p)\<rparr>) (co_heap c2 ! p) = (s, newTactic)"
    "Correlate c m ev a =
      (let a = a\<lparr>al_Storyline := sl_id (co_heap c2 ! p)\<rparr>; n = length (sl_tactics s)
       in if \<not> newTactic \<or> int n < sc_Threshold (co_cfg c) \<or> n \<le> sl_reportedN s
          then (set_story p s c2, a, None)
          else ((set_story p (s\<lparr>sl_reportedN := n\<rparr>) c2)\<lparr>co_chains := co_chains c2 + 1\<rparr>, a,
                Some (chainAlert a (s\<lparr>sl_reportedN := n\<rparr>))))"
proof -
  obtain c1 chain where anc: "ancestry c (ev_PID ev) (ev_PPID ev) (ev_Timestamp ev) = (c1, chain)"
    by (rule prod.exhaust)
  obtain c2 p where sf: "storyFor c1 chain (ev_Timestamp ev) = (c2, p)" by (rule prod.exhaust)
  obtain s nt where fa: "file_alert m (ev_Timestamp ev) (a\<lparr>al_Storyline := sl_id (co_heap c2 ! p)\<rparr>)
      (co_heap c2 ! p) = (s, nt)" by (rule prod.exhaust)
  have ok1: "correlator_ok c1" using ancestry_ok [OF assms anc] .
  have "co_cfg c1 = co_cfg c" using ancestry_keeps [OF anc] by auto
  note ok2 = storyFor_ok [OF ok1 sf, unfolded this]
  show thesis
    by (rule that [OF anc sf ok2(1,2,3) fa])
      (simp add: Correlate_def Let_def anc sf fa ok2(3))
qed

text \<open>Raising an attack-chain alert is paid for by the story's report count.\<close>

lemma report_ok:
  assumes "correlator_ok c" and "p < length (co_heap c)" and "story_ok s" and "story_grows (co_heap c ! p) s"
    and "sl_reportedN s = sl_reportedN (co_heap c ! p)"
    and "2 \<le> length (sl_tactics s)" and "sl_reportedN s < length (sl_tactics s)"
  shows "correlator_ok ((set_story p (s\<lparr>sl_reportedN := length (sl_tactics s)\<rparr>) c)\<lparr>co_chains := co_chains c + 1\<rparr>)"
proof -
  let ?s = "s\<lparr>sl_reportedN := length (sl_tactics s)\<rparr>" let ?c = "set_story p ?s c"
  have "story_ok ?s" using assms(3) by (simp add: story_ok_def)
  moreover have "story_grows (co_heap c ! p) ?s" using assms(4,7) by (simp add: story_grows_def)
  ultimately have ok: "correlator_ok ?c" using assms(1,2) by (intro wf_intros)
  have "noise c + 1 \<le> noise ?c"
    using noise_set_story [OF assms(2), of ?s] assms(5,6,7) by simp
  moreover have "unat (co_chains c + 1) \<le> unat (co_chains c) + 1"
    by (simp add: unat_word_ariths)
  ultimately have "unat (co_chains c + 1) \<le> noise ?c"
    using assms(1) by (simp add: correlator_ok_def)
  with ok show ?thesis by (simp add: correlator_ok_def pointers_ok_def noise_def)
qed

lemma Correlate_ok [wf_intros]:
  assumes "correlator_ok c"
  shows "correlator_ok (fst (Correlate c m ev a))"
proof (rule Correlate_steps [OF assms, of ev m a])
  fix c1 chain c2 p s newTactic
  assume ok: "correlator_ok c2" "p < length (co_heap c2)" and cfg: "co_cfg c2 = co_cfg c"
    and fa: "file_alert m (ev_Timestamp ev) (a\<lparr>al_Storyline := sl_id (co_heap c2 ! p)\<rparr>) (co_heap c2 ! p) = (s, newTactic)"
    and res: "Correlate c m ev a =
      (let a = a\<lparr>al_Storyline := sl_id (co_heap c2 ! p)\<rparr>; n = length (sl_tactics s)
       in if \<not> newTactic \<or> int n < sc_Threshold (co_cfg c) \<or> n \<le> sl_reportedN s
          then (set_story p s c2, a, None)
          else ((set_story p (s\<lparr>sl_reportedN := n\<rparr>) c2)\<lparr>co_chains := co_chains c2 + 1\<rparr>, a,
                Some (chainAlert a (s\<lparr>sl_reportedN := n\<rparr>))))"
  note st = file_alert_story [OF story_okD [OF ok] fa]
  have thr: "2 \<le> sc_Threshold (co_cfg c)" using assms by (simp add: correlator_ok_def)
  show ?thesis
    using set_story_ok [OF ok st(1,2)] report_ok [OF ok st(1,2,3)] thr
    by (auto simp: res Let_def)
qed

lemma NewCorrelator_ok: "NewCorrelator cfg = Some c \<Longrightarrow> correlator_ok c"
  by (auto simp: NewCorrelator_def Let_def correlator_ok_def pointers_ok_def noise_def split: if_splits)

lemma reachable_ok: "correlator_reachable cfg c \<Longrightarrow> correlator_ok c"
  by (induction rule: correlator_reachable.induct) (auto intro: NewCorrelator_ok wf_intros)

lemma noise_bound: "list_all story_ok ss \<Longrightarrow> sum_list (map (\<lambda>s. sl_reportedN s - 1) ss) \<le> 4 * length ss"
proof (induction ss)
  case (Cons s ss)
  have "sl_reportedN s \<le> 5"
    using Cons.prems tactics_five [of "sl_tactics s"] by (auto simp: story_ok_def)
  with Cons show ?case by simp
qed simp

text \<open>C18. In every state that observing events and correlating alerts can reach: pointers lead to allocated
  storylines that list the process as a member, every storyline has at most 24 steps and at most five
  tactics, all different, and the number of attack-chain alerts ever raised is at most four per
  storyline opened, however many alerts arrive.\<close>

theorem correlator_invariant:
  assumes "correlator_reachable cfg c"
  shows "list_all (\<lambda>(pid, a). a < length (co_heap c) \<and> pid \<in> set (sl_members (co_heap c ! a))) (co_byPID c) \<and>
    list_all (\<lambda>s. length (sl_steps s) \<le> 24 \<and> distinct (sl_tactics s) \<and> length (sl_tactics s) \<le> 5) (co_heap c) \<and>
    unat (co_chains c) \<le> 4 * length (co_heap c)"
proof -
  have ok: "correlator_ok c" using reachable_ok [OF assms] .
  then have "list_all (\<lambda>(pid, a). a < length (co_heap c) \<and> pid \<in> set (sl_members (co_heap c ! a))) (co_byPID c)"
    by (auto simp: correlator_ok_def pointers_ok_def list_all_iff)
  moreover have "list_all (\<lambda>s. length (sl_steps s) \<le> 24 \<and> distinct (sl_tactics s) \<and> length (sl_tactics s) \<le> 5) (co_heap c)"
    using ok tactics_five by (auto simp: correlator_ok_def list_all_iff story_ok_def)
  moreover have "unat (co_chains c) \<le> 4 * length (co_heap c)"
    using ok noise_bound [of "co_heap c"] by (simp add: correlator_ok_def noise_def)
  ultimately show ?thesis by blast
qed

text \<open>C19. When an alert arrives, its whole process chain and every process that shared an open storyline
  with any process of the chain end up in one storyline: all their pointers are equal.  If there was
  an open storyline, that one is the oldest of them and keeps its id; otherwise it is new.\<close>

theorem correlation_unifies:
  assumes "correlator_reachable cfg c"
  shows "(case ancestry c pid ppid now of (c1, chain) \<Rightarrow> case storyFor c1 chain now of (c', a) \<Rightarrow>
    list_all (\<lambda>p. map_of (co_byPID c') p = Some a) chain \<and>
    (let found = found_stories c1 now chain [] in
     list_all (\<lambda>b. \<forall>q. map_of (co_byPID c1) q = Some b \<longrightarrow> map_of (co_byPID c') q = Some a) found \<and>
     (if found = [] then a = length (co_heap c1) \<and> sl_firstTS (co_heap c' ! a) = now
      else a \<in> set found \<and> sl_id (co_heap c' ! a) = sl_id (co_heap c1 ! a) \<and>
        list_all (\<lambda>b. sl_firstTS (co_heap c1 ! a) \<le> sl_firstTS (co_heap c1 ! b)) found)))"
proof -
  obtain c1 chain where anc: "ancestry c pid ppid now = (c1, chain)" by (rule prod.exhaust)
  have "good_chain c1 pid ppid chain"
    using ancestry_loop_good [of c ppid "[]" ppid pid now c1 chain] anc by (simp add: ancestry_def climbed_def)
  then have "chain \<noteq> []" by (auto simp: good_chain_def)
  note uni = storyFor_unifies [OF ancestry_ok [OF reachable_ok [OF assms] anc] this, of now]
  show ?thesis using uni unfolding anc prod.case
    by (cases "storyFor c1 chain now") (simp only: prod.case Let_def, blast)
qed

text \<open>C20. Let \<open>s\<close> be the storyline the alert is filed in, as joining its process chain leaves it.  An
  attack-chain alert is raised exactly when the alert brings \<open>s\<close> a tactic it does not have, it then
  spans at least the threshold of tactics (never fewer than two), and more than at its last report.
  The attack-chain alert is CRITICAL and carries the storyline id stamped on the triggering alert,
  its process, and the steps of the story.\<close>

theorem attack_chain_iff:
  assumes "correlator_reachable cfg c"
  shows "(case ancestry c (ev_PID ev) (ev_PPID ev) (ev_Timestamp ev) of (c1, chain) \<Rightarrow>
    case storyFor c1 chain (ev_Timestamp ev) of (c2, p) \<Rightarrow>
    case Correlate c m ev a of (c', a', k) \<Rightarrow>
     (let s = co_heap c2 ! p; s' = co_heap c' ! p; n = length (sl_tactics s');
          raised = (\<not> set (TacticsFor a) \<subseteq> set (sl_tactics s) \<and> sc_Threshold (co_cfg c) \<le> int n \<and>
            sl_reportedN s < n)
      in set (sl_tactics s') = set (sl_tactics s) \<union> set (TacticsFor a) \<and>
         a' = a\<lparr>al_Storyline := sl_id s\<rparr> \<and>
         (case k of
            None \<Rightarrow> \<not> raised \<and> co_chains c' = co_chains c2
          | Some x \<Rightarrow> raised \<and> 2 \<le> n \<and> sl_reportedN s' = n \<and> co_chains c' = co_chains c2 + 1 \<and>
              al_Severity x = SeverityCritical \<and> al_Rule x = RuleNameAttackChain \<and>
              al_Storyline x = al_Storyline a' \<and> al_PID x = al_PID a \<and> al_Story x = sl_steps s')))"
proof (rule Correlate_steps [OF reachable_ok [OF assms], of ev m a])
  fix c1 chain c2 p s newTactic
  assume anc: "ancestry c (ev_PID ev) (ev_PPID ev) (ev_Timestamp ev) = (c1, chain)"
    and sf: "storyFor c1 chain (ev_Timestamp ev) = (c2, p)"
    and ok: "correlator_ok c2" "p < length (co_heap c2)" and cfg: "co_cfg c2 = co_cfg c"
    and fa: "file_alert m (ev_Timestamp ev) (a\<lparr>al_Storyline := sl_id (co_heap c2 ! p)\<rparr>) (co_heap c2 ! p) = (s, newTactic)"
    and res: "Correlate c m ev a =
      (let a = a\<lparr>al_Storyline := sl_id (co_heap c2 ! p)\<rparr>; n = length (sl_tactics s)
       in if \<not> newTactic \<or> int n < sc_Threshold (co_cfg c) \<or> n \<le> sl_reportedN s
          then (set_story p s c2, a, None)
          else ((set_story p (s\<lparr>sl_reportedN := n\<rparr>) c2)\<lparr>co_chains := co_chains c2 + 1\<rparr>, a,
                Some (chainAlert a (s\<lparr>sl_reportedN := n\<rparr>))))"
  note st = file_alert_story [OF story_okD [OF ok] fa]
  have T: "TacticsFor (a\<lparr>al_Storyline := x\<rparr>) = TacticsFor a" for x by (simp add: TacticsFor_def)
  have thr: "2 \<le> sc_Threshold (co_cfg c)" using reachable_ok [OF assms] by (simp add: correlator_ok_def)
  show ?thesis
    unfolding res Let_def anc sf prod.case
    using ok(2) st(3-6) [unfolded T] thr
    by (cases "\<not> newTactic \<or> int (length (sl_tactics s)) < sc_Threshold (co_cfg c) \<or> length (sl_tactics s) \<le> sl_reportedN s")
      (auto simp: chainAlert_def Let_def)
qed

section \<open>Concrete runs\<close>

text \<open>A threshold of two tactics, no process lookup.\<close>

definition pair_config :: StorylineConfig where
  "pair_config = DefaultStorylineConfig\<lparr>sc_Threshold := 2\<rparr>"

lemma pair_config_fields [simp]:
  "sc_Lookup pair_config = None" "sc_Window pair_config = 600000000000" "sc_Threshold pair_config = 2"
  by (simp_all add: pair_config_def DefaultStorylineConfig_def)

definition empty_correlator :: Correlator where
  "empty_correlator =
     \<lparr>co_cfg = pair_config, co_lineage = [], co_byPID = [], co_heap = [], co_seq = 0, co_lastSweep = 0,
      co_chains = 0\<rparr>"

lemma empty_correlator_new: "NewCorrelator pair_config = Some empty_correlator"
  by (simp add: empty_correlator_def NewCorrelator_def pair_config_def DefaultStorylineConfig_def)

definition proc_event :: "u32 \<Rightarrow> u32 \<Rightarrow> string \<Rightarrow> u64 \<Rightarrow> Event" where
  "proc_event pid ppid comm ts =
     Decode (sample_raw\<lparr>r_PID := pid, r_TGID := pid, r_PPID := ppid, r_Comm := comm, r_Timestamp := ts\<rparr>) 0"

lemma proc_event_fields [simp]:
  "ev_PID (proc_event pid ppid comm ts) = pid" "ev_PPID (proc_event pid ppid comm ts) = ppid"
  "ev_Comm (proc_event pid ppid comm ts) = comm" "ev_Timestamp (proc_event pid ppid comm ts) = ts"
  by (simp_all add: proc_event_def Decode_def decode_base_def sample_raw_def Raw_IsExit_def Let_def)

definition cred_alert :: "Event \<Rightarrow> Alert" where
  "cred_alert ev = newAlert ev RuleNameSensitiveFile TechEtcShadow SeverityHigh []"

definition inject_alert :: "Event \<Rightarrow> Alert" where
  "inject_alert ev = newAlert ev RuleNameProcessInjection TechPtraceInjection SeverityHigh []"

lemma alert_tactics [simp]:
  "TacticsFor (cred_alert ev) = [TacticCredentialAccess]"
  "TacticsFor (inject_alert ev) = [TacticDefenseEvasion]"
  "TacticsFor (a\<lparr>al_Storyline := x\<rparr>) = TacticsFor a"
  by (simp_all add: TacticsFor_def cred_alert_def inject_alert_def TechEtcShadow_def TechPtraceInjection_def
      technique_def cut_before_def tacticsByTechnique_def RuleNameReverseShell_def RuleNameSensitiveFile_def
      RuleNameProcessInjection_def)

lemma tactics_differ [simp]: "TacticCredentialAccess \<noteq> TacticDefenseEvasion" "TacticDefenseEvasion \<noteq> TacticCredentialAccess"
  by (simp_all add: TacticCredentialAccess_def TacticDefenseEvasion_def)

lemma ancestry_eval:
  "cur \<le> 2 \<or> cur \<in> set chain \<Longrightarrow> ancestry_loop now c chain cur = (c, chain)"
  "length chain < 16 \<Longrightarrow> 2 < cur \<Longrightarrow> cur \<notin> set chain \<Longrightarrow> map_of (co_lineage c) cur = None \<Longrightarrow>
   sc_Lookup (co_cfg c) = None \<Longrightarrow> ancestry_loop now c chain cur = (c, chain @ [cur])"
  "length chain < 16 \<Longrightarrow> 2 < cur \<Longrightarrow> cur \<notin> set chain \<Longrightarrow> map_of (co_lineage c) cur = Some n \<Longrightarrow>
   pn_comm n \<notin> set sessionBoundaries \<Longrightarrow>
   ancestry_loop now c chain cur = ancestry_loop now c (chain @ [cur]) (pn_ppid n)"
  by (auto simp: ancestry_loop.simps [of now c chain cur] Correlator_node_def)


lemma fst_Correlate:
  assumes "ancestry c (ev_PID ev) (ev_PPID ev) (ev_Timestamp ev) = (c1, chain)"
    and "storyFor c1 chain (ev_Timestamp ev) = (c2, p)"
    and "file_alert m (ev_Timestamp ev) (a\<lparr>al_Storyline := sl_id (co_heap c2 ! p)\<rparr>) (co_heap c2 ! p) = (s, newTactic)"
  shows "fst (Correlate c m ev a) =
    (if \<not> newTactic \<or> int (length (sl_tactics s)) < sc_Threshold (co_cfg c2) \<or> length (sl_tactics s) \<le> sl_reportedN s
     then set_story p s c2
     else (set_story p (s\<lparr>sl_reportedN := length (sl_tactics s)\<rparr>) c2)\<lparr>co_chains := co_chains c2 + 1\<rparr>)"
  using assms by (simp add: Correlate_def Let_def)

lemmas observe_eval = Correlator_Observe_def Correlator_maybeSweep_def Correlator_learn_def live_byPID_def
  node_stale_def story_expired_def
lemmas story_eval = storyFor_def pick_story_def fresh_story_def join_chain_def claim_pids_def set_story_def
  appendUnique_def commOf_def story_expired_def Let_def
lemmas file_eval = file_alert_def hasTactic_def appendUnique_def Let_def

text \<open>The fields of a storyline that the correlator decides by.\<close>

definition looks :: "storyline \<Rightarrow> u32 list \<Rightarrow> Tactic list \<Rightarrow> u64 \<Rightarrow> u64 \<Rightarrow> nat \<Rightarrow> bool" where
  "looks s members tactics t0 t1 reported \<longleftrightarrow>
     sl_members s = members \<and> sl_tactics s = tactics \<and> sl_firstTS s = t0 \<and> sl_lastTS s = t1 \<and>
     sl_reportedN s = reported"

lemma file_looks:
  assumes "looks s ms [] t0 t1 0" and "TacticsFor a = [t]"
  obtains s' where "file_alert m now a s = (s', True)" "looks s' ms [t] t0 now 0"
  using assms by (auto simp: looks_def file_eval)

definition node :: "u32 \<Rightarrow> string \<Rightarrow> u64 \<Rightarrow> procNode" where
  "node ppid comm ts = \<lparr>pn_ppid = ppid, pn_comm = comm, pn_lastSeen = ts\<rparr>"

text \<open>\<open>bash[100]\<close> reads a credential file; its parent is init, so its chain is itself.\<close>

definition after_first :: "storyline \<Rightarrow> Correlator" where
  "after_first sa =
     \<lparr>co_cfg = pair_config, co_lineage = [(100, node 1 ''bash'' 1000000000)], co_byPID = [(100, 0)],
      co_heap = [sa], co_seq = 1, co_lastSweep = 1000000000, co_chains = 0\<rparr>"

lemma first_alert:
  "\<exists>sa. looks sa [100] [TacticCredentialAccess] 1000000000 1000000000 0 \<and>
    fst (Correlate (Correlator_Observe (proc_event 100 1 ''bash'' 1000000000) empty_correlator) m
      (proc_event 100 1 ''bash'' 1000000000) (cred_alert (proc_event 100 1 ''bash'' 1000000000))) = after_first sa"
proof -
  let ?ev = "proc_event 100 1 ''bash'' 1000000000"
  let ?c = "Correlator_Observe ?ev empty_correlator"
  have obs: "?c = empty_correlator\<lparr>co_lineage := [(100, node 1 ''bash'' 1000000000)], co_lastSweep := 1000000000\<rparr>"
    by (simp add: observe_eval empty_correlator_def node_def)
  have anc: "ancestry ?c (ev_PID ?ev) (ev_PPID ?ev) (ev_Timestamp ?ev) = (?c, [100])"
    by (simp add: ancestry_def ancestry_eval)
  obtain s where sf: "storyFor ?c [100] (ev_Timestamp ?ev) =
      (?c\<lparr>co_seq := 1, co_byPID := [(100, 0)], co_heap := [s]\<rparr>, 0)"
    and s: "looks s [100] [] 1000000000 0 0"
    unfolding obs by (auto simp: empty_correlator_def story_eval looks_def)
  obtain s' where fa: "file_alert m (ev_Timestamp ?ev) (cred_alert ?ev\<lparr>al_Storyline := sl_id s\<rparr>) s = (s', True)"
    and s': "looks s' [100] [TacticCredentialAccess] 1000000000 1000000000 0"
    by (rule file_looks [OF s, of "cred_alert ?ev\<lparr>al_Storyline := sl_id s\<rparr>" TacticCredentialAccess m "ev_Timestamp ?ev"]) simp_all
  have "fst (Correlate ?c m ?ev (cred_alert ?ev)) = after_first s'"
    using fst_Correlate [OF anc sf, of m "cred_alert ?ev" s' True] fa s'
    unfolding obs by (simp add: empty_correlator_def set_story_def after_first_def looks_def)
  with s' show ?thesis by blast
qed

text \<open>\<open>gdb[200]\<close>, whose parent 150 is not known yet, injects into another process: a second story.\<close>

definition after_second :: "storyline \<Rightarrow> storyline \<Rightarrow> Correlator" where
  "after_second sa sb =
     \<lparr>co_cfg = pair_config,
      co_lineage = [(100, node 1 ''bash'' 1000000000), (200, node 150 ''gdb'' 2000000000)],
      co_byPID = [(100, 0), (200, 1), (150, 1)], co_heap = [sa, sb], co_seq = 2,
      co_lastSweep = 1000000000, co_chains = 0\<rparr>"

lemma second_alert:
  assumes sa: "looks sa [100] [TacticCredentialAccess] 1000000000 1000000000 0"
  shows "\<exists>sb. looks sb [200, 150] [TacticDefenseEvasion] 2000000000 2000000000 0 \<and>
    fst (Correlate (Correlator_Observe (proc_event 200 150 ''gdb'' 2000000000) (after_first sa)) m
      (proc_event 200 150 ''gdb'' 2000000000) (inject_alert (proc_event 200 150 ''gdb'' 2000000000))) =
    after_second sa sb"
proof -
  let ?ev = "proc_event 200 150 ''gdb'' 2000000000"
  let ?c = "Correlator_Observe ?ev (after_first sa)"
  have obs: "?c = (after_first sa)\<lparr>co_lineage := [(100, node 1 ''bash'' 1000000000), (200, node 150 ''gdb'' 2000000000)]\<rparr>"
    by (simp add: observe_eval after_first_def node_def)
  have anc: "ancestry ?c (ev_PID ?ev) (ev_PPID ?ev) (ev_Timestamp ?ev) = (?c, [200, 150])"
    unfolding obs by (simp add: after_first_def ancestry_def ancestry_eval)
  obtain s where sf: "storyFor ?c [200, 150] (ev_Timestamp ?ev) =
      (?c\<lparr>co_seq := 2, co_byPID := [(100, 0), (200, 1), (150, 1)], co_heap := [sa, s]\<rparr>, 1)"
    and s: "looks s [200, 150] [] 2000000000 0 0"
    unfolding obs by (auto simp: after_first_def story_eval looks_def)
  obtain s' where fa: "file_alert m (ev_Timestamp ?ev) (inject_alert ?ev\<lparr>al_Storyline := sl_id s\<rparr>) s = (s', True)"
    and s': "looks s' [200, 150] [TacticDefenseEvasion] 2000000000 2000000000 0"
    by (rule file_looks [OF s, of "inject_alert ?ev\<lparr>al_Storyline := sl_id s\<rparr>" TacticDefenseEvasion m "ev_Timestamp ?ev"]) simp_all
  have "fst (Correlate ?c m ?ev (inject_alert ?ev)) = after_second sa s'"
    using fst_Correlate [OF anc sf, of m "inject_alert ?ev" s' True] fa s'
    unfolding obs by (simp add: after_first_def set_story_def after_second_def looks_def)
  with s' show ?thesis by blast
qed

text \<open>The shell between them appears in the event stream.\<close>

definition after_parent :: "storyline \<Rightarrow> storyline \<Rightarrow> Correlator" where
  "after_parent sa sb =
     (after_second sa sb)\<lparr>co_lineage :=
        [(100, node 1 ''bash'' 1000000000), (200, node 150 ''gdb'' 2000000000), (150, node 100 ''sh'' 3000000000)]\<rparr>"

lemma parent_seen:
  "Correlator_Observe (proc_event 150 100 ''sh'' 3000000000) (after_second sa sb) = after_parent sa sb"
  by (simp add: observe_eval after_second_def after_parent_def node_def)

text \<open>The injection repeats: the chain of \<open>gdb[200]\<close> now reaches \<open>bash[100]\<close> and the two stories merge.\<close>

lemma repeat_alert:
  assumes sa: "looks sa [100] [TacticCredentialAccess] 1000000000 1000000000 0"
    and sb: "looks sb [200, 150] [TacticDefenseEvasion] 2000000000 2000000000 0"
  defines "ev \<equiv> proc_event 200 150 ''gdb'' 4000000000"
  defines "c \<equiv> Correlator_Observe ev (after_parent sa sb)"
  shows "\<exists>s. sl_tactics s = [TacticCredentialAccess, TacticDefenseEvasion] \<and>
    (case Correlate c m ev (inject_alert ev) of (c', a', k) \<Rightarrow>
       k = None \<and> co_chains c' = 0 \<and> co_heap c' ! 0 = s \<and> map_of (co_byPID c') 200 = Some 0 \<and> 0 < length (co_heap c'))"
proof -
  let ?lin = "[(100, node 1 ''bash'' 1000000000), (200, node 150 ''gdb'' 4000000000), (150, node 100 ''sh'' 3000000000)]"
  have c: "c = (after_parent sa sb)\<lparr>co_lineage := ?lin\<rparr>"
    by (simp add: c_def ev_def observe_eval after_second_def after_parent_def node_def)
  have anc: "ancestry c (ev_PID ev) (ev_PPID ev) (ev_Timestamp ev) = (c, [200, 150, 100])"
    unfolding c by (simp add: ev_def after_parent_def after_second_def ancestry_def ancestry_eval node_def
        sessionBoundaries_def)
  have found: "found_stories c (ev_Timestamp ev) [200, 150, 100] [] = [1, 0]"
    unfolding c using sa sb
    by (simp add: ev_def after_parent_def after_second_def story_expired_def looks_def appendUnique_def)
  have absorb: "absorb_stories c 1 [0] = (Correlator_merge c 0 1, 0)"
    unfolding c using sa sb by (simp add: after_parent_def after_second_def looks_def)
  let ?m = "joined [200, 150, 100] (Correlator_merge c 0 1) (merge_into sa sb)"
  have heap: "co_heap (Correlator_merge c 0 1) ! 0 = merge_into sa sb"
    unfolding c by (simp add: Correlator_merge_def after_parent_def after_second_def)
  define c2 where "c2 = join_chain [200, 150, 100] 0 (Correlator_merge c 0 1)"
  have sf: "storyFor c [200, 150, 100] (ev_Timestamp ev) = (c2, 0)"
    using found absorb by (simp add: storyFor_def pick_story_def c2_def)
  have len: "0 < length (co_heap c2)" "co_heap c2 ! 0 = ?m"
    unfolding c2_def join_chain_joined c
    by (simp_all add: Correlator_merge_def after_parent_def after_second_def)
  have T: "sl_tactics ?m = [TacticCredentialAccess, TacticDefenseEvasion]"
    using sa sb by (simp add: joined_fields merge_into_def Let_def fold_addStep_keeps looks_def appendUnique_def)
  obtain s nt where fa: "file_alert m (ev_Timestamp ev) (inject_alert ev\<lparr>al_Storyline := sl_id ?m\<rparr>) ?m = (s, nt)"
    by (rule prod.exhaust)
  then have s: "\<not> nt" "sl_tactics s = [TacticCredentialAccess, TacticDefenseEvasion]"
    using T by (auto simp: file_eval)
  have "Correlate c m ev (inject_alert ev) = (set_story 0 s c2, inject_alert ev\<lparr>al_Storyline := sl_id ?m\<rparr>, None)"
    using fa s(1) by (simp add: Correlate_def Let_def anc sf len)
  moreover have "co_chains c2 = 0" "map_of (co_byPID c2) 200 = Some 0"
    unfolding c2_def join_chain_joined c
    by (simp_all add: Correlator_merge_def after_parent_def after_second_def map_of_claim)
  ultimately show ?thesis using s(2) len(1) by (intro exI [of _ s]) simp
qed

text \<open>C28. A storyline can span the threshold of tactics without an attack-chain alert: when the tactics come
  together because an alert's chain joins two stories, and that alert's own tactic is already in one
  of them, nothing is raised and nothing was raised before.\<close>

theorem joined_story_not_reported:
  "\<exists>c ev a. correlator_reachable pair_config c \<and>
    (case Correlate c [] ev a of (c', a', k) \<Rightarrow>
      k = None \<and> co_chains c' = 0 \<and>
      (\<exists>p. map_of (co_byPID c') (ev_PID ev) = Some p \<and> p < length (co_heap c') \<and>
        sc_Threshold pair_config \<le> int (length (sl_tactics (co_heap c' ! p)))))"
proof -
  note obs = correlator_reachable.observe and cor = correlator_reachable.correlate
  let ?e1 = "proc_event 100 1 ''bash'' 1000000000" and ?e2 = "proc_event 200 150 ''gdb'' 2000000000"
  let ?e4 = "proc_event 200 150 ''gdb'' 4000000000"
  obtain sa where sa: "looks sa [100] [TacticCredentialAccess] 1000000000 1000000000 0"
    and c1: "fst (Correlate (Correlator_Observe ?e1 empty_correlator) [] ?e1 (cred_alert ?e1)) = after_first sa"
    using first_alert [of "[]"] by blast
  obtain sb where sb: "looks sb [200, 150] [TacticDefenseEvasion] 2000000000 2000000000 0"
    and c2: "fst (Correlate (Correlator_Observe ?e2 (after_first sa)) [] ?e2 (inject_alert ?e2)) = after_second sa sb"
    using second_alert [OF sa, of "[]"] by blast
  have "correlator_reachable pair_config (after_first sa)"
    unfolding c1 [symmetric] by (intro obs cor correlator_reachable.start empty_correlator_new)
  then have "correlator_reachable pair_config (after_second sa sb)"
    unfolding c2 [symmetric] by (intro obs cor)
  then have reach: "correlator_reachable pair_config (Correlator_Observe ?e4 (after_parent sa sb))"
    unfolding parent_seen [symmetric] by (intro obs)
  have "case Correlate (Correlator_Observe ?e4 (after_parent sa sb)) [] ?e4 (inject_alert ?e4) of (c', a', k) \<Rightarrow>
      k = None \<and> co_chains c' = 0 \<and> (\<exists>p. map_of (co_byPID c') (ev_PID ?e4) = Some p \<and> p < length (co_heap c') \<and>
        sc_Threshold pair_config \<le> int (length (sl_tactics (co_heap c' ! p))))"
    using repeat_alert [OF sa sb, of "[]"] by (auto split: prod.splits)
  with reach show ?thesis
    by (intro exI [of _ "Correlator_Observe ?e4 (after_parent sa sb)"] exI [of _ ?e4] exI [of _ "inject_alert ?e4"] conjI)
qed

section \<open>Witnesses\<close>

theorem correlator_invariant_witness:
  "unat (co_chains empty_correlator) \<le> 4 * length (co_heap empty_correlator)"
  using correlator_invariant [OF correlator_reachable.start [OF empty_correlator_new]] by simp

theorem correlation_unifies_witness:
  "case ancestry empty_correlator 7 5 9 of (c1, chain) \<Rightarrow> case storyFor c1 chain 9 of (c', a) \<Rightarrow>
     list_all (\<lambda>p. map_of (co_byPID c') p = Some a) chain"
  using correlation_unifies [OF correlator_reachable.start [OF empty_correlator_new], where pid = 7 and ppid = 5 and now = 9]
  by (simp only: split_def Let_def)

text \<open>\<open>bash[100]\<close> goes on to inject into another process: the second tactic of its own story raises the
  attack-chain alert.\<close>

lemma second_tactic:
  assumes sa: "looks sa [100] [TacticCredentialAccess] 1000000000 1000000000 0"
  defines "ev \<equiv> proc_event 100 1 ''bash'' 2000000000"
  shows "ancestry (after_first sa) (ev_PID ev) (ev_PPID ev) (ev_Timestamp ev) = (after_first sa, [100])"
    and "storyFor (after_first sa) [100] (ev_Timestamp ev) = (join_chain [100] 0 (after_first sa), 0)"
    and "sl_tactics (co_heap (join_chain [100] 0 (after_first sa)) ! 0) = [TacticCredentialAccess]"
    and "sl_reportedN (co_heap (join_chain [100] 0 (after_first sa)) ! 0) = 0"
    and "co_cfg (after_first sa) = pair_config"
proof -
  show "ancestry (after_first sa) (ev_PID ev) (ev_PPID ev) (ev_Timestamp ev) = (after_first sa, [100])"
    by (simp add: ev_def ancestry_def ancestry_eval)
  have "found_stories (after_first sa) (ev_Timestamp ev) [100] [] = [0]"
    using sa by (simp add: ev_def after_first_def story_expired_def looks_def appendUnique_def)
  then show "storyFor (after_first sa) [100] (ev_Timestamp ev) = (join_chain [100] 0 (after_first sa), 0)"
    by (simp add: storyFor_def pick_story_def)
  show "sl_tactics (co_heap (join_chain [100] 0 (after_first sa)) ! 0) = [TacticCredentialAccess]"
    "sl_reportedN (co_heap (join_chain [100] 0 (after_first sa)) ! 0) = 0"
    "co_cfg (after_first sa) = pair_config"
    using sa by (simp_all add: join_chain_joined after_first_def joined_fields looks_def)
qed

theorem attack_chain_iff_witness:
  "\<exists>c. correlator_reachable pair_config c \<and>
     snd (snd (Correlate c [] (proc_event 100 1 ''bash'' 2000000000)
       (inject_alert (proc_event 100 1 ''bash'' 2000000000)))) \<noteq> None"
proof -
  let ?e1 = "proc_event 100 1 ''bash'' 1000000000" and ?e2 = "proc_event 100 1 ''bash'' 2000000000"
  obtain sa where sa: "looks sa [100] [TacticCredentialAccess] 1000000000 1000000000 0"
    and c1: "fst (Correlate (Correlator_Observe ?e1 empty_correlator) [] ?e1 (cred_alert ?e1)) = after_first sa"
    using first_alert [of "[]"] by blast
  have reach: "correlator_reachable pair_config (after_first sa)"
    unfolding c1 [symmetric]
    by (intro correlator_reachable.observe correlator_reachable.correlate correlator_reachable.start
        empty_correlator_new)
  obtain c' a' k where res: "Correlate (after_first sa) [] ?e2 (inject_alert ?e2) = (c', a', k)"
    by (metis prod.exhaust)
  note st = second_tactic [OF sa]
  note iff = attack_chain_iff [OF reach, where ev = ?e2 and m = "[]" and a = "inject_alert ?e2", unfolded st res prod.case Let_def]
  have two: "2 \<le> length ts" if "set ts = set [TacticCredentialAccess] \<union> set (TacticsFor (inject_alert ?e2))" for ts
    using card_length [of ts] that by simp
  have "k \<noteq> None"
  proof
    assume "k = None"
    with iff have "\<not> (\<not> set (TacticsFor (inject_alert ?e2)) \<subseteq> set [TacticCredentialAccess] \<and>
        sc_Threshold pair_config \<le> int (length (sl_tactics (co_heap c' ! 0))) \<and> 0 < length (sl_tactics (co_heap c' ! 0)))"
      and "2 \<le> length (sl_tactics (co_heap c' ! 0))" using two by simp_all
    then show False by simp
  qed
  with reach res show ?thesis by (intro exI [of _ "after_first sa"]) simp
qed

end
