(* ===== verification/Engine.thy ===== *)
theory Engine
  imports PrivEsc SensitiveFile PtraceRule RevShell Dedup StorylineInv
begin

text \<open>
  \<^verbatim>\<open>detect/engine.go\<close>: the registry, the construction of an engine and \<open>Evaluate\<close>.

  All rules of one \<open>Evaluate\<close> call share the argument map of the event: the model threads it through
  the rules, and the alerts that are returned refer to its final contents (\<open>resolve\<close>).  The nil
  \<open>Config.Stat\<close> that \<open>NewEngine\<close> replaces by \<open>os.Stat\<close> has no counterpart, since \<open>cfg_Stat\<close> is total.
\<close>

definition allRules :: "Rule list" where
  "allRules = [rulePrivilegeEscalation, ruleSensitiveFileAccess, rulePtraceInjection, ruleReverseShell]"

definition AllRules :: "Rule list" where
  "AllRules = allRules"

definition RuleNames :: "string list" where
  "RuleNames = sort (map rule_Name allRules)"

record Engine =
  en_rules :: "Rule list"
  en_tracker :: Tracker
  en_correlator :: "Correlator option"
  en_dedup :: "deduper option"
  en_cfg :: Config

fun wanted_names :: "string list \<Rightarrow> string list \<Rightarrow> string list" where
  "wanted_names [] wanted = wanted"
| "wanted_names (name # names) wanted =
     (let name = TrimSpace name
      in if name = [] then wanted_names names wanted
         else wanted_names names (if name \<in> set wanted then wanted else wanted @ [name]))"

fun pick_rules :: "Rule list \<Rightarrow> string list \<Rightarrow> Rule list \<Rightarrow> Rule list \<times> string list" where
  "pick_rules [] wanted picked = (picked, wanted)"
| "pick_rules (r # rs) wanted picked =
     (if rule_Name r \<in> set wanted then pick_rules rs (removeAll (rule_Name r) wanted) (picked @ [r])
      else pick_rules rs wanted picked)"

definition NewEngine :: "Config \<Rightarrow> string list \<Rightarrow> string + Engine" where
  "NewEngine cfg enabled =
    (let cfg = (if sint (cfg_RevShellWindow cfg) \<le> 0 then cfg\<lparr>cfg_RevShellWindow := 2000000000\<rparr> else cfg);
         e = \<lparr>en_rules = [], en_tracker = NewTracker, en_correlator = NewCorrelator (cfg_Storyline cfg),
              en_dedup = newDeduper (cfg_DedupWindow cfg), en_cfg = cfg\<rparr>
     in if enabled = [] then Inr (e\<lparr>en_rules := AllRules\<rparr>)
        else case pick_rules allRules (wanted_names enabled []) [] of (picked, unknown) \<Rightarrow>
          if unknown \<noteq> [] then
            Inl (''unknown rule(s): '' @ join '', '' (sort unknown) @ '' (available: '' @
              join '', '' RuleNames @ '')'')
          else if picked = [] then
            Inl (''no rules enabled (available: '' @ join '', '' RuleNames @ '')'')
          else Inr (e\<lparr>en_rules := picked\<rparr>))"

definition Engine_Correlating :: "Engine \<Rightarrow> bool" where
  "Engine_Correlating e \<longleftrightarrow> en_correlator e \<noteq> None"

record EngineStats =
  es_Suppressed :: u64
  es_Storylines :: nat
  es_AttackChains :: u64

definition Engine_Stats :: "Engine \<Rightarrow> EngineStats" where
  "Engine_Stats e =
     \<lparr>es_Suppressed = (case en_dedup e of None \<Rightarrow> 0 | Some d \<Rightarrow> dd_total d),
      es_Storylines = Correlator_Storylines (en_correlator e),
      es_AttackChains = Correlator_Chains (en_correlator e)\<rparr>"

text \<open>The nil-safe methods of the correlator.\<close>

definition observe_opt :: "Event \<Rightarrow> Correlator option \<Rightarrow> Correlator option" where
  "observe_opt ev c = map_option (Correlator_Observe ev) c"

definition correlate_opt ::
  "Correlator option \<Rightarrow> args \<Rightarrow> Event \<Rightarrow> Alert \<Rightarrow> Correlator option \<times> Alert \<times> Alert option" where
  "correlate_opt c m ev a =
     (case c of None \<Rightarrow> (None, a, None)
      | Some c \<Rightarrow> (case Correlate c m ev a of (c', a', k) \<Rightarrow> (Some c', a', k)))"

record pass =
  ps_args :: args
  ps_correlator :: "Correlator option"
  ps_dedup :: "deduper option"
  ps_alerts :: "Alert list"

text \<open>One turn of the rule loop.\<close>

definition rule_turn :: "Config \<Rightarrow> Event \<Rightarrow> ProcessHistory option \<Rightarrow> Rule \<Rightarrow> pass \<Rightarrow> pass" where
  "rule_turn cfg ev history r ps =
    (case rule_Eval r \<lparr>cx_Event = ev\<lparr>ev_Args := ps_args ps\<rparr>, cx_History = history, cx_Config = cfg\<rparr> of
       (m, None) \<Rightarrow> ps\<lparr>ps_args := m\<rparr>
     | (m, Some alert) \<Rightarrow>
         (case correlate_opt (ps_correlator ps) m ev alert of (c, alert, chain) \<Rightarrow>
          case deduper_admit (ps_dedup ps) m alert (ev_Timestamp ev) of (d, alert, ok) \<Rightarrow>
            \<lparr>ps_args = m, ps_correlator = c, ps_dedup = d,
             ps_alerts = ps_alerts ps @ (if ok then [alert] else []) @
               (case chain of None \<Rightarrow> [] | Some x \<Rightarrow> [x])\<rparr>))"

definition resolve :: "args \<Rightarrow> Alert \<Rightarrow> Alert" where
  "resolve m a = a\<lparr>al_Args := OwnArgs (argsOf m a)\<rparr>"

definition Engine_Evaluate :: "Engine \<Rightarrow> Event \<Rightarrow> Engine \<times> Alert list" where
  "Engine_Evaluate e ev =
    (if ev_PID ev = cfg_SelfPID (en_cfg e) then (e, [])
     else
       let co = observe_opt ev (en_correlator e) in
       case Tracker_Record (en_tracker e) ev of (tracker, history) \<Rightarrow>
         let ps = fold (rule_turn (en_cfg e) ev history) (en_rules e)
               \<lparr>ps_args = ev_Args ev, ps_correlator = co, ps_dedup = en_dedup e, ps_alerts = []\<rparr>
         in (e\<lparr>en_tracker := tracker, en_correlator := ps_correlator ps, en_dedup := ps_dedup ps\<rparr>,
             map (resolve (ps_args ps)) (ps_alerts ps)))"

section \<open>Which rules run\<close>

lemma wanted_set: "set (wanted_names names wanted) = set wanted \<union> (TrimSpace ` set names - {[]})"
  by (induction names wanted rule: wanted_names.induct) (auto simp: Let_def)

lemma pick_rules_spec:
  "distinct (map rule_Name rs) \<Longrightarrow>
   fst (pick_rules rs wanted picked) = picked @ filter (\<lambda>r. rule_Name r \<in> set wanted) rs \<and>
   set (snd (pick_rules rs wanted picked)) = set wanted - set (map rule_Name rs)"
proof (induction rs wanted picked rule: pick_rules.induct)
  case (2 r rs wanted picked)
  have "filter (\<lambda>x. rule_Name x \<in> set (removeAll (rule_Name r) wanted)) rs =
      filter (\<lambda>x. rule_Name x \<in> set wanted) rs"
    using 2(3) by (intro filter_cong) (auto simp: image_iff)
  with 2 show ?case by auto
qed simp

lemma rule_names [simp]:
  "rule_Name rulePrivilegeEscalation = RuleNamePrivilegeEscalation"
  "rule_Name ruleSensitiveFileAccess = RuleNameSensitiveFile"
  "rule_Name rulePtraceInjection = RuleNameProcessInjection"
  "rule_Name ruleReverseShell = RuleNameReverseShell"
  by (simp_all add: rulePrivilegeEscalation_def ruleSensitiveFileAccess_def rulePtraceInjection_def
      ruleReverseShell_def)

lemma rule_names_distinct: "distinct (map rule_Name allRules)"
  by (simp add: allRules_def RuleNamePrivilegeEscalation_def RuleNameSensitiveFile_def
      RuleNameProcessInjection_def RuleNameReverseShell_def)

text \<open>C27. An engine is built exactly when every name given, blanks aside, is a rule; an unknown name is an
  error, never a silently smaller engine, and so is a list of blanks.  The engine runs the named rules
  in registry order, or all of them when no list is given, and never none.\<close>

theorem NewEngine_rules:
  "(let known = (TrimSpace ` set enabled - {[]} \<subseteq> set (map rule_Name allRules));
        some = (TrimSpace ` set enabled - {[]} \<noteq> {})
    in case NewEngine cfg enabled of
         Inl msg \<Rightarrow> enabled \<noteq> [] \<and> \<not> (known \<and> some)
       | Inr e \<Rightarrow> en_rules e \<noteq> [] \<and>
           en_rules e = (if enabled = [] then allRules
             else filter (\<lambda>r. rule_Name r \<in> TrimSpace ` set enabled) allRules) \<and>
           known \<and> (enabled = [] \<or> some) \<and>
           0 < sint (cfg_RevShellWindow (en_cfg e)))"
proof -
  have window: "0 < sint (cfg_RevShellWindow (if sint (cfg_RevShellWindow cfg) \<le> 0
      then cfg\<lparr>cfg_RevShellWindow := 2000000000\<rparr> else cfg))" by simp
  show ?thesis
  proof (cases "enabled = []")
    case True
    then show ?thesis using window by (simp add: NewEngine_def Let_def AllRules_def allRules_def)
  next
    case False
    obtain picked unknown where pick: "pick_rules allRules (wanted_names enabled []) [] = (picked, unknown)"
      by (rule prod.exhaust)
    have pu: "picked = filter (\<lambda>r. rule_Name r \<in> TrimSpace ` set enabled - {[]}) allRules"
      "set unknown = (TrimSpace ` set enabled - {[]}) - set (map rule_Name allRules)"
      using pick_rules_spec [OF rule_names_distinct, of "wanted_names enabled []" "[]"] pick
      by (simp_all add: wanted_set)
    have "picked = filter (\<lambda>r. rule_Name r \<in> TrimSpace ` set enabled) allRules"
      unfolding pu(1) by (rule filter_cong)
        (auto simp: allRules_def RuleNamePrivilegeEscalation_def RuleNameSensitiveFile_def
          RuleNameProcessInjection_def RuleNameReverseShell_def)
    moreover have "unknown = [] \<longleftrightarrow> TrimSpace ` set enabled - {[]} \<subseteq> set (map rule_Name allRules)"
      using pu(2) by (metis Diff_eq_empty_iff set_empty)
    moreover have "picked = [] \<longleftrightarrow> set (map rule_Name allRules) \<inter> (TrimSpace ` set enabled - {[]}) = {}"
      unfolding pu(1) by (auto simp: filter_empty_conv)
    ultimately show ?thesis
      using window False by (auto simp: NewEngine_def Let_def pick)
  qed
qed

section \<open>The contract of the registry\<close>

definition rule_marks :: "Rule \<Rightarrow> string list" where
  "rule_marks r =
     (if rule_Name r = RuleNamePrivilegeEscalation then [''suid_bits'', ''file_mode'']
      else if rule_Name r = RuleNameSensitiveFile then sensitive_marks
      else if rule_Name r = RuleNameProcessInjection then [''action'']
      else chain_keys)"

lemmas rule_name_defs = RuleNamePrivilegeEscalation_def RuleNameSensitiveFile_def
  RuleNameProcessInjection_def RuleNameReverseShell_def

lemma registry_contract:
  assumes "r \<in> set allRules"
  shows "detection_rule (rule_Name r) (rule_Techniques r) (rule_marks r) (rule_Eval r)"
proof -
  consider "r = rulePrivilegeEscalation" | "r = ruleSensitiveFileAccess" | "r = rulePtraceInjection"
    | "r = ruleReverseShell" using assms by (auto simp: allRules_def)
  then show ?thesis
  proof cases
    case 1
    then show ?thesis using pe.detection_rule_axioms
      by (simp add: rulePrivilegeEscalation_def rule_marks_def)
  next
    case 2
    then show ?thesis using sf.detection_rule_axioms
      by (simp add: ruleSensitiveFileAccess_def rule_marks_def rule_name_defs)
  next
    case 3
    then show ?thesis using pt.detection_rule_axioms
      by (simp add: rulePtraceInjection_def rule_marks_def rule_name_defs)
  next
    case 4
    then show ?thesis using rs.detection_rule_axioms
      by (simp add: ruleReverseShell_def rule_marks_def rule_name_defs)
  qed
qed

text \<open>What every alert of a call has in common: the identity of the event, and a rule alert's reference to
  the event's map.\<close>

definition about_event :: "Event \<Rightarrow> Alert \<Rightarrow> bool" where
  "about_event ev a \<longleftrightarrow>
     al_PID a = ev_PID ev \<and> al_TID a = ev_TID ev \<and> al_PPID a = ev_PPID ev \<and> al_Comm a = ev_Comm ev \<and>
     al_UID a = ev_UID ev \<and> al_GID a = ev_GID ev \<and> al_Syscall a = ev_Syscall ev \<and> al_Timestamp a = ev_Wall ev"

definition raised_by :: "Rule list \<Rightarrow> Alert \<Rightarrow> bool" where
  "raised_by rules a \<longleftrightarrow>
     (al_Rule a = RuleNameAttackChain \<and> al_Severity a = SeverityCritical) \<or>
     (al_Rule a \<in> set (map rule_Name rules) \<and> al_Args a = EventArgs)"

lemma Correlate_alerts:
  assumes "Correlate c m ev a = (c', a', k)"
  shows "\<exists>i. a' = a\<lparr>al_Storyline := i\<rparr>" and "k = Some x \<Longrightarrow> \<exists>s. x = chainAlert a' s"
  using assms by (auto simp: Correlate_def Let_def split: prod.splits if_splits)

lemma correlate_opt_alerts:
  assumes "correlate_opt c m ev a = (c', a', k)"
  shows "\<exists>i. a' = a\<lparr>al_Storyline := i\<rparr>" and "k = Some x \<Longrightarrow> \<exists>s. x = chainAlert a' s"
proof -
  have "\<exists>i. a = a\<lparr>al_Storyline := i\<rparr>" by (intro exI [of _ "al_Storyline a"]) simp
  with assms Correlate_alerts show "\<exists>i. a' = a\<lparr>al_Storyline := i\<rparr>" "k = Some x \<Longrightarrow> \<exists>s. x = chainAlert a' s"
    by (fastforce simp: correlate_opt_def split: option.splits prod.splits)+
qed

lemma admit_alert: "deduper_admit d m a now = (d', a', ok) \<Longrightarrow> \<exists>n. a' = a\<lparr>al_Suppressed := n\<rparr>"
proof -
  have "\<exists>n. a = a\<lparr>al_Suppressed := n\<rparr>" by (intro exI [of _ "al_Suppressed a"]) simp
  then show "deduper_admit d m a now = (d', a', ok) \<Longrightarrow> ?thesis"
    by (auto simp: deduper_admit_def admit_key_def split: option.splits if_splits)
qed

lemma chainAlert_about: "about_event ev a \<Longrightarrow> about_event ev (chainAlert a s)"
  by (simp add: about_event_def chainAlert_def Let_def)

lemma chainAlert_raised: "raised_by rules (chainAlert a s)"
  by (simp add: raised_by_def chainAlert_def Let_def)

lemma turn_quiet:
  assumes "snd (rule_Eval r \<lparr>cx_Event = ev\<lparr>ev_Args := ps_args ps\<rparr>, cx_History = h, cx_Config = cfg\<rparr>) = None"
  shows "ps_alerts (rule_turn cfg ev h r ps) = ps_alerts ps"
  using assms
  by (cases "rule_Eval r \<lparr>cx_Event = ev\<lparr>ev_Args := ps_args ps\<rparr>, cx_History = h, cx_Config = cfg\<rparr>")
    (simp add: rule_turn_def)

lemma turn_loud:
  assumes "rule_Eval r \<lparr>cx_Event = ev\<lparr>ev_Args := ps_args ps\<rparr>, cx_History = h, cx_Config = cfg\<rparr> = (m, Some a)"
    and "correlate_opt (ps_correlator ps) m ev a = (co, a1, k)"
    and "deduper_admit (ps_dedup ps) m a1 (ev_Timestamp ev) = (d, a2, ok)"
  shows "rule_turn cfg ev h r ps =
    \<lparr>ps_args = m, ps_correlator = co, ps_dedup = d,
     ps_alerts = ps_alerts ps @ (if ok then [a2] else []) @ (case k of None \<Rightarrow> [] | Some x \<Rightarrow> [x])\<rparr>"
  using assms by (simp add: rule_turn_def)

lemma turn_alerts:
  assumes "r \<in> set allRules" and "r \<in> set rules"
  shows "\<exists>new. ps_alerts (rule_turn cfg ev h r ps) = ps_alerts ps @ new \<and>
    list_all (\<lambda>a. about_event ev a \<and> raised_by rules a) new \<and> length new \<le> 2 \<and> (ev_IsExit ev \<longrightarrow> new = [])"
proof -
  let ?c = "\<lparr>cx_Event = ev\<lparr>ev_Args := ps_args ps\<rparr>, cx_History = h, cx_Config = cfg\<rparr>"
  note contract = registry_contract [OF assms(1)]
  show ?thesis
  proof (cases "snd (rule_Eval r ?c)")
    case None
    then show ?thesis using turn_quiet [OF None] by (intro exI [of _ "[]"]) simp
  next
    case (Some a)
    then have entry: "\<not> ev_IsExit ev" using detection_rule.entry_only [OF contract, of ?c] by auto
    obtain m where ev: "rule_Eval r ?c = (m, Some a)" using Some by (metis prod.collapse)
    obtain co a1 k where co: "correlate_opt (ps_correlator ps) m ev a = (co, a1, k)" by (metis prod.exhaust)
    obtain d a2 ok where ad: "deduper_admit (ps_dedup ps) m a1 (ev_Timestamp ev) = (d, a2, ok)"
      by (metis prod.exhaust)
    note ident = detection_rule.alert_identity [OF contract Some]
    have a: "about_event ev a" "al_Rule a = rule_Name r" "al_Args a = EventArgs"
      using ident by (simp_all add: about_event_def)
    obtain i where a1: "a1 = a\<lparr>al_Storyline := i\<rparr>" using correlate_opt_alerts(1) [OF co] by blast
    obtain n where a2: "a2 = a1\<lparr>al_Suppressed := n\<rparr>" using admit_alert [OF ad] by blast
    have g1: "about_event ev a1 \<and> raised_by rules a1" and g2: "about_event ev a2 \<and> raised_by rules a2"
      using a assms(2) by (auto simp: a1 a2 about_event_def raised_by_def)
    have k: "about_event ev x \<and> raised_by rules x" if "k = Some x" for x
      using correlate_opt_alerts(2) [OF co that] g1 chainAlert_about chainAlert_raised by blast
    show ?thesis
      using turn_loud [OF ev co ad] g2 k entry by (auto split: option.split)
  qed
qed

lemma turn_args:
  assumes "r \<in> set allRules" and "k \<notin> set (rule_marks r)"
  shows "map_of (ps_args (rule_turn cfg ev h r ps)) k = map_of (ps_args ps) k"
  using detection_rule.annotates [OF registry_contract [OF assms(1)] assms(2),
      of "\<lparr>cx_Event = ev\<lparr>ev_Args := ps_args ps\<rparr>, cx_History = h, cx_Config = cfg\<rparr>"]
  by (auto simp: rule_turn_def split: prod.splits option.splits)

lemma turns_alerts:
  assumes "set rs \<subseteq> set allRules" and "set rs \<subseteq> set rules"
  shows "\<exists>new. ps_alerts (fold (rule_turn cfg ev h) rs ps) = ps_alerts ps @ new \<and>
    list_all (\<lambda>a. about_event ev a \<and> raised_by rules a) new \<and> length new \<le> 2 * length rs \<and>
    (ev_IsExit ev \<longrightarrow> new = [])"
  using assms
proof (induction rs arbitrary: ps)
  case (Cons r rs)
  obtain n1 where n1: "ps_alerts (rule_turn cfg ev h r ps) = ps_alerts ps @ n1"
    "list_all (\<lambda>a. about_event ev a \<and> raised_by rules a) n1" "length n1 \<le> 2" "ev_IsExit ev \<longrightarrow> n1 = []"
    using turn_alerts [of r rules cfg ev h ps] Cons.prems by auto
  obtain n2 where n2: "ps_alerts (fold (rule_turn cfg ev h) rs (rule_turn cfg ev h r ps)) =
      ps_alerts (rule_turn cfg ev h r ps) @ n2"
    "list_all (\<lambda>a. about_event ev a \<and> raised_by rules a) n2" "length n2 \<le> 2 * length rs"
    "ev_IsExit ev \<longrightarrow> n2 = []"
    using Cons.IH [of "rule_turn cfg ev h r ps"] Cons.prems by auto
  show ?case using n1 n2 by (intro exI [of _ "n1 @ n2"]) simp
qed simp

definition all_marks :: "string list" where
  "all_marks = [''suid_bits'', ''file_mode'', ''target_self'', ''target_pid'', ''matched_pattern'', ''action''] @ chain_keys"

lemma marks_known: "set (rule_marks r) \<subseteq> set all_marks"
  by (simp add: rule_marks_def all_marks_def)

lemma turns_args:
  "set rs \<subseteq> set allRules \<Longrightarrow> k \<notin> set all_marks \<Longrightarrow>
   map_of (ps_args (fold (rule_turn cfg ev h) rs ps)) k = map_of (ps_args ps) k"
proof (induction rs arbitrary: ps)
  case (Cons r rs)
  then show ?case using turn_args [of r k cfg ev h ps] marks_known [of r] by auto
qed simp

section \<open>Runs\<close>

definition engine_run :: "Event list \<Rightarrow> Engine \<Rightarrow> Engine" where
  "engine_run evs e = fold (\<lambda>ev e. fst (Engine_Evaluate e ev)) evs e"

lemma engine_run_snoc: "engine_run (evs @ [ev]) e = fst (Engine_Evaluate (engine_run evs e) ev)"
  by (simp add: engine_run_def)

lemma Evaluate_keeps [keep]:
  "en_rules (fst (Engine_Evaluate e ev)) = en_rules e" "en_cfg (fst (Engine_Evaluate e ev)) = en_cfg e"
  by (simp_all add: Engine_Evaluate_def Let_def split: prod.split)

lemma engine_run_keeps [keep]:
  "en_rules (engine_run evs e) = en_rules e" "en_cfg (engine_run evs e) = en_cfg e"
  by (induction evs rule: rev_induct) (simp_all add: engine_run_snoc keep, simp_all add: engine_run_def)

lemma NewEngine_registry: "NewEngine cfg enabled = Inr e \<Longrightarrow> set (en_rules e) \<subseteq> set allRules"
  using pick_rules_spec [OF rule_names_distinct, of "wanted_names enabled []" "[]"]
  by (auto simp: NewEngine_def Let_def AllRules_def split: if_splits prod.splits)

text \<open>C5. Whatever happened before, the alerts of one event are about that event: its process, thread,
  parent, name, user, group, call and time.  Each is raised by an enabled rule or is a CRITICAL
  attack chain, there are at most two per rule, none on a syscall return or for the agent's own
  process; and all rule alerts of one event show one and the same argument map, which keeps every
  decoded argument that is not a rule's own annotation.\<close>

theorem Evaluate_alerts:
  assumes "NewEngine cfg enabled = Inr e0"
  shows "(let e = engine_run evs e0 in case Engine_Evaluate e ev of (e', alerts) \<Rightarrow>
    list_all (about_event ev) alerts \<and> length alerts \<le> 2 * length (en_rules e) \<and>
    (ev_IsExit ev \<or> ev_PID ev = cfg_SelfPID (en_cfg e) \<longrightarrow> alerts = []) \<and>
    (\<exists>m. (\<forall>k. k \<notin> set all_marks \<longrightarrow> map_of m k = map_of (ev_Args ev) k) \<and>
      list_all (\<lambda>a. (al_Rule a = RuleNameAttackChain \<and> al_Severity a = SeverityCritical) \<or>
        (al_Rule a \<in> set (map rule_Name (en_rules e)) \<and> al_Args a = OwnArgs m)) alerts))"
proof (cases "ev_PID ev = cfg_SelfPID (en_cfg (engine_run evs e0))")
  case True
  then show ?thesis by (simp add: Let_def Engine_Evaluate_def) blast
next
  case False
  let ?e = "engine_run evs e0"
  have reg: "set (en_rules ?e) \<subseteq> set allRules" using NewEngine_registry [OF assms] by (simp add: keep)
  obtain tracker history where tr: "Tracker_Record (en_tracker ?e) ev = (tracker, history)" by (rule prod.exhaust)
  let ?start = "\<lparr>ps_args = ev_Args ev, ps_correlator = observe_opt ev (en_correlator ?e), ps_dedup = en_dedup ?e,
    ps_alerts = []\<rparr>"
  let ?ps = "fold (rule_turn (en_cfg ?e) ev history) (en_rules ?e) ?start"
  obtain new where new: "ps_alerts ?ps = new" "list_all (\<lambda>a. about_event ev a \<and> raised_by (en_rules ?e) a) new"
    "length new \<le> 2 * length (en_rules ?e)" "ev_IsExit ev \<longrightarrow> new = []"
    using turns_alerts [OF reg, of "en_rules ?e" "en_cfg ?e" ev history ?start] by auto
  have args: "\<forall>k. k \<notin> set all_marks \<longrightarrow> map_of (ps_args ?ps) k = map_of (ev_Args ev) k"
    using turns_args [OF reg, of _ "en_cfg ?e" ev history ?start] by simp
  have res: "snd (Engine_Evaluate ?e ev) = map (resolve (ps_args ?ps)) new"
    using False new(1) by (simp add: Engine_Evaluate_def Let_def tr)
  have "list_all (about_event ev) (map (resolve (ps_args ?ps)) new)"
    using new(2) by (auto simp: list_all_iff about_event_def resolve_def)
  moreover have "list_all (\<lambda>a. (al_Rule a = RuleNameAttackChain \<and> al_Severity a = SeverityCritical) \<or>
      (al_Rule a \<in> set (map rule_Name (en_rules ?e)) \<and> al_Args a = OwnArgs (ps_args ?ps)))
      (map (resolve (ps_args ?ps)) new)"
    using new(2) by (auto simp: list_all_iff raised_by_def resolve_def argsOf_def)
  ultimately show ?thesis
    using args new(3,4) False unfolding Let_def split_def res by auto
qed

definition quiet_host :: "string \<Rightarrow> FileMode option" where
  "quiet_host path = None"

definition sample_config :: Config where
  "sample_config = DefaultConfig quiet_host 1 (\<lambda>_. True)"

definition sample_engine :: Engine where
  "sample_engine =
     \<lparr>en_rules = allRules, en_tracker = NewTracker, en_correlator = NewCorrelator DefaultStorylineConfig,
      en_dedup = newDeduper 5000000000, en_cfg = sample_config\<rparr>"

lemma sample_engine_new: "NewEngine sample_config [] = Inr sample_engine"
  by (simp add: NewEngine_def sample_engine_def sample_config_def DefaultConfig_def AllRules_def Let_def)

theorem Evaluate_alerts_witness:
  "case Engine_Evaluate sample_engine (open_event ''/etc/shadow'') of (e', alerts) \<Rightarrow>
     list_all (about_event (open_event ''/etc/shadow'')) alerts \<and> length alerts \<le> 2 * length (en_rules sample_engine)"
  using Evaluate_alerts [OF sample_engine_new, of "[]" "open_event ''/etc/shadow''"]
  by (simp add: engine_run_def split_def Let_def)

section \<open>Detection end to end\<close>

lemma engine_tracker:
  "en_tracker (engine_run evs e) =
     Tracker_run (filter (\<lambda>ev. ev_PID ev \<noteq> cfg_SelfPID (en_cfg e)) evs) (en_tracker e)"
proof (induction evs rule: rev_induct)
  case Nil
  then show ?case by (simp add: engine_run_def)
next
  case (snoc ev evs)
  then show ?case
    by (auto simp: engine_run_snoc Engine_Evaluate_def Let_def keep Tracker_run_snoc split: prod.split)
qed

lemma key_prefix:
  assumes "plain (al_Rule a)" and "plain r"
  shows "prefix (r @ ''|'' @ FormatUint p @ ''|'') (dedupKey m a) \<longleftrightarrow> al_Rule a = r \<and> al_PID a = p"
proof
  assume "prefix (r @ ''|'' @ FormatUint p @ ''|'') (dedupKey m a)"
  then obtain zs where "dedupKey m a = r @ CHR ''|'' # (FormatUint p @ CHR ''|'' # zs)"
    by (auto simp: prefix_def)
  then have "al_Rule a @ CHR ''|'' # (FormatUint (al_PID a) @ CHR ''|'' # (al_MitreID a @ ''|'' @ al_Syscall a @
      key_args (argsOf m a) identityArgs)) = r @ CHR ''|'' # (FormatUint p @ CHR ''|'' # zs)"
    by (simp add: dedupKey_def)
  from append_sep_inject [OF this] assms have rule: "al_Rule a = r"
    and "FormatUint (al_PID a) @ CHR ''|'' # (al_MitreID a @ ''|'' @ al_Syscall a @
      key_args (argsOf m a) identityArgs) = FormatUint p @ CHR ''|'' # zs" by (simp_all add: plain_def)
  note rest = this(2)
  have bar: "CHR ''|'' \<notin> set (FormatUint v)" for v :: u32 using plain_FormatUint by (simp add: plain_def)
  have "FormatUint (al_PID a) = FormatUint p" using append_sep_inject [OF rest bar bar] by simp
  with rule show "al_Rule a = r \<and> al_PID a = p" by simp
next
  assume "al_Rule a = r \<and> al_PID a = p"
  then show "prefix (r @ ''|'' @ FormatUint p @ ''|'') (dedupKey m a)" by (auto simp: dedupKey_def prefix_def)
qed

text \<open>No finding of the reverse-shell rule for process \<open>p\<close> is in the deduplicator.\<close>

definition shell_key :: "u32 \<Rightarrow> string" where
  "shell_key p = RuleNameReverseShell @ ''|'' @ FormatUint p @ ''|''"

definition unseen :: "u32 \<Rightarrow> deduper option \<Rightarrow> bool" where
  "unseen p d = (case d of None \<Rightarrow> True | Some d \<Rightarrow> dedup_wf d \<and> (\<forall>e \<in> set (dd_seen d). \<not> prefix (shell_key p) (fst e)))"

lemma unseen_admit:
  assumes "unseen p d" and "\<not> prefix (shell_key p) (dedupKey m a)" and "deduper_admit d m a now = (d', a', ok)"
  shows "unseen p d'"
proof (cases d)
  case None
  then show ?thesis using assms by (simp add: deduper_admit_def)
next
  case (Some d0)
  let ?s = "deduper_maybeSweep now d0"
  have wf: "dedup_wf d0" using assms(1) Some by (simp add: unseen_def)
  obtain d1 where d1: "d' = Some d1" "d1 = fst (admit_key (dedupKey m a) now a ?s)"
    using assms(3) Some by (auto simp: deduper_admit_def split: prod.splits)
  obtain e where e: "dd_seen d1 = mapset (dedupKey m a) e (dd_seen ?s)"
    using admit_key_seen [of "dedupKey m a" now a ?s] d1(2) by blast
  have "set (dd_seen ?s) \<subseteq> set (dd_seen d0)" using dd.sweep_subset [OF wf] .
  moreover have "distinct_keys (dd_seen ?s)" using sweep_wf [OF wf] by (simp add: dedup_wf_def)
  ultimately have "\<forall>x \<in> set (dd_seen d1). \<not> prefix (shell_key p) (fst x)"
    using assms(1,2) Some by (fastforce simp: e set_mapset unseen_def)
  moreover have "dedup_wf d1" unfolding d1(2) by (intro wf_intros wf)
  ultimately show ?thesis by (simp add: d1(1) unseen_def)
qed

lemma unseen_fresh_admitted:
  assumes "unseen p d" and "prefix (shell_key p) (dedupKey m a)" and "deduper_admit d m a now = (d', a', ok)"
  shows "ok"
proof (cases d)
  case None
  then show ?thesis using assms by (simp add: deduper_admit_def)
next
  case (Some d0)
  let ?s = "deduper_maybeSweep now d0"
  have "set (dd_seen ?s) \<subseteq> set (dd_seen d0)" using dd.sweep_subset assms(1) Some by (simp add: unseen_def)
  then have "map_of (dd_seen ?s) (dedupKey m a) = None"
    using assms(1,2) Some by (fastforce simp: unseen_def map_of_eq_None_iff)
  then show ?thesis using assms(3) Some by (simp add: deduper_admit_def admit_key_def)
qed

lemma plain_rule_names: "r \<in> set allRules \<Longrightarrow> plain (rule_Name r)"
  by (auto simp: allRules_def plain_def rule_name_defs)

lemma revshell_entry:
  "ev_IsExit (cx_Event c) \<or> \<not> IsExecution (ev_SyscallID (cx_Event c)) \<Longrightarrow> snd (evalReverseShell c) = None"
  by (auto simp: evalReverseShell_def Let_def)

lemma turn_unseen:
  assumes r: "r \<in> set allRules" and "unseen p (ps_dedup ps)"
    and safe: "rule_Name r \<noteq> RuleNameReverseShell \<or> ev_PID ev \<noteq> p \<or> ev_IsExit ev \<or> \<not> IsExecution (ev_SyscallID ev)"
  shows "unseen p (ps_dedup (rule_turn cfg ev h r ps))"
proof -
  let ?c = "\<lparr>cx_Event = ev\<lparr>ev_Args := ps_args ps\<rparr>, cx_History = h, cx_Config = cfg\<rparr>"
  note contract = registry_contract [OF r]
  show ?thesis
  proof (cases "snd (rule_Eval r ?c)")
    case None
    then show ?thesis using assms(2) by (cases "rule_Eval r ?c") (simp add: rule_turn_def)
  next
    case (Some a)
    obtain m where ev: "rule_Eval r ?c = (m, Some a)" using Some by (metis prod.collapse)
    obtain co a1 k where co: "correlate_opt (ps_correlator ps) m ev a = (co, a1, k)" by (metis prod.exhaust)
    obtain d a2 ok where ad: "deduper_admit (ps_dedup ps) m a1 (ev_Timestamp ev) = (d, a2, ok)"
      by (metis prod.exhaust)
    have a1: "al_Rule a1 = rule_Name r" "al_PID a1 = ev_PID ev"
      using correlate_opt_alerts(1) [OF co] detection_rule.alert_identity [OF contract Some] by auto
    have "\<not> (rule_Name r = RuleNameReverseShell \<and> ev_PID ev = p)"
    proof
      assume *: "rule_Name r = RuleNameReverseShell \<and> ev_PID ev = p"
      then have "r = ruleReverseShell" using r by (auto simp: allRules_def rule_name_defs)
      then have "snd (evalReverseShell ?c) \<noteq> None" using Some by (simp add: ruleReverseShell_def)
      then have "\<not> ev_IsExit ev \<and> IsExecution (ev_SyscallID ev)"
        using revshell_entry [of ?c] by (cases "ev_IsExit ev \<or> \<not> IsExecution (ev_SyscallID ev)") simp_all
      with * safe show False by simp
    qed
    then have "\<not> prefix (shell_key p) (dedupKey m a1)"
      using key_prefix [of a1 RuleNameReverseShell p m] a1 plain_rule_names [OF r]
      by (simp add: shell_key_def plain_def rule_name_defs(4))
    from unseen_admit [OF assms(2) this ad] show ?thesis by (simp add: turn_loud [OF ev co ad])
  qed
qed

lemma turns_unseen:
  assumes "set rs \<subseteq> set allRules" and "unseen p (ps_dedup ps)"
    and "RuleNameReverseShell \<notin> set (map rule_Name rs) \<or> ev_PID ev \<noteq> p \<or> ev_IsExit ev \<or> \<not> IsExecution (ev_SyscallID ev)"
  shows "unseen p (ps_dedup (fold (rule_turn cfg ev h) rs ps))"
  using assms
proof (induction rs arbitrary: ps)
  case (Cons r rs)
  have "unseen p (ps_dedup (rule_turn cfg ev h r ps))"
    by (rule turn_unseen) (use Cons.prems in auto)
  with Cons show ?case by auto
qed simp

lemma run_unseen:
  assumes "set (en_rules e) \<subseteq> set allRules" and "unseen p (en_dedup e)"
    and "list_all (\<lambda>x. ev_PID x \<noteq> p \<or> ev_IsExit x \<or> \<not> IsExecution (ev_SyscallID x)) evs"
  shows "unseen p (en_dedup (engine_run evs e))"
  using assms(3)
proof (induction evs rule: rev_induct)
  case Nil
  then show ?case using assms(2) by (simp add: engine_run_def)
next
  case (snoc x evs)
  then have IH: "unseen p (en_dedup (engine_run evs e))" by simp
  have safe: "ev_PID x \<noteq> p \<or> ev_IsExit x \<or> \<not> IsExecution (ev_SyscallID x)" using snoc.prems by simp
  obtain t h where tr: "Tracker_Record (en_tracker (engine_run evs e)) x = (t, h)" by (rule prod.exhaust)
  have "unseen p (ps_dedup (fold (rule_turn (en_cfg (engine_run evs e)) x h) (en_rules (engine_run evs e))
      \<lparr>ps_args = ev_Args x, ps_correlator = observe_opt x (en_correlator (engine_run evs e)),
       ps_dedup = en_dedup (engine_run evs e), ps_alerts = []\<rparr>))"
    by (rule turns_unseen) (use assms(1) IH safe in \<open>auto simp: keep\<close>)
  then show ?case using IH by (simp add: engine_run_snoc Engine_Evaluate_def Let_def tr)
qed

lemma turns_keep_alerts:
  "set rs \<subseteq> set allRules \<Longrightarrow> a \<in> set (ps_alerts ps) \<Longrightarrow> a \<in> set (ps_alerts (fold (rule_turn cfg ev h) rs ps))"
  using turns_alerts [of rs allRules cfg ev h ps] by auto

text \<open>An execution whose history holds the chain is reported, when no such finding is folded.\<close>

lemma shell_turn:
  assumes "chain_in (Within h (ev_Timestamp ev) (cfg_RevShellWindow cfg))" and "\<not> cfg_IgnoreLoopback cfg"
    and "\<not> ev_IsExit ev" and "IsExecution (ev_SyscallID ev)" and "unseen (ev_PID ev) (ps_dedup ps)"
  shows "\<exists>a \<in> set (ps_alerts (rule_turn cfg ev h ruleReverseShell ps)).
    al_Rule a = RuleNameReverseShell \<and> al_Severity a = SeverityCritical \<and> al_PID a = ev_PID ev"
proof -
  let ?c = "\<lparr>cx_Event = ev\<lparr>ev_Args := ps_args ps\<rparr>, cx_History = h, cx_Config = cfg\<rparr>"
  obtain chain where chain: "findChain (Within h (ev_Timestamp ev) (cfg_RevShellWindow cfg)) = Some chain"
    using findChain_iff assms(1) by blast
  have hist: "Within h (ev_Timestamp ev) (cfg_RevShellWindow cfg) \<noteq> []" using assms(1) within_empty by auto
  have "snd (evalReverseShell ?c) \<noteq> None" using chain hist assms(2-4) by (simp add: evalReverseShell_def Let_def)
  then obtain a where Some: "snd (rule_Eval ruleReverseShell ?c) = Some a" by (auto simp: ruleReverseShell_def)
  have sev: "al_Severity a = SeverityCritical"
    using Some by (cases rule: evalReverseShell_cases [of ?c]) (auto simp: ruleReverseShell_def newAlert_def)
  obtain m where ev: "rule_Eval ruleReverseShell ?c = (m, Some a)" using Some by (metis prod.collapse)
  obtain co a1 k where co: "correlate_opt (ps_correlator ps) m ev a = (co, a1, k)" by (metis prod.exhaust)
  obtain d a2 ok where ad: "deduper_admit (ps_dedup ps) m a1 (ev_Timestamp ev) = (d, a2, ok)"
    by (metis prod.exhaust)
  have r: "ruleReverseShell \<in> set allRules" by (simp add: allRules_def)
  have a1: "al_Rule a1 = RuleNameReverseShell" "al_PID a1 = ev_PID ev" "al_Severity a1 = SeverityCritical"
    using correlate_opt_alerts(1) [OF co] detection_rule.alert_identity [OF registry_contract [OF r] Some] sev by auto
  then have "prefix (shell_key (ev_PID ev)) (dedupKey m a1)"
    using key_prefix [of a1 RuleNameReverseShell "ev_PID ev" m]
    by (simp add: shell_key_def plain_def rule_name_defs(4))
  from unseen_fresh_admitted [OF assms(5) this ad] have ok .
  obtain n where "a2 = a1\<lparr>al_Suppressed := n\<rparr>" using admit_alert [OF ad] by blast
  with a1 \<open>ok\<close> show ?thesis using turn_loud [OF ev co ad] by simp
qed

lemma NewEngine_start:
  assumes "NewEngine cfg enabled = Inr e"
  shows "en_tracker e = NewTracker" and "en_dedup e = newDeduper (cfg_DedupWindow cfg)"
    and "cfg_SelfPID (en_cfg e) = cfg_SelfPID cfg" and "cfg_IgnoreLoopback (en_cfg e) = cfg_IgnoreLoopback cfg"
  using assms by (auto simp: NewEngine_def Let_def split: if_splits prod.splits)

lemma newDeduper_unseen: "unseen p (newDeduper w)"
  by (simp add: newDeduper_def unseen_def dedup_wf_def)

lemma exec_tracked: "IsExecution sc \<Longrightarrow> tracked sc"
  by (auto simp: IsExecution_def tracked_def)

text \<open>C1. The reverse shell is detected end to end.  Take any stream of events in time order, of fewer than
  8192 processes, none of them the agent and no two events further apart than the history's TTL.  When a process enters
  its first exec call and its last 32 tracked calls contain, inside the detection window, a socket, a
  connect and redirections of two standard streams in this order, then an engine running the rule
  (with loopback connections not ignored) emits a CRITICAL reverse-shell alert for the process,
  whatever the other processes did and whatever the deduplicator holds.\<close>

theorem engine_detects_reverse_shell:
  assumes new: "NewEngine cfg enabled = Inr e0" and "RuleNameReverseShell \<in> set (map rule_Name (en_rules e0))"
    and "\<not> cfg_IgnoreLoopback cfg"
    and "list_all (\<lambda>e. ev_PID e \<noteq> cfg_SelfPID cfg) (evs @ [ev])" and "sorted (map ev_Timestamp (evs @ [ev]))"
    and "no_gap defaultTTL (evs @ [ev])" and "card (ev_PID ` set (evs @ [ev])) < defaultMaxProcesses"
    and "list_all (\<lambda>e. ev_PID e \<noteq> ev_PID ev \<or> ev_IsExit e \<or> \<not> IsExecution (ev_SyscallID e)) evs"
    and "\<not> ev_IsExit ev" and "IsExecution (ev_SyscallID ev)"
    and "chain_in (filter (\<lambda>h. cutoff_of (ev_Timestamp ev) (cfg_RevShellWindow (en_cfg e0)) \<le> he_Timestamp h)
           (trim_to 32 (map entry_of (events_of (ev_PID ev) (evs @ [ev])))))"
  shows "\<exists>a \<in> set (snd (Engine_Evaluate (engine_run evs e0) ev)).
    al_Rule a = RuleNameReverseShell \<and> al_Severity a = SeverityCritical \<and> al_PID a = ev_PID ev"
proof -
  let ?e = "engine_run evs e0" and ?w = "cfg_RevShellWindow (en_cfg e0)"
  note start = NewEngine_start [OF new]
  have reg: "set (en_rules ?e) \<subseteq> set allRules" using NewEngine_registry [OF new] by (simp add: keep)
  have "filter (\<lambda>x. ev_PID x \<noteq> cfg_SelfPID (en_cfg e0)) evs = evs"
    using assms(4) start(3) by (simp add: filter_id_conv list_all_iff)
  then have tk: "en_tracker ?e = Tracker_run evs NewTracker" using engine_tracker [of evs e0] start(1) by simp
  obtain t h where tr: "Tracker_Record (Tracker_run evs NewTracker) ev = (t, h)" by (rule prod.exhaust)
  have "h = recent defaultHistoryDepth (evs @ [ev]) (ev_PID ev)"
    using Record_recent [OF assms(6,7) exec_tracked [OF assms(10)]] tr by simp
  moreover have "ev \<in> set (events_of (ev_PID ev) (evs @ [ev]))"
    using exec_tracked [OF assms(10)] by (simp add: events_of_def)
  ultimately obtain ph where ph: "h = Some ph" "ph_entries ph = trim_to 32 (map entry_of (events_of (ev_PID ev) (evs @ [ev])))"
    by (cases "events_of (ev_PID ev) (evs @ [ev]) = []") (auto simp: recent_def Let_def)
  have "Within h (ev_Timestamp ev) ?w = filter (\<lambda>x. cutoff_of (ev_Timestamp ev) ?w \<le> he_Timestamp x) (ph_entries ph)"
    unfolding ph(1) by (rule Within_filter [OF Record_history_sorted [OF assms(5)]]) (simp add: tr ph(1))
  then have chain: "chain_in (Within h (ev_Timestamp ev) ?w)" using assms(11) ph(2) by simp
  have "unseen (ev_PID ev) (en_dedup ?e)"
    by (rule run_unseen) (use NewEngine_registry [OF new] newDeduper_unseen start(2) assms(8) in simp_all)
  have "ruleReverseShell \<in> set (en_rules ?e)"
    using assms(2) reg by (auto simp: keep allRules_def rule_name_defs)
  then obtain xs ys where rules: "en_rules ?e = xs @ ruleReverseShell # ys" "ruleReverseShell \<notin> set xs"
    by (metis split_list_first)
  let ?start = "\<lparr>ps_args = ev_Args ev, ps_correlator = observe_opt ev (en_correlator ?e),
    ps_dedup = en_dedup ?e, ps_alerts = []\<rparr>"
  let ?turn = "rule_turn (en_cfg ?e) ev h"
  let ?mid = "fold ?turn xs ?start"
  have "RuleNameReverseShell \<notin> set (map rule_Name xs)"
    using rules reg by (auto simp: allRules_def rule_name_defs)
  then have "unseen (ev_PID ev) (ps_dedup ?mid)"
    using turns_unseen [of xs "ev_PID ev" ?start ev] reg rules(1) \<open>unseen (ev_PID ev) (en_dedup ?e)\<close> by simp
  then obtain a where a: "a \<in> set (ps_alerts (?turn ruleReverseShell ?mid))"
    "al_Rule a = RuleNameReverseShell" "al_Severity a = SeverityCritical" "al_PID a = ev_PID ev"
    using shell_turn [of h ev "en_cfg ?e" ?mid] chain assms(3,9,10) start(4) by (auto simp: keep)
  let ?ps = "fold ?turn (en_rules ?e) ?start"
  have "a \<in> set (ps_alerts ?ps)"
    using turns_keep_alerts [of ys a "?turn ruleReverseShell ?mid"] a(1) reg rules(1) by simp
  moreover have "snd (Engine_Evaluate ?e ev) = map (resolve (ps_args ?ps)) (ps_alerts ?ps)"
    using assms(4) start(3) by (simp add: Engine_Evaluate_def Let_def tk tr keep)
  ultimately show ?thesis using a(2-4) by (intro bexI [of _ "resolve (ps_args ?ps) a"]) (simp_all add: resolve_def)
qed

text \<open>A bash one-liner: socket, connect, two redirections, exec, within half a second.\<close>

definition shell_event :: "Syscall \<Rightarrow> u64 \<Rightarrow> i64 \<Rightarrow> i64 \<Rightarrow> Event" where
  "shell_event sc ts a0 a1 =
     Decode (sample_raw\<lparr>r_SyscallID := sc, r_Timestamp := ts, r_Arg0 := a0, r_Arg1 := a1\<rparr>) 0"

lemma shell_event_fields [simp]:
  "ev_SyscallID (shell_event sc ts a0 a1) = sc" "ev_PID (shell_event sc ts a0 a1) = 1000"
  "ev_Timestamp (shell_event sc ts a0 a1) = ts" "ev_IsExit (shell_event sc ts a0 a1) = False"
  "ev_Arg1 (shell_event sc ts a0 a1) = a1"
  by (simp_all add: shell_event_def Decode_def decode_base_def sample_raw_def Raw_IsExit_def Let_def)

definition shell_setup :: "Event list" where
  "shell_setup =
     [shell_event SysSocket 1000000000 2 1, shell_event SysConnect 1100000000 3 0,
      shell_event SysDup2 1200000000 3 0, shell_event SysDup2 1300000000 3 1]"

abbreviation shell_exec :: Event where
  "shell_exec \<equiv> shell_event SysExecve 1400000000 0 0"

lemma shell_events_of: "events_of 1000 (shell_setup @ [shell_exec]) = shell_setup @ [shell_exec]"
  by (simp add: shell_setup_def events_of_def tracked_def)

lemma shell_chain:
  "chain_in (filter (\<lambda>h. cutoff_of 1400000000 2000000000 \<le> he_Timestamp h)
     (trim_to 32 (map entry_of (shell_setup @ [shell_exec]))))"
proof -
  let ?s = "entry_of (shell_event SysSocket 1000000000 2 1)" and ?c = "entry_of (shell_event SysConnect 1100000000 3 0)"
  let ?d = "entry_of (shell_event SysDup2 1200000000 3 0)" and ?f = "entry_of (shell_event SysDup2 1300000000 3 1)"
  have "filter (\<lambda>h. cutoff_of 1400000000 2000000000 \<le> he_Timestamp h) (trim_to 32 (map entry_of (shell_setup @ [shell_exec]))) =
      [?s, ?c, ?d, ?f] @ [entry_of shell_exec]"
    by (simp add: shell_setup_def trim_to_def cutoff_of_def)
  moreover have "subseq [?s, ?c, ?d, ?f] ([?s, ?c, ?d, ?f] @ [entry_of shell_exec])"
    using subseq_order.order_refl [of "[?s, ?c, ?d, ?f]"] by (rule subseq_rev_drop_many)
  moreover have "is_socket ?s" "is_connect ?c" "std_dup ?d" "std_dup ?f" "he_Arg1 ?d \<noteq> he_Arg1 ?f"
    by (simp_all add: is_socket_def is_connect_def std_dup_def entry_of_def IsDup_def)
  ultimately show ?thesis unfolding chain_in_def by (metis (no_types))
qed

theorem engine_detects_reverse_shell_witness:
  "\<exists>a \<in> set (snd (Engine_Evaluate (engine_run shell_setup sample_engine) shell_exec)).
    al_Rule a = RuleNameReverseShell \<and> al_Severity a = SeverityCritical \<and> al_PID a = 1000"
proof -
  have pids: "ev_PID ` set (shell_setup @ [shell_exec]) = {1000}" by (auto simp: shell_setup_def)
  have w: "cfg_RevShellWindow (en_cfg sample_engine) = 2000000000"
    by (simp add: sample_engine_def sample_config_def DefaultConfig_def)
  have "\<exists>a \<in> set (snd (Engine_Evaluate (engine_run shell_setup sample_engine) shell_exec)).
    al_Rule a = RuleNameReverseShell \<and> al_Severity a = SeverityCritical \<and> al_PID a = ev_PID shell_exec"
  proof (rule engine_detects_reverse_shell [OF sample_engine_new])
    show "RuleNameReverseShell \<in> set (map rule_Name (en_rules sample_engine))"
      by (simp add: sample_engine_def allRules_def)
    show "\<not> cfg_IgnoreLoopback sample_config" by (simp add: sample_config_def DefaultConfig_def)
    show "list_all (\<lambda>e. ev_PID e \<noteq> cfg_SelfPID sample_config) (shell_setup @ [shell_exec])"
      by (simp add: shell_setup_def sample_config_def DefaultConfig_def)
    show "sorted (map ev_Timestamp (shell_setup @ [shell_exec]))" by (simp add: shell_setup_def)
    show "no_gap defaultTTL (shell_setup @ [shell_exec])" by (simp add: shell_setup_def no_gap_def)
    show "card (ev_PID ` set (shell_setup @ [shell_exec])) < defaultMaxProcesses" unfolding pids by simp
    show "list_all (\<lambda>e. ev_PID e \<noteq> ev_PID shell_exec \<or> ev_IsExit e \<or> \<not> IsExecution (ev_SyscallID e)) shell_setup"
      by (simp add: shell_setup_def IsExecution_def)
    show "\<not> ev_IsExit shell_exec" "IsExecution (ev_SyscallID shell_exec)" by (simp_all add: IsExecution_def)
    show "chain_in (filter (\<lambda>h. cutoff_of (ev_Timestamp shell_exec) (cfg_RevShellWindow (en_cfg sample_engine)) \<le> he_Timestamp h)
        (trim_to 32 (map entry_of (events_of (ev_PID shell_exec) (shell_setup @ [shell_exec])))))"
      using shell_chain by (simp only: w shell_event_fields shell_events_of)
  qed
  then show ?thesis by simp
qed

end
