(* ===== verification/PidFilter.thy ===== *)
theory PidFilter
  imports Events "HOL-Library.Multiset"
begin

text \<open>
  \<^verbatim>\<open>cmd/krnlsentry/pidfilter.go\<close>: the filter behind \<open>--pid\<close> and the \<open>/proc\<close> readers.  The file system
  is a parameter: \<open>readDir\<close> lists \<open>/proc\<close> (a name and whether it is a directory), \<open>readFile\<close> gives the
  contents of a path; either may fail.  The order in which a map is ranged over is a parameter too.  The set \<open>tracked\<close> is a list without duplicates.
\<close>

type_synonym readDir = "string \<Rightarrow> (string \<times> bool) list option"
type_synonym readFile = "string \<Rightarrow> string option"

section \<open>The library functions used\<close>

text \<open>\<open>strconv.ParseUint(s, 10, 32)\<close>, with an error as \<open>None\<close>.\<close>

definition is_digit :: "char \<Rightarrow> bool" where
  "is_digit c \<longleftrightarrow> c \<in> set ''0123456789''"

definition ParseUint32 :: "string \<Rightarrow> u32 option" where
  "ParseUint32 s =
     (if s = [] \<or> \<not> list_all is_digit s then None
      else if digits_val 10 s < 4294967296 then Some (of_nat (digits_val 10 s)) else None)"

fun Fields_in :: "string \<Rightarrow> string \<Rightarrow> string list" where
  "Fields_in cur [] = (if cur = [] then [] else [cur])"
| "Fields_in cur (c # cs) =
     (if is_space c then (if cur = [] then Fields_in [] cs else cur # Fields_in [] cs)
      else Fields_in (cur @ [c]) cs)"

definition Fields :: "string \<Rightarrow> string list" where
  "Fields s = Fields_in [] s"

text \<open>\<open>strings.LastIndexByte\<close>, with \<open>-1\<close> as \<open>None\<close>.\<close>

fun LastIndexByte :: "string \<Rightarrow> char \<Rightarrow> nat option" where
  "LastIndexByte [] c = None"
| "LastIndexByte (x # xs) c =
     (case LastIndexByte xs c of Some i \<Rightarrow> Some (Suc i) | None \<Rightarrow> if x = c then Some 0 else None)"

section \<open>Reading /proc\<close>

definition proc_path :: "u32 \<Rightarrow> string \<Rightarrow> string" where
  "proc_path pid name = ''/proc/'' @ FormatUint pid @ ''/'' @ name"

definition parse_stat :: "string \<Rightarrow> u32 option" where
  "parse_stat line =
     (case LastIndexByte line (CHR '')'') of
        None \<Rightarrow> None
      | Some close \<Rightarrow>
          if length line \<le> close + 2 then None
          else let fields = Fields (drop (close + 2) line)
               in if length fields < 2 then None else ParseUint32 (fields ! 1))"

definition readPPID :: "readFile \<Rightarrow> u32 \<Rightarrow> u32 option" where
  "readPPID readFile pid =
     (case readFile (proc_path pid ''stat'') of None \<Rightarrow> None | Some data \<Rightarrow> parse_stat data)"

definition lookupProc :: "readFile \<Rightarrow> u32 \<Rightarrow> (u32 \<times> string) option" where
  "lookupProc readFile pid =
     (case readPPID readFile pid of
        None \<Rightarrow> None
      | Some ppid \<Rightarrow>
          (case readFile (proc_path pid ''comm'') of
             None \<Rightarrow> None
           | Some comm \<Rightarrow> Some (ppid, TrimSpace comm)))"

section \<open>The filter\<close>

record pidFilter =
  pf_root :: u32
  pf_tracked :: "u32 list"

definition track :: "u32 \<Rightarrow> u32 list \<Rightarrow> u32 list" where
  "track pid ts = (if pid \<in> set ts then ts else ts @ [pid])"

definition Allow :: "pidFilter \<Rightarrow> Event \<Rightarrow> pidFilter \<times> bool" where
  "Allow f ev =
     (if ev_PID ev \<in> set (pf_tracked f) then (f, True)
      else if ev_PPID ev \<in> set (pf_tracked f) then (f\<lparr>pf_tracked := track (ev_PID ev) (pf_tracked f)\<rparr>, True)
      else (f, False))"

definition pidFilter_Len :: "pidFilter \<Rightarrow> nat" where
  "pidFilter_Len f = length (pf_tracked f)"

fun collect_parents :: "readFile \<Rightarrow> (string \<times> bool) list \<Rightarrow> (u32, u32) gomap \<Rightarrow> (u32, u32) gomap" where
  "collect_parents readFile [] parents = parents"
| "collect_parents readFile ((name, isDir) # es) parents =
     (if \<not> isDir then collect_parents readFile es parents
      else case ParseUint32 name of
        None \<Rightarrow> collect_parents readFile es parents
      | Some pid \<Rightarrow>
          (case readPPID readFile pid of
             None \<Rightarrow> collect_parents readFile es parents
           | Some ppid \<Rightarrow> collect_parents readFile es (mapset pid ppid parents)))"

text \<open>One pass over the map, in the order \<open>parents\<close> happens to be ranged over, with the flag \<open>grew\<close>.\<close>

fun sweep_parents :: "(u32, u32) gomap \<Rightarrow> u32 list \<Rightarrow> bool \<Rightarrow> u32 list \<times> bool" where
  "sweep_parents [] tracked grew = (tracked, grew)"
| "sweep_parents ((pid, ppid) # ps) tracked grew =
     (if pid \<in> set tracked then sweep_parents ps tracked grew
      else if ppid \<in> set tracked then sweep_parents ps (tracked @ [pid]) True
      else sweep_parents ps tracked grew)"

lemma sweep_grows:
  "set tracked \<subseteq> set (fst (sweep_parents ps tracked grew)) \<and>
   set (fst (sweep_parents ps tracked grew)) \<subseteq> set tracked \<union> fst ` set ps"
  by (induction ps tracked grew rule: sweep_parents.induct) auto

lemma sweep_grew:
  "snd (sweep_parents ps tracked grew) \<Longrightarrow> \<not> grew \<Longrightarrow>
   \<exists>p \<in> fst ` set ps. p \<notin> set tracked \<and> p \<in> set (fst (sweep_parents ps tracked grew))"
proof (induction ps tracked grew rule: sweep_parents.induct)
  case (2 pid ppid ps tracked grew)
  show ?case
  proof (cases "pid \<notin> set tracked \<and> ppid \<in> set tracked")
    case True
    then show ?thesis using sweep_grows [of "tracked @ [pid]" ps True] by auto
  next
    case False
    then show ?thesis using 2 by (auto split: if_splits)
  qed
qed simp

text \<open>Each \<open>range\<close> over a Go map may take the entries in a different order.  A \<open>range_order\<close> picks one for
  every pass; what it picks counts only when it is a permutation of the entries, so that an arbitrary
  function stands for an arbitrary sequence of orders.\<close>

type_synonym range_order = "nat \<Rightarrow> (u32, u32) gomap \<Rightarrow> (u32, u32) gomap"

definition ranged :: "range_order \<Rightarrow> nat \<Rightarrow> (u32, u32) gomap \<Rightarrow> (u32, u32) gomap" where
  "ranged ord i m = (if mset (ord i m) = mset m then ord i m else m)"

lemma set_ranged [simp]: "set (ranged ord i m) = set m"
  unfolding ranged_def by (auto dest: mset_eq_setD)

function seed_loop :: "range_order \<Rightarrow> nat \<Rightarrow> (u32, u32) gomap \<Rightarrow> u32 list \<Rightarrow> u32 list" where
  "seed_loop ord i parents tracked =
     (case sweep_parents (ranged ord i parents) tracked False of
        (tracked', grew) \<Rightarrow> if \<not> grew then tracked' else seed_loop ord (Suc i) parents tracked')"
  by pat_completeness auto
termination
proof (relation "measure (\<lambda>(ord, i, parents, tracked). card (fst ` set parents - set tracked))")
  fix ord :: range_order and i and parents :: "(u32, u32) gomap" and tracked tracked' grew
  let ?sweep = "sweep_parents (ranged ord i parents) tracked False"
  assume "(tracked', grew) = ?sweep" and "\<not> \<not> grew"
  then have t': "tracked' = fst ?sweep" and g: "snd ?sweep" by (metis fst_conv, metis snd_conv)
  have sub: "fst ` set parents - set tracked' \<subseteq> fst ` set parents - set tracked"
    using sweep_grows [of tracked "ranged ord i parents" False] unfolding t' by auto
  obtain p where "p \<in> fst ` set parents" "p \<notin> set tracked" "p \<in> set tracked'"
    using sweep_grew [OF g] unfolding t' set_ranged by blast
  then have "fst ` set parents - set tracked' \<subset> fst ` set parents - set tracked" using sub by blast
  then show "((ord, Suc i, parents, tracked'), ord, i, parents, tracked) \<in>
      measure (\<lambda>(ord, i, parents, tracked). card (fst ` set parents - set tracked))"
    by (simp add: psubset_card_mono)
qed simp

declare seed_loop.simps [simp del]

definition seedFromProc :: "range_order \<Rightarrow> readDir \<Rightarrow> readFile \<Rightarrow> pidFilter \<Rightarrow> pidFilter" where
  "seedFromProc ord readDir readFile f =
     (case readDir ''/proc'' of
        None \<Rightarrow> f
      | Some entries \<Rightarrow>
          f\<lparr>pf_tracked := seed_loop ord 0 (collect_parents readFile entries []) (pf_tracked f)\<rparr>)"

definition newPIDFilter :: "range_order \<Rightarrow> readDir \<Rightarrow> readFile \<Rightarrow> u32 \<Rightarrow> pidFilter" where
  "newPIDFilter ord readDir readFile pid =
     seedFromProc ord readDir readFile \<lparr>pf_root = pid, pf_tracked = [pid]\<rparr>"

section \<open>Who is tracked\<close>

inductive descends :: "(u32 \<times> u32) set \<Rightarrow> u32 \<Rightarrow> u32 \<Rightarrow> bool" for edges root where
  itself: "descends edges root root"
| child: "descends edges root ppid \<Longrightarrow> (pid, ppid) \<in> edges \<Longrightarrow> descends edges root pid"

inductive_simps descends_no_edge: "descends {} root pid"

lemma descends_mono: "descends A root p \<Longrightarrow> A \<subseteq> B \<Longrightarrow> descends B root p"
  by (induction rule: descends.induct) (auto intro: descends.intros)

lemma sweep_sound:
  "\<forall>p \<in> set tracked. descends E root p \<Longrightarrow> set ps \<subseteq> E \<Longrightarrow>
   \<forall>p \<in> set (fst (sweep_parents ps tracked grew)). descends E root p"
proof (induction ps tracked grew rule: sweep_parents.induct)
  case (2 pid ppid ps tracked grew)
  then have "ppid \<in> set tracked \<Longrightarrow> descends E root pid" by (auto intro: descends.child)
  with 2 show ?case by simp
qed simp

lemma sweep_settled:
  "\<not> snd (sweep_parents ps tracked grew) \<Longrightarrow>
   fst (sweep_parents ps tracked grew) = tracked \<and> \<not> grew \<and>
   (\<forall>(pid, ppid) \<in> set ps. ppid \<in> set tracked \<longrightarrow> pid \<in> set tracked)"
  by (induction ps tracked grew rule: sweep_parents.induct) (auto split: if_splits)

lemma seed_loop_spec:
  assumes "\<forall>p \<in> set tracked. descends (set parents) root p" and "root \<in> set tracked"
  shows "set (seed_loop ord i parents tracked) = {p. descends (set parents) root p}"
  using assms
proof (induction ord i parents tracked rule: seed_loop.induct)
  case (1 ord i parents tracked)
  let ?ps = "ranged ord i parents"
  obtain t' grew where sw: "sweep_parents ?ps tracked False = (t', grew)" by (rule prod.exhaust)
  have sound: "\<forall>p \<in> set t'. descends (set parents) root p"
    using sweep_sound [OF 1(2), of ?ps False] sw by simp
  have root: "root \<in> set t'" using sweep_grows [of tracked ?ps False] 1(3) sw by auto
  show ?case
  proof (cases grew)
    case True
    then show ?thesis using 1(1) [OF sw [symmetric] _ sound root] sw by (simp add: seed_loop.simps [of ord i parents tracked])
  next
    case False
    then have closed: "t' = tracked" "\<forall>(pid, ppid) \<in> set parents. ppid \<in> set tracked \<longrightarrow> pid \<in> set tracked"
      using sweep_settled [of ?ps tracked False] sw by auto
    have "p \<in> set t'" if "descends (set parents) root p" for p
      using that by induction (use root closed in auto)
    then show ?thesis using sound False sw by (auto simp: seed_loop.simps [of ord i parents tracked])
  qed
qed

text \<open>C24. Seeding finds exactly the process tree: whatever order each pass ranges over the parent map in, the filter
  starts with the root and all processes that reach it through the parent links read from \<open>/proc\<close>,
  and no other; when \<open>/proc\<close> cannot be listed it starts with the root alone.\<close>

theorem newPIDFilter_tree:
  "set (pf_tracked (newPIDFilter ord readDir readFile root)) =
     (case readDir ''/proc'' of
        None \<Rightarrow> {root}
      | Some entries \<Rightarrow> {p. descends (set (collect_parents readFile entries [])) root p})"
proof (cases "readDir ''/proc''")
  case None
  then show ?thesis by (simp add: newPIDFilter_def seedFromProc_def)
next
  case (Some entries)
  then show ?thesis
    using seed_loop_spec [of "[root]" "collect_parents readFile entries []" root ord 0]
    by (simp add: newPIDFilter_def seedFromProc_def descends.itself)
qed

definition Allow_run :: "Event list \<Rightarrow> pidFilter \<Rightarrow> pidFilter" where
  "Allow_run evs f = fold (\<lambda>ev f. fst (Allow f ev)) evs f"

definition event_edges :: "Event list \<Rightarrow> (u32 \<times> u32) set" where
  "event_edges evs = (\<lambda>ev. (ev_PID ev, ev_PPID ev)) ` set evs"

lemma Allow_tracked:
  "set (pf_tracked (fst (Allow f ev))) =
     set (pf_tracked f) \<union> (if ev_PPID ev \<in> set (pf_tracked f) then {ev_PID ev} else {})"
  by (auto simp: Allow_def track_def)

lemma Allow_verdict: "snd (Allow f ev) \<longleftrightarrow> ev_PID ev \<in> set (pf_tracked (fst (Allow f ev)))"
  by (auto simp: Allow_def track_def)

lemma Allow_run_snoc: "Allow_run (evs @ [ev]) f = fst (Allow (Allow_run evs f) ev)"
  by (simp add: Allow_run_def)

text \<open>The filter admits an event exactly when its process or its parent is in scope by then; whoever is
  in scope stays in scope; and everyone in scope after any stream descends from a process that was in
  scope at the start, through parent links that events of the stream carried.\<close>

theorem Allow_scope:
  "(case Allow (Allow_run evs f) ev of (f', ok) \<Rightarrow>
     (ok \<longleftrightarrow> ev_PID ev \<in> set (pf_tracked (Allow_run evs f)) \<or> ev_PPID ev \<in> set (pf_tracked (Allow_run evs f))) \<and>
     (ok \<longleftrightarrow> ev_PID ev \<in> set (pf_tracked f')) \<and>
     set (pf_tracked f) \<subseteq> set (pf_tracked (Allow_run evs f)) \<and>
     set (pf_tracked (Allow_run evs f)) \<subseteq> set (pf_tracked f') \<and>
     set (pf_tracked (Allow_run evs f)) \<subseteq>
       {p. list_ex (\<lambda>root. descends (event_edges evs) root p) (pf_tracked f)})"
proof -
  have grow: "set (pf_tracked f) \<subseteq> set (pf_tracked (Allow_run evs f))"
    by (induction evs rule: rev_induct) (auto simp: Allow_run_snoc Allow_tracked, simp add: Allow_run_def)
  have sound: "\<forall>p \<in> set (pf_tracked (Allow_run evs f)). \<exists>root \<in> set (pf_tracked f). descends (event_edges evs) root p"
  proof (induction evs rule: rev_induct)
    case Nil
    then show ?case by (auto simp: Allow_run_def intro: descends.itself)
  next
    case (snoc ev evs)
    let ?E = "event_edges (evs @ [ev])"
    have old: "\<exists>root \<in> set (pf_tracked f). descends ?E root p" if "p \<in> set (pf_tracked (Allow_run evs f))" for p
      using snoc that descends_mono [of "event_edges evs" _ p ?E] by (fastforce simp: event_edges_def)
    have "(ev_PID ev, ev_PPID ev) \<in> ?E" by (simp add: event_edges_def)
    then have "\<exists>root \<in> set (pf_tracked f). descends ?E root (ev_PID ev)"
      if "ev_PPID ev \<in> set (pf_tracked (Allow_run evs f))"
      using old [OF that] descends.child by blast
    with old show ?case by (auto simp: Allow_run_snoc Allow_tracked split: if_splits)
  qed
  show ?thesis
    using grow sound Allow_tracked [of "Allow_run evs f" ev] Allow_verdict [of "Allow_run evs f" ev]
    by (auto simp: list_ex_iff split: prod.split if_splits)
qed

section \<open>Hostile process names\<close>

lemma LastIndexByte_None: "c \<notin> set xs \<Longrightarrow> LastIndexByte xs c = None"
  by (induction xs) auto

lemma LastIndexByte_at: "c \<notin> set ys \<Longrightarrow> LastIndexByte (xs @ c # ys) c = Some (length xs)"
  by (induction xs) (simp_all add: LastIndexByte_None)

lemma ParseUint32_FormatUint: "ParseUint32 (FormatUint (v :: u32)) = Some v"
proof -
  have "list_all is_digit (dec (unat v))" unfolding list_all_iff is_digit_def using set_dec by blast
  then show ?thesis
    using unat_u32_less [of v] by (simp add: ParseUint32_def FormatUint_def digits_val_dec)
qed

lemma Fields_word:
  "list_all (\<lambda>c. \<not> is_space c) w \<Longrightarrow> cur @ w \<noteq> [] \<Longrightarrow>
   Fields_in cur (w @ CHR '' '' # cs) = (cur @ w) # Fields_in [] cs"
proof (induction w arbitrary: cur)
  case Nil
  then show ?case by (simp add: is_space_def)
qed simp

lemma digits_no_space: "list_all (\<lambda>c. \<not> is_space c) (FormatUint v)"
  using set_dec [of "unat v"] by (auto simp: list_all_iff FormatUint_def is_space_def)

text \<open>The line the kernel writes to \<open>/proc/<pid>/stat\<close>.\<close>

definition stat_line :: "string \<Rightarrow> string \<Rightarrow> char \<Rightarrow> u32 \<Rightarrow> string \<Rightarrow> string" where
  "stat_line pid comm state ppid rest =
     pid @ '' ('' @ comm @ '') '' @ [state] @ '' '' @ FormatUint ppid @ '' '' @ rest"

text \<open>The parent is read correctly whatever the process calls itself: spaces and parentheses in its name
  cannot shift the fields, as long as no closing parenthesis follows the name.\<close>

theorem parse_stat_any_name:
  assumes "CHR '')'' \<notin> set (state # rest)" and "\<not> is_space state"
  shows "parse_stat (stat_line pid comm state ppid rest) = Some ppid"
proof -
  let ?front = "pid @ '' ('' @ comm" and ?at_name = "state # CHR '' '' # FormatUint ppid @ CHR '' '' # rest"
  have line: "stat_line pid comm state ppid rest = ?front @ CHR '')'' # CHR '' '' # ?at_name"
    by (simp add: stat_line_def)
  have "CHR '')'' \<notin> set (FormatUint ppid)" using not_in_dec [of "CHR '')''"] by (simp add: FormatUint_def)
  then have close: "LastIndexByte (stat_line pid comm state ppid rest) (CHR '')'') = Some (length ?front)"
    unfolding line by (intro LastIndexByte_at) (use assms in auto)
  have "drop (length a + 2) (a @ x # y # b) = b" for a b :: string and x y by simp
  then have rest: "drop (length ?front + 2) (stat_line pid comm state ppid rest) = ?at_name" by (simp only: line)
  have nonempty: "FormatUint ppid \<noteq> []" by (simp add: FormatUint_def)
  have "Fields ?at_name = [state] # FormatUint ppid # Fields_in [] rest"
    using Fields_word [of "FormatUint ppid" "[]" rest] Fields_word [of "[state]" "[]" "FormatUint ppid @ CHR '' '' # rest"]
      digits_no_space [of ppid] nonempty assms(2) by (simp add: Fields_def)
  moreover have "\<not> length (stat_line pid comm state ppid rest) \<le> length ?front + 2" by (simp add: line)
  ultimately show ?thesis
    unfolding parse_stat_def close option.case rest Let_def by (simp add: ParseUint32_FormatUint)
qed

theorem parse_stat_any_name_witness:
  "parse_stat (stat_line ''4242'' ''evil) R 1 (x'' (CHR ''S'') 977 ''4242 4242 0'') = Some 977"
  by (rule parse_stat_any_name) (simp_all add: is_space_def)

end
