(* ===== verification/GoErrors.thy ===== *)
theory GoErrors
  imports Prelude
begin

text \<open>
  Go's error values, as far as the program looks at them: the message, and the sentinels that
  \<open>errors.Is\<close> and \<open>errors.As\<close> find in the chain.  \<open>errorf\<close> is \<open>fmt.Errorf\<close> with a final \<open>%w\<close>.
\<close>

datatype sentinel = EPERM | ErrPermission | ENOTSUP | EINVAL | VerifierError string
  | ErrNotExist | OsErrClosed | RingbufErrClosed | ErrTooLong | ErrInterrupted

record goerror =
  er_msg :: string
  er_chain :: "sentinel list"

definition errorf :: "string \<Rightarrow> goerror \<Rightarrow> goerror" where
  "errorf text e = e\<lparr>er_msg := text @ er_msg e\<rparr>"

definition errors_New :: "string \<Rightarrow> goerror" where
  "errors_New text = \<lparr>er_msg = text, er_chain = []\<rparr>"

definition errors_Is :: "goerror \<Rightarrow> sentinel \<Rightarrow> bool" where
  "errors_Is e s \<longleftrightarrow> s \<in> set (er_chain e)"

definition errors_Join :: "goerror list \<Rightarrow> goerror option" where
  "errors_Join es =
     (if es = [] then None
      else Some \<lparr>er_msg = join [CHR 0x0A] (map er_msg es), er_chain = concat (map er_chain es)\<rparr>)"

lemma errors_Join_None: "errors_Join es = None \<longleftrightarrow> es = []"
  by (simp add: errors_Join_def)

lemma errors_Is_errorf [simp]: "errors_Is (errorf text e) s = errors_Is e s"
  by (simp add: errors_Is_def errorf_def)

end
