(* ===== verification/WireRecord.thy ===== *)
theory WireRecord
  imports Events
begin

text \<open>
  \<^verbatim>\<open>ebpfloader/decode.go\<close>: from the bytes of one ring-buffer record to a \<open>Raw\<close>.  The Go code overlays
  the struct that \<^verbatim>\<open>bpf/event.h\<close> declares on the bytes of the record; the struct has no implicit
  padding, so a field starts where the sizes before it end, and both supported machines are
  little-endian.  A C \<open>char\<close> is a byte here, as the code reinterprets it.
\<close>

section \<open>The layout\<close>

record KrnlSentryEvent =
  e_Timestamp :: u64
  e_Pid :: u32
  e_Tgid :: u32
  e_Uid :: u32
  e_Gid :: u32
  e_Ppid :: u32
  e_SyscallId :: u32
  e_Ret :: i64
  e_Arg0 :: i64
  e_Arg1 :: i64
  e_Arg2 :: i64
  e_Daddr :: u32
  e_Dport :: u16
  e_Family :: u16
  e_Argc :: u8
  e_Pad :: "u8 list"
  e_Flags :: u32
  e_Comm :: "u8 list"
  e_Path :: "u8 list"
  e_Argv :: "u8 list list"

definition COMM_LEN :: nat where [simp]: "COMM_LEN = 16"

definition PATH_LEN :: nat where [simp]: "PATH_LEN = 256"

definition ARG_LEN :: nat where [simp]: "ARG_LEN = 64"

definition MAX_ARGV :: nat where [simp]: "MAX_ARGV = 3"

definition field_sizes :: "nat list" where
  "field_sizes =
     [8, 4, 4, 4, 4, 4, 4, 8, 8, 8, 8, 4, 2, 2, 1, 3, 4, COMM_LEN, PATH_LEN, MAX_ARGV * ARG_LEN]"

definition eventSize :: nat where
  "eventSize = sum_list field_sizes"

definition field :: "nat \<Rightarrow> u8 list \<Rightarrow> u8 list" where
  "field i b = take (field_sizes ! i) (drop (sum_list (take i field_sizes)) b)"

text \<open>Little-endian integers.\<close>

primrec le_value :: "u8 list \<Rightarrow> nat" where
  "le_value [] = 0"
| "le_value (b # bs) = unat b + 256 * le_value bs"

definition le :: "u8 list \<Rightarrow> 'a::len word" where
  "le bs = of_nat (le_value bs)"

primrec nat_bytes :: "nat \<Rightarrow> nat \<Rightarrow> u8 list" where
  "nat_bytes 0 n = []"
| "nat_bytes (Suc k) n = of_nat (n mod 256) # nat_bytes k (n div 256)"

definition le_bytes :: "'a::len word \<Rightarrow> u8 list" where
  "le_bytes w = nat_bytes (LENGTH('a) div 8) (unat w)"

text \<open>The pointer cast: the record read at its field offsets.\<close>

definition overlay :: "u8 list \<Rightarrow> KrnlSentryEvent" where
  "overlay b =
     \<lparr>e_Timestamp = le (field 0 b), e_Pid = le (field 1 b), e_Tgid = le (field 2 b),
      e_Uid = le (field 3 b), e_Gid = le (field 4 b), e_Ppid = le (field 5 b),
      e_SyscallId = le (field 6 b), e_Ret = le (field 7 b), e_Arg0 = le (field 8 b),
      e_Arg1 = le (field 9 b), e_Arg2 = le (field 10 b), e_Daddr = le (field 11 b),
      e_Dport = le (field 12 b), e_Family = le (field 13 b), e_Argc = le (field 14 b),
      e_Pad = field 15 b, e_Flags = le (field 16 b), e_Comm = field 17 b, e_Path = field 18 b,
      e_Argv = map (\<lambda>i. take ARG_LEN (drop (i * ARG_LEN) (field 19 b))) [0..<MAX_ARGV]\<rparr>"

text \<open>The scan for the first NUL, and the strings.\<close>

function nul_scan :: "u8 list \<Rightarrow> nat \<Rightarrow> nat" where
  "nul_scan b n = (if n < length b \<and> b ! n \<noteq> 0 then nul_scan b (n + 1) else n)"
  by pat_completeness auto
termination by (relation "measure (\<lambda>(b, n). length b - n)") auto

declare nul_scan.simps [simp del]

definition goString :: "u8 list \<Rightarrow> string" where
  "goString b =
     (let n = nul_scan b 0 in if n = 0 then [] else map (\<lambda>c. char_of (unat c)) (take n b))"

definition parseRecord :: "u8 list \<Rightarrow> string + Raw" where
  "parseRecord b =
    (if length b < eventSize then
       Inl (''short event record: got '' @ dec (length b) @ '' bytes, want '' @ dec eventSize @
         '' (kernel object and agent are out of step)'')
     else
       let e = overlay b;
           argc = unat (e_Argc e);
           argc = (if length (e_Argv e) < argc then length (e_Argv e) else argc)
       in Inr
         \<lparr>r_Timestamp = e_Timestamp e, r_PID = e_Pid e, r_TGID = e_Tgid e, r_UID = e_Uid e,
          r_GID = e_Gid e, r_PPID = e_Ppid e, r_SyscallID = e_SyscallId e, r_Ret = e_Ret e,
          r_Arg0 = e_Arg0 e, r_Arg1 = e_Arg1 e, r_Arg2 = e_Arg2 e, r_Daddr = e_Daddr e,
          r_Dport = e_Dport e, r_Family = e_Family e, r_Flags = e_Flags e,
          r_Comm = goString (e_Comm e), r_Path = goString (e_Path e),
          r_Argv = (if 0 < argc then map (\<lambda>i. goString (e_Argv e ! i)) [0..<argc] else [])\<rparr>)"

section \<open>Reading what was laid out\<close>

lemma length_nat_bytes [simp]: "length (nat_bytes k n) = k"
  by (induction k arbitrary: n) auto

lemma le_value_nat_bytes: "le_value (nat_bytes k n) = n mod 256 ^ k"
proof (induction k arbitrary: n)
  case (Suc k)
  have "n mod 256 ^ Suc k = n mod 256 + 256 * (n div 256 mod 256 ^ k)"
    by (simp add: mod_mult2_eq)
  then show ?case using Suc by (simp add: unat_of_nat)
qed simp

lemma le_le_bytes [simp]:
  "le (le_bytes w) = (w :: u64)" "le (le_bytes v) = (v :: u32)"
  "le (le_bytes x) = (x :: u16)" "le (le_bytes y) = (y :: u8)"
proof -
  have "unat x < 65536" "unat y < 256" using unsigned_less [of x] unsigned_less [of y] by simp_all
  then show "le (le_bytes w) = w" "le (le_bytes v) = v" "le (le_bytes x) = x" "le (le_bytes y) = y"
    using unat_u64_less [of w] unat_u32_less [of v]
    by (simp_all add: le_def le_bytes_def le_value_nat_bytes)
qed

lemma length_le_bytes [simp]:
  "length (le_bytes (w :: u64)) = 8" "length (le_bytes (v :: u32)) = 4"
  "length (le_bytes (x :: u16)) = 2" "length (le_bytes (y :: u8)) = 1"
  by (simp_all add: le_bytes_def)

text \<open>The bytes the kernel writes for an event: its fields in order.\<close>

definition laid_out :: "KrnlSentryEvent \<Rightarrow> u8 list list" where
  "laid_out e =
     [le_bytes (e_Timestamp e), le_bytes (e_Pid e), le_bytes (e_Tgid e), le_bytes (e_Uid e),
      le_bytes (e_Gid e), le_bytes (e_Ppid e), le_bytes (e_SyscallId e), le_bytes (e_Ret e),
      le_bytes (e_Arg0 e), le_bytes (e_Arg1 e), le_bytes (e_Arg2 e), le_bytes (e_Daddr e),
      le_bytes (e_Dport e), le_bytes (e_Family e), le_bytes (e_Argc e), e_Pad e,
      le_bytes (e_Flags e), e_Comm e, e_Path e, concat (e_Argv e)]"

definition well_sized :: "KrnlSentryEvent \<Rightarrow> bool" where
  "well_sized e \<longleftrightarrow> length (e_Pad e) = 3 \<and> length (e_Comm e) = COMM_LEN \<and>
     length (e_Path e) = PATH_LEN \<and> length (e_Argv e) = MAX_ARGV \<and>
     list_all (\<lambda>a. length a = ARG_LEN) (e_Argv e)"

lemma concat_piece:
  "i < length bss \<Longrightarrow> take (length (bss ! i)) (drop (sum_list (map length (take i bss))) (concat bss)) = bss ! i"
proof (induction bss arbitrary: i)
  case (Cons b bss)
  then show ?case by (cases i) simp_all
qed simp

lemma three_of_three: "length xs = 3 \<Longrightarrow> \<exists>a b c. xs = [a, b, c]"
  by (auto simp: numeral_3_eq_3 length_Suc_conv)

lemma laid_out_sizes: "well_sized e \<Longrightarrow> map length (laid_out e) = field_sizes"
  by (auto simp: well_sized_def laid_out_def field_sizes_def dest!: three_of_three)

lemma field_laid_out:
  assumes "well_sized e" and "i < 20" shows "field i (concat (laid_out e) @ rest) = laid_out e ! i"
proof -
  have n: "length (laid_out e) = 20" by (simp add: laid_out_def)
  then have "field_sizes ! i = length (laid_out e ! i)" "take i field_sizes = map length (take i (laid_out e))"
    using assms by (simp_all add: laid_out_sizes [OF assms(1), symmetric] take_map)
  then show ?thesis
    using concat_piece [of i "laid_out e @ [rest]"] assms(2) n by (simp add: field_def nth_append)
qed

lemma overlay_laid_out:
  assumes "well_sized e" shows "overlay (concat (laid_out e) @ rest) = e"
proof -
  obtain a b c where argv: "e_Argv e = [a, b, c]"
    using assms three_of_three [of "e_Argv e"] by (auto simp: well_sized_def)
  then have "length a = 64" "length b = 64" "length c = 64" using assms by (simp_all add: well_sized_def)
  then have "map (\<lambda>i. take ARG_LEN (drop (i * ARG_LEN) (concat (e_Argv e)))) [0..<MAX_ARGV] = e_Argv e"
    by (simp add: argv upt_rec numeral_3_eq_3)
  then show ?thesis
    using field_laid_out [OF assms, of _ rest]
    by (simp add: overlay_def) (simp add: laid_out_def)
qed

lemma length_laid_out: "well_sized e \<Longrightarrow> length (concat (laid_out e)) = eventSize"
  using laid_out_sizes [of e] by (simp add: length_concat eventSize_def)

section \<open>Strings\<close>

lemma nul_scan_takeWhile: "n \<le> length b \<Longrightarrow> nul_scan b n = n + length (takeWhile (\<lambda>c. c \<noteq> 0) (drop n b))"
proof (induction b n rule: nul_scan.induct)
  case (1 b n)
  show ?case
  proof (cases "n < length b")
    case True
    then have "drop n b = b ! n # drop (Suc n) b" by (rule Cons_nth_drop_Suc [symmetric])
    then show ?thesis using 1 True by (subst nul_scan.simps) auto
  next
    case False
    then show ?thesis by (subst nul_scan.simps) auto
  qed
qed

lemma goString_takeWhile: "goString b = map (\<lambda>c. char_of (unat c)) (takeWhile (\<lambda>c. c \<noteq> 0) b)"
proof -
  let ?n = "length (takeWhile (\<lambda>c. c \<noteq> 0) b)"
  have "take ?n b = takeWhile (\<lambda>c. c \<noteq> 0) b" by (rule takeWhile_eq_take [symmetric])
  then show ?thesis by (auto simp: goString_def nul_scan_takeWhile Let_def)
qed

definition c_bytes :: "nat \<Rightarrow> string \<Rightarrow> u8 list" where
  "c_bytes n s = map of_char s @ replicate (n - length s) 0"

definition c_string :: "nat \<Rightarrow> string \<Rightarrow> bool" where
  "c_string n s \<longleftrightarrow> length s \<le> n \<and> CHR 0x00 \<notin> set s"

lemma char_byte: "char_of (unat (of_char c :: u8)) = c"
proof -
  have "(of_char c :: u8) = of_nat (of_char c)" by (simp add: of_nat_of_char)
  then have "unat (of_char c :: u8) = of_char c" by (simp add: unat_of_nat)
  then show ?thesis by simp
qed

lemma byte_zero: "(of_char c :: u8) = 0 \<longleftrightarrow> c = CHR 0x00"
  proof
  assume "(of_char c :: u8) = 0"
  then have "c = char_of (0 :: nat)" using char_byte [of c] by simp
  then show "c = CHR 0x00" by (simp add: char_of_def)
qed simp

lemma byte_char_zero: "char_of (unat (c :: u8)) = CHR 0x00 \<longleftrightarrow> c = 0"
proof
  assume "char_of (unat c) = CHR 0x00"
  then have "of_char (char_of (unat c)) = (0 :: nat)" by simp
  moreover have "unat c < 256" using unsigned_less [of c] by simp
  ultimately show "c = 0" by (simp add: unat_eq_zero)
next
  assume "c = 0"
  then show "char_of (unat c) = CHR 0x00" by (simp add: char_of_def)
qed

lemma goString_c_bytes:
  assumes "c_string n s" shows "goString (c_bytes n s) = s"
proof -
  have "\<forall>c \<in> set (map of_char s :: u8 list). c \<noteq> 0"
    using assms byte_zero by (auto simp: c_string_def)
  then have "takeWhile (\<lambda>c. c \<noteq> 0) (c_bytes n s) = map of_char s"
    by (simp add: c_bytes_def takeWhile_append takeWhile_replicate)
  then show ?thesis by (simp add: goString_takeWhile char_byte o_def)
qed

section \<open>The wire round trip\<close>

text \<open>What the probes fill in for a \<open>Raw\<close>: C strings padded with NULs, and as many argument slots as there
  are arguments.\<close>

definition on_wire :: "Raw \<Rightarrow> KrnlSentryEvent" where
  "on_wire r =
     \<lparr>e_Timestamp = r_Timestamp r, e_Pid = r_PID r, e_Tgid = r_TGID r, e_Uid = r_UID r,
      e_Gid = r_GID r, e_Ppid = r_PPID r, e_SyscallId = r_SyscallID r, e_Ret = r_Ret r,
      e_Arg0 = r_Arg0 r, e_Arg1 = r_Arg1 r, e_Arg2 = r_Arg2 r, e_Daddr = r_Daddr r,
      e_Dport = r_Dport r, e_Family = r_Family r, e_Argc = of_nat (length (r_Argv r)),
      e_Pad = [0, 0, 0], e_Flags = r_Flags r, e_Comm = c_bytes COMM_LEN (r_Comm r),
      e_Path = c_bytes PATH_LEN (r_Path r),
      e_Argv = map (c_bytes ARG_LEN) (r_Argv r @ replicate (MAX_ARGV - length (r_Argv r)) [])\<rparr>"

definition fits :: "Raw \<Rightarrow> bool" where
  "fits r \<longleftrightarrow> c_string COMM_LEN (r_Comm r) \<and> c_string PATH_LEN (r_Path r) \<and>
     length (r_Argv r) \<le> MAX_ARGV \<and> list_all (c_string ARG_LEN) (r_Argv r)"

definition wire :: "Raw \<Rightarrow> u8 list" where
  "wire r = concat (laid_out (on_wire r))"

lemma length_c_bytes: "c_string n s \<Longrightarrow> length (c_bytes n s) = n"
  by (simp add: c_string_def c_bytes_def)

lemma c_string_Nil [simp]: "c_string n []"
  by (simp add: c_string_def)

lemma on_wire_sized: "fits r \<Longrightarrow> well_sized (on_wire r)"
  by (auto simp: fits_def well_sized_def on_wire_def length_c_bytes list_all_iff)

lemma small_argc: "n \<le> 3 \<Longrightarrow> unat (of_nat n :: u8) = n"
  by (simp add: unat_of_nat)

lemma goString_ok: "length b = n \<Longrightarrow> c_string n (goString b)"
  using length_takeWhile_le [of "\<lambda>c. c \<noteq> 0" b]
  by (auto simp: c_string_def goString_takeWhile image_iff dest: set_takeWhileD)
    (metis byte_char_zero set_takeWhileD)

lemma overlay_sized: "eventSize \<le> length b \<Longrightarrow> well_sized (overlay b)"
  by (simp add: well_sized_def overlay_def field_def eventSize_def field_sizes_def list_all_iff upt_rec)

lemma overlay_take: "overlay (take eventSize b) = overlay b"
  by (simp add: overlay_def field_def eventSize_def field_sizes_def drop_take min_def)

text \<open>What a record decodes to when it is long enough.\<close>

lemma parse_long:
  "eventSize \<le> length b \<Longrightarrow>
   \<exists>r. parseRecord b = Inr r \<and> fits r \<and> parseRecord (take eventSize b) = Inr r"
  using overlay_sized [of b]
  by (simp add: parseRecord_def overlay_take Let_def fits_def well_sized_def goString_ok list_all_iff all_set_conv_all_nth)

lemma parse_wire:
  assumes "fits r" shows "parseRecord (wire r @ rest) = Inr r"
proof -
  note sized = on_wire_sized [OF assms]
  have ov: "overlay (wire r @ rest) = on_wire r" unfolding wire_def by (rule overlay_laid_out [OF sized])
  have n: "\<not> length (wire r @ rest) < eventSize" by (simp add: wire_def length_laid_out [OF sized])
  have argc: "unat (e_Argc (on_wire r)) = length (r_Argv r)" "length (e_Argv (on_wire r)) = 3"
    using assms by (simp_all add: on_wire_def small_argc fits_def)
  have "goString (e_Argv (on_wire r) ! i) = r_Argv r ! i" if "i < length (r_Argv r)" for i
    using that assms by (simp add: on_wire_def nth_append goString_c_bytes fits_def list_all_length)
  then have "map (\<lambda>i. goString (e_Argv (on_wire r) ! i)) [0..<length (r_Argv r)] = r_Argv r"
    by (intro nth_equalityI) simp_all
  moreover have "length (r_Argv r) \<le> 3" using assms by (simp add: fits_def)
  ultimately show ?thesis
    using n argc assms unfolding parseRecord_def ov Let_def
    by (simp add: on_wire_def goString_c_bytes fits_def)
qed

text \<open>C30. Whatever the kernel fills in reaches the decoder unchanged: the bytes of a record laid out as
  \<^verbatim>\<open>bpf/event.h\<close> declares, with NUL-padded strings, parse back to the same fields, strings and
  arguments, whatever follows them in the buffer.\<close>

theorem parse_wire_roundtrip:
  assumes "fits r" shows "parseRecord (wire r @ rest) = Inr r"
  using assms by (rule parse_wire)

text \<open>Parsing is safe on any bytes: exactly the records shorter than the struct are an error; any other
  yields strings that hold no NUL and fit their arrays and at most three arguments, whatever count the
  bytes claim, and bytes past the struct have no influence.\<close>

theorem parseRecord_safe:
  "case parseRecord b of
     Inl _ \<Rightarrow> length b < eventSize
   | Inr r \<Rightarrow> eventSize \<le> length b \<and> fits r \<and> parseRecord (take eventSize b) = Inr r"
proof (cases "length b < eventSize")
  case True
  then show ?thesis by (simp add: parseRecord_def)
next
  case False
  then show ?thesis using parse_long [of b] by auto
qed

definition sample_exec :: Raw where
  "sample_exec = sample_raw\<lparr>r_SyscallID := SysExecve, r_Path := ''/bin/sh'', r_Argv := [''sh'', ''-i'']\<rparr>"

theorem parse_wire_roundtrip_witness:
  "fits sample_exec \<and> parseRecord (wire sample_exec @ [1, 2]) = Inr sample_exec"
proof -
  have "fits sample_exec" by (simp add: fits_def c_string_def sample_exec_def sample_raw_def)
  then show ?thesis using parse_wire_roundtrip [of sample_exec "[1, 2]"] by simp
qed

end
