(* ===== verification/Loader.thy ===== *)
theory Loader
  imports WireRecord GoErrors
begin

text \<open>
  \<^verbatim>\<open>ebpfloader/loader.go\<close>, \<^verbatim>\<open>stats.go\<close> and \<^verbatim>\<open>loader_other.go\<close>: attaching the probes, draining the ring
  buffer and tearing everything down.  The kernel and the eBPF library are a \<open>host\<close>: what each call to
  them answers.  The calls that change kernel state are collected, in order, in a list of \<open>kcall\<close>s, so
  that a theorem can say what is left behind.
\<close>

section \<open>The host\<close>

record tracepoint =
  tp_group :: string
  tp_name :: string
  tp_program :: string

datatype kcall =
    CallLoad
  | CallPutConfig u32
  | CallAttach tracepoint
  | CallOpenReader
  | CallCloseReader
  | CallDetach tracepoint
  | CallCloseObjs

record host =
  h_RemoveMemlock :: "goerror option"
  h_LoadObjects :: "goerror option"
  h_PutConfig :: "goerror option"
  h_program :: "string \<Rightarrow> bool"
  h_Tracepoint :: "tracepoint \<Rightarrow> goerror option"
  h_NewReader :: "goerror option"
  h_ClockGettime :: "goerror + i64 \<times> i64"
  h_Now :: int
  h_Getpid :: nat
  h_CloseReader :: "goerror option"
  h_CloseLink :: "tracepoint \<Rightarrow> goerror option"
  h_CloseObjs :: "goerror option"
  h_StatsMap :: "u32 \<Rightarrow> goerror + u64 list"

section \<open>The collector\<close>

definition statEvents :: u32 where [simp]: "statEvents = 0"

definition statDropped :: u32 where [simp]: "statDropped = 1"

text \<open>The handles a collector holds; the logger is left out.\<close>

record Collector =
  cl_loaded :: bool
  cl_links :: "tracepoint list"
  cl_reader :: bool
  cl_bootTime :: int

definition syscalls_tracepoint :: "string \<Rightarrow> string \<Rightarrow> tracepoint" where
  "syscalls_tracepoint name program = \<lparr>tp_group = ''syscalls'', tp_name = name, tp_program = program\<rparr>"

definition tracepoints :: "tracepoint list" where
  "tracepoints =
     [syscalls_tracepoint ''sys_enter_execve'' ''TraceExecve'',
      syscalls_tracepoint ''sys_enter_execveat'' ''TraceExecveat'',
      syscalls_tracepoint ''sys_enter_openat'' ''TraceOpenat'',
      syscalls_tracepoint ''sys_enter_setuid'' ''TraceSetuid'',
      syscalls_tracepoint ''sys_enter_setgid'' ''TraceSetgid'',
      syscalls_tracepoint ''sys_enter_setresuid'' ''TraceSetresuid'',
      syscalls_tracepoint ''sys_enter_setresgid'' ''TraceSetresgid'',
      syscalls_tracepoint ''sys_enter_capset'' ''TraceCapset'',
      syscalls_tracepoint ''sys_enter_ptrace'' ''TracePtrace'',
      syscalls_tracepoint ''sys_enter_socket'' ''TraceSocket'',
      syscalls_tracepoint ''sys_exit_socket'' ''TraceSocketExit'',
      syscalls_tracepoint ''sys_enter_connect'' ''TraceConnect'',
      syscalls_tracepoint ''sys_exit_connect'' ''TraceConnectExit'',
      syscalls_tracepoint ''sys_enter_dup2'' ''TraceDup2'',
      syscalls_tracepoint ''sys_enter_dup3'' ''TraceDup3'']"

definition optionalTracepoints :: "string list" where
  "optionalTracepoints = [''sys_enter_dup2'']"

definition slash_name :: "tracepoint \<Rightarrow> string" where
  "slash_name tp = tp_group tp @ ''/'' @ tp_name tp"

definition writeConfig :: "host \<Rightarrow> kcall list \<times> goerror option" where
  "writeConfig h =
     (case h_PutConfig h of
        Some e \<Rightarrow> ([], Some (errorf ''writing self-pid filter to config map: '' e))
      | None \<Rightarrow> ([CallPutConfig (of_nat (h_Getpid h))], None))"

text \<open>The loop returns the links it appended, also when it stops with an error.\<close>

fun attach_loop :: "host \<Rightarrow> tracepoint list \<Rightarrow> tracepoint list \<times> goerror option" where
  "attach_loop h [] = ([], None)"
| "attach_loop h (tp # tps) =
     (if \<not> h_program h (tp_program tp) then
        ([], Some (errors_New (''program for '' @ slash_name tp @ '' missing from compiled object'')))
      else case h_Tracepoint h tp of
        Some e \<Rightarrow>
          if tp_name tp \<in> set optionalTracepoints \<and> errors_Is e ErrNotExist then attach_loop h tps
          else ([], Some (errorf (''attaching '' @ slash_name tp @ '': '') e))
      | None \<Rightarrow> (case attach_loop h tps of (links, err) \<Rightarrow> (tp # links, err)))"

definition attachAll :: "host \<Rightarrow> Collector \<Rightarrow> Collector \<times> kcall list \<times> goerror option" where
  "attachAll h c =
     (case attach_loop h tracepoints of (links, err) \<Rightarrow>
        let c = c\<lparr>cl_links := cl_links c @ links\<rparr>; calls = map CallAttach links
        in case err of
             Some e \<Rightarrow> (c, calls, Some e)
           | None \<Rightarrow>
               (if cl_links c = [] then
                  (c, calls, Some (errors_New ''no tracepoints attached; refusing to run blind''))
                else (c, calls, None)))"

definition bootTime :: "host \<Rightarrow> goerror + int" where
  "bootTime h =
     (case h_ClockGettime h of
        Inl e \<Rightarrow> Inl (errorf ''clock_gettime(CLOCK_MONOTONIC): '' e)
      | Inr (sec, nsec) \<Rightarrow>
          (let uptime = sec * 1000000000 + nsec :: Duration in Inr (h_Now h + sint (- uptime))))"

definition describeLoadError :: "goerror \<Rightarrow> goerror" where
  "describeLoadError err =
    (let nl = [CHR 0x0A, CHR 0x0A] in
     if errors_Is err EPERM \<or> errors_Is err ErrPermission then
       err\<lparr>er_msg := er_msg err @ nl @ ''loading eBPF requires privileges. Run with sudo, or grant '' @
         ''CAP_BPF and CAP_PERFMON (CAP_SYS_ADMIN on kernels before 5.8)''\<rparr>
     else if errors_Is err ENOTSUP \<or> errors_Is err EINVAL then
       err\<lparr>er_msg := er_msg err @ nl @ ''the kernel rejected the program. KrnlSentry needs kernel 5.8+ '' @
         ''with CONFIG_DEBUG_INFO_BTF=y and CONFIG_BPF_SYSCALL=y. Check: '' @
         ''ls -l /sys/kernel/btf/vmlinux''\<rparr>
     else case List.find (\<lambda>s. case s of VerifierError log \<Rightarrow> True | _ \<Rightarrow> False) (er_chain err) of
       Some (VerifierError log) \<Rightarrow>
         errorf (''BPF verifier rejected the program: '' @ log @ '': '') err
     | _ \<Rightarrow> errorf ''loading eBPF objects: '' err)"

text \<open>\<open>Close\<close>: the collector it leaves, the calls it makes, and the errors joined.\<close>

definition close_reader :: "host \<Rightarrow> Collector \<Rightarrow> kcall list \<times> goerror list" where
  "close_reader h c =
     (if \<not> cl_reader c then ([], [])
      else ([CallCloseReader],
            case h_CloseReader h of
              Some e \<Rightarrow> if errors_Is e OsErrClosed then [] else [errorf ''closing ring buffer: '' e]
            | None \<Rightarrow> []))"

fun close_links :: "host \<Rightarrow> tracepoint list \<Rightarrow> kcall list \<times> goerror list" where
  "close_links h [] = ([], [])"
| "close_links h (tp # tps) =
     (case close_links h tps of (calls, errs) \<Rightarrow>
        (CallDetach tp # calls,
         (case h_CloseLink h tp of Some e \<Rightarrow> [errorf ''detaching probe: '' e] | None \<Rightarrow> []) @ errs))"

definition Collector_Close :: "host \<Rightarrow> Collector \<Rightarrow> Collector \<times> kcall list \<times> goerror option" where
  "Collector_Close h c =
     (case close_reader h c of (rcalls, rerrs) \<Rightarrow>
      case close_links h (rev (cl_links c)) of (lcalls, lerrs) \<Rightarrow>
        (c\<lparr>cl_reader := False, cl_links := []\<rparr>, rcalls @ lcalls @ [CallCloseObjs],
         errors_Join (rerrs @ lerrs @
           (case h_CloseObjs h of Some e \<Rightarrow> [errorf ''closing BPF objects: '' e] | None \<Rightarrow> []))))"

text \<open>The body of \<open>New\<close> after the collector exists: the calls made so far and the error it stops with.\<close>

definition new_body :: "host \<Rightarrow> Collector \<Rightarrow> Collector \<times> kcall list \<times> goerror option" where
  "new_body h col =
    (case h_LoadObjects h of
       Some e \<Rightarrow> (col, [], Some (describeLoadError e))
     | None \<Rightarrow>
         let col = col\<lparr>cl_loaded := True\<rparr> in
         case writeConfig h of
           (calls, Some e) \<Rightarrow> (col, CallLoad # calls, Some e)
         | (calls, None) \<Rightarrow>
             (case attachAll h col of
                (col, acalls, Some e) \<Rightarrow> (col, CallLoad # calls @ acalls, Some e)
              | (col, acalls, None) \<Rightarrow>
                  (case h_NewReader h of
                     Some e \<Rightarrow> (col, CallLoad # calls @ acalls, Some (errorf ''opening ring buffer reader: '' e))
                   | None \<Rightarrow>
                       let col = col\<lparr>cl_reader := True\<rparr>; calls = CallLoad # calls @ acalls @ [CallOpenReader]
                       in case bootTime h of
                            Inl e \<Rightarrow> (col, calls, Some (errorf ''determining boot time: '' e))
                          | Inr t \<Rightarrow> (col\<lparr>cl_bootTime := t\<rparr>, calls, None))))"

definition Collector_zero :: Collector where
  "Collector_zero = \<lparr>cl_loaded = False, cl_links = [], cl_reader = False, cl_bootTime = 0\<rparr>"

definition NewCollector :: "host \<Rightarrow> (goerror + Collector) \<times> kcall list" where
  "NewCollector h =
     (case h_RemoveMemlock h of
        Some e \<Rightarrow> (Inl (errorf ''raising RLIMIT_MEMLOCK: '' e), [])
      | None \<Rightarrow>
          (case new_body h Collector_zero of
             (col, calls, None) \<Rightarrow> (Inr col, calls)
           | (col, calls, Some err) \<Rightarrow>
               (case Collector_Close h col of (_, ccalls, _) \<Rightarrow> (Inl err, calls @ ccalls))))"

section \<open>Draining the ring buffer\<close>

text \<open>What one blocking \<open>Read\<close> answers: a record, or an error, with whether the context is cancelled by
  then.\<close>

datatype read_result = Got "u8 list" | Failed goerror bool

record run_state =
  rn_handled :: "Event list"
  rn_warnings :: "string list"
  rn_result :: "goerror option option"

text \<open>\<open>rn_result\<close> is \<open>None\<close> while the loop is still waiting for the next record.\<close>

fun Collector_Run :: "int \<Rightarrow> read_result list \<Rightarrow> run_state" where
  "Collector_Run boot [] = \<lparr>rn_handled = [], rn_warnings = [], rn_result = None\<rparr>"
| "Collector_Run boot (Failed e cancelled # rs) =
     \<lparr>rn_handled = [], rn_warnings = [],
      rn_result =
        (if errors_Is e RingbufErrClosed \<or> errors_Is e OsErrClosed then Some None
         else if cancelled then Some None
         else Some (Some (errorf ''reading from ring buffer: '' e)))\<rparr>"
| "Collector_Run boot (Got b # rs) =
     (let st = Collector_Run boot rs in
      case parseRecord b of
        Inl msg \<Rightarrow> st\<lparr>rn_warnings := msg # rn_warnings st\<rparr>
      | Inr raw \<Rightarrow> st\<lparr>rn_handled := Decode raw boot # rn_handled st\<rparr>)"

record Stats =
  sx_Events :: u64
  sx_Dropped :: u64

definition sumPerCPU :: "host \<Rightarrow> u32 \<Rightarrow> goerror + u64" where
  "sumPerCPU h slot =
     (case h_StatsMap h slot of Inl e \<Rightarrow> Inl e | Inr perCPU \<Rightarrow> Inr (fold (\<lambda>v total. total + v) perCPU 0))"

definition Collector_Stats :: "host \<Rightarrow> (Stats \<times> goerror option)" where
  "Collector_Stats h =
    (let s = \<lparr>sx_Events = 0, sx_Dropped = 0\<rparr> in
     case sumPerCPU h statEvents of
       Inl e \<Rightarrow> (s, Some (errorf ''reading event counter: '' e))
     | Inr events \<Rightarrow>
         (case sumPerCPU h statDropped of
            Inl e \<Rightarrow> (s, Some (errorf ''reading drop counter: '' e))
          | Inr dropped \<Rightarrow> (s\<lparr>sx_Events := events, sx_Dropped := dropped\<rparr>, None)))"

section \<open>The stub for other systems\<close>

definition ErrUnsupported :: goerror where
  "ErrUnsupported =
     errors_New ''live monitoring requires Linux with eBPF; on this OS only --replay is available''"

definition New_other :: "goerror + unit" where
  "New_other = Inl ErrUnsupported"

definition Run_other :: "goerror option" where
  "Run_other = Some ErrUnsupported"

definition Stats_other :: "Stats \<times> goerror option" where
  "Stats_other = (\<lparr>sx_Events = 0, sx_Dropped = 0\<rparr>, Some ErrUnsupported)"

definition Close_other :: "goerror option" where
  "Close_other = None"

section \<open>Starting and stopping\<close>

fun attached :: "kcall list \<Rightarrow> tracepoint list" where
  "attached [] = []"
| "attached (CallAttach tp # calls) = tp # attached calls"
| "attached (_ # calls) = attached calls"

fun detached :: "kcall list \<Rightarrow> tracepoint list" where
  "detached [] = []"
| "detached (CallDetach tp # calls) = tp # detached calls"
| "detached (_ # calls) = detached calls"

lemma attached_append [simp]: "attached (xs @ ys) = attached xs @ attached ys"
  by (induction xs rule: attached.induct) auto

lemma detached_append [simp]: "detached (xs @ ys) = detached xs @ detached ys"
  by (induction xs rule: detached.induct) auto

lemma attached_maps [simp]:
  "attached (map CallAttach tps) = tps" "attached (map CallDetach tps) = []"
  "detached (map CallAttach tps) = []" "detached (map CallDetach tps) = tps"
  "count_list (map CallAttach tps) CallOpenReader = 0" "count_list (map CallDetach tps) CallOpenReader = 0"
  "count_list (map CallAttach tps) CallCloseReader = 0" "count_list (map CallDetach tps) CallCloseReader = 0"
  by (induction tps) auto

text \<open>A probe may be missing only when it is optional and the kernel does not have it.\<close>

definition probe_ok :: "host \<Rightarrow> tracepoint \<Rightarrow> bool" where
  "probe_ok h tp \<longleftrightarrow> h_program h (tp_program tp) \<and>
     (case h_Tracepoint h tp of None \<Rightarrow> True
      | Some e \<Rightarrow> tp_name tp = ''sys_enter_dup2'' \<and> errors_Is e ErrNotExist)"

lemma attach_loop_ok: "snd (attach_loop h tps) = None \<longleftrightarrow> list_all (probe_ok h) tps"
proof (induction tps)
  case (Cons tp tps)
  then show ?case
    by (cases "h_Tracepoint h tp")
      (auto simp: probe_ok_def [of h tp] optionalTracepoints_def split: prod.splits)
qed simp

lemma attach_loop_links:
  "snd (attach_loop h tps) = None \<Longrightarrow> fst (attach_loop h tps) = filter (\<lambda>tp. h_Tracepoint h tp = None) tps"
  by (induction tps) (auto split: option.splits prod.splits if_splits)

lemma close_links_calls: "close_links h tps = (calls, errs) \<Longrightarrow> calls = map CallDetach tps"
  by (induction tps arbitrary: calls errs) (auto split: prod.splits)

lemma close_calls:
  "fst (snd (Collector_Close h c)) =
     (if cl_reader c then [CallCloseReader] else []) @ map CallDetach (rev (cl_links c)) @ [CallCloseObjs]"
  by (auto simp: Collector_Close_def close_reader_def split: prod.splits dest: close_links_calls)

lemma close_state:
  "cl_links (fst (Collector_Close h c)) = []" "\<not> cl_reader (fst (Collector_Close h c))"
  by (auto simp: Collector_Close_def split: prod.splits)

text \<open>The ways the body of \<open>New\<close> ends.\<close>

lemma new_body_calls:
  assumes "new_body h Collector_zero = (c, calls, err)"
  shows "attached calls = cl_links c \<and> detached calls = [] \<and>
    count_list calls CallOpenReader = (if cl_reader c then 1 else 0) \<and> count_list calls CallCloseReader = 0"
proof -
  obtain links lerr where "attach_loop h tracepoints = (links, lerr)" by fastforce
  then show ?thesis using assms
    by (auto simp: new_body_def writeConfig_def attachAll_def Let_def Collector_zero_def
        split: option.splits sum.splits if_splits prod.splits)
qed

lemma new_body_success:
  assumes "new_body h Collector_zero = (c, calls, None)"
  shows "cl_links c = filter (\<lambda>tp. h_Tracepoint h tp = None) tracepoints \<and> cl_links c \<noteq> [] \<and>
    list_all (probe_ok h) tracepoints \<and> cl_reader c \<and>
    calls = [CallLoad, CallPutConfig (of_nat (h_Getpid h))] @ map CallAttach (cl_links c) @ [CallOpenReader]"
proof -
  obtain links lerr where l: "attach_loop h tracepoints = (links, lerr)" by fastforce
  have "lerr = None" and "cl_links c = links" and rest: "cl_links c \<noteq> []" "cl_reader c"
    "calls = [CallLoad, CallPutConfig (of_nat (h_Getpid h))] @ map CallAttach (cl_links c) @ [CallOpenReader]"
    using assms l
    by (auto simp: new_body_def writeConfig_def attachAll_def Let_def Collector_zero_def
        split: option.splits sum.splits if_splits prod.splits)
  then show ?thesis
    using l attach_loop_ok [of h tracepoints] attach_loop_links [of h tracepoints] by simp
qed

text \<open>C31. Starting is all or nothing.  When it succeeds, the own process id was published before the first
  probe went in, every probe is attached except an optional one the kernel does not have, there is at
  least one, and the ring buffer is open.  When it fails, every link that was attached has been
  closed, the last one first, and so have the ring buffer reader, if opened, and the objects.\<close>

theorem NewCollector_all_or_nothing:
  "case NewCollector h of
     (Inr c, calls) \<Rightarrow>
       calls = [CallLoad, CallPutConfig (of_nat (h_Getpid h))] @ map CallAttach (cl_links c) @ [CallOpenReader] \<and>
       cl_links c = filter (\<lambda>tp. h_Tracepoint h tp = None) tracepoints \<and> cl_links c \<noteq> [] \<and>
       list_all (probe_ok h) tracepoints \<and> cl_reader c
   | (Inl e, calls) \<Rightarrow>
       (if h_RemoveMemlock h \<noteq> None then calls = [] else last calls = CallCloseObjs) \<and>
       detached calls = rev (attached calls) \<and>
       count_list calls CallOpenReader = count_list calls CallCloseReader"
proof (cases "h_RemoveMemlock h")
  case (Some e)
  then show ?thesis by (simp add: NewCollector_def)
next
  case memlock: None
  obtain c calls err where body: "new_body h Collector_zero = (c, calls, err)" by (metis prod_cases3)
  show ?thesis
  proof (cases err)
    case None
    then have "NewCollector h = (Inr c, calls)" using memlock body by (simp add: NewCollector_def)
    with new_body_success [OF body [unfolded None]] show ?thesis by (auto simp only: prod.case sum.case)
  next
    case (Some e)
    obtain c' cc ce where close: "Collector_Close h c = (c', cc, ce)" by (metis prod_cases3)
    then have "cc = (if cl_reader c then [CallCloseReader] else []) @ map CallDetach (rev (cl_links c)) @ [CallCloseObjs]"
      using close_calls [of h c] by simp
    then show ?thesis
      using memlock body Some close new_body_calls [OF body] by (auto simp: NewCollector_def)
  qed
qed

text \<open>Closing twice detaches nothing twice, and an error is reported exactly when some handle failed to
  close.\<close>

lemma Close_twice:
  "fst (snd (Collector_Close h (fst (Collector_Close h c)))) = [CallCloseObjs]"
  by (simp add: close_calls close_state)

section \<open>What the handler sees\<close>

text \<open>A read is a short record (\<open>Inl\<close>) or the wire form of a \<open>Raw\<close> with whatever follows it.\<close>

definition read_of :: "u8 list + Raw \<times> u8 list \<Rightarrow> read_result" where
  "read_of x = (case x of Inl b \<Rightarrow> Got b | Inr (r, rest) \<Rightarrow> Got (wire r @ rest))"

definition readable :: "u8 list + Raw \<times> u8 list \<Rightarrow> bool" where
  "readable x = (case x of Inl b \<Rightarrow> length b < eventSize | Inr (r, _) \<Rightarrow> fits r)"

definition raws :: "(u8 list + Raw \<times> u8 list) list \<Rightarrow> Raw list" where
  "raws xs = concat (map (\<lambda>x. case x of Inl _ \<Rightarrow> [] | Inr (r, _) \<Rightarrow> [r]) xs)"

lemma parse_short: "length b < eventSize \<Longrightarrow> \<exists>msg. parseRecord b = Inl msg"
  by (simp add: parseRecord_def)

lemma Run_readable:
  "list_all readable xs \<Longrightarrow>
   rn_handled (Collector_Run boot (map read_of xs @ rs)) = map (\<lambda>r. Decode r boot) (raws xs) @ rn_handled (Collector_Run boot rs) \<and>
   length (rn_warnings (Collector_Run boot (map read_of xs @ rs))) =
     length xs - length (raws xs) + length (rn_warnings (Collector_Run boot rs)) \<and>
   rn_result (Collector_Run boot (map read_of xs @ rs)) = rn_result (Collector_Run boot rs) \<and>
   length (raws xs) \<le> length xs"
proof (induction xs)
  case (Cons x xs)
  show ?case
  proof (cases x)
    case (Inl b)
    then obtain msg where "parseRecord b = Inl msg" using Cons(2) parse_short by (auto simp: readable_def)
    then show ?thesis using Cons Inl by (auto simp: read_of_def raws_def Let_def)
  next
    case (Inr p)
    then show ?thesis using Cons by (cases p) (auto simp: read_of_def raws_def readable_def Let_def parse_wire)
  qed
qed (simp add: raws_def)

text \<open>The drain loop hands over everything the kernel wrote: on any sequence of records, well-formed
  ones and truncated ones mixed, the handler is called with exactly the decoded form of each
  well-formed record, in order, each truncated record costs one warning and nothing else, and the loop
  then ends, with an error exactly when the read failed for another reason than a closed reader or a
  cancelled context.\<close>

theorem Run_delivers:
  assumes "list_all readable xs"
  shows "let st = Collector_Run boot (map read_of xs @ [Failed e cancelled]) in
    rn_handled st = map (\<lambda>r. Decode r boot) (raws xs) \<and>
    length (rn_warnings st) = length xs - length (raws xs) \<and>
    rn_result st = Some
      (if errors_Is e RingbufErrClosed \<or> errors_Is e OsErrClosed \<or> cancelled then None
       else Some (errorf ''reading from ring buffer: '' e))"
  using Run_readable [OF assms, of boot "[Failed e cancelled]"] by (simp add: Let_def)

theorem Run_delivers_witness:
  "list_all readable [Inl [1], Inr (sample_exec, [0])] \<and>
   rn_handled (Collector_Run 0 (map read_of [Inl [1], Inr (sample_exec, [0])] @
     [Failed \<lparr>er_msg = ''closed'', er_chain = [OsErrClosed]\<rparr> False])) = [Decode sample_exec 0]"
proof -
  have "list_all readable [Inl [1], Inr (sample_exec, [0])]"
    by (simp add: readable_def eventSize_def field_sizes_def fits_def c_string_def sample_exec_def sample_raw_def)
  then show ?thesis
    using Run_delivers [of "[Inl [1], Inr (sample_exec, [0])]" 0 "\<lparr>er_msg = ''closed'', er_chain = [OsErrClosed]\<rparr>" False]
    by (simp add: Let_def raws_def)
qed

text \<open>The wall clock of an event is the current time minus its age, as long as the clocks stay within the
  range of a \<open>Duration\<close>.\<close>

lemma boot_clock:
  assumes "h_ClockGettime h = Inr (sec, nsec)" and "bootTime h = Inr boot"
    and "0 < sint (sec * 1000000000 + nsec)" and "0 \<le> sint (r_Timestamp r)"
  shows "ev_Wall (decode_base r boot) = h_Now h - (sint (sec * 1000000000 + nsec) - sint (r_Timestamp r))"
proof -
  let ?u = "sec * 1000000000 + nsec"
  have "sint (- ?u) = - sint ?u" using assms(3) sint_less [of ?u]
    unfolding sint_word_minus by (intro signed_take_bit_int_eq_self) auto
  then show ?thesis using assms by (simp add: bootTime_def decode_base_def)
qed

end
