(* ===== verification/GoCalendar.thy ===== *)
theory GoCalendar
  imports GoTime
begin

text \<open>
  The part of Go's \<^verbatim>\<open>time\<close> that captures and displays go through: the civil calendar in UTC, the
  layouts with milliseconds, and parsing RFC 3339.  A time is its nanoseconds since 1970-01-01; years
  before 0 are outside of what the layouts print.  \<open>time.Parse\<close> tries a strict RFC 3339 reader first and
  a general reader when that fails; the strict one is modelled, the general one is a parameter.
\<close>

section \<open>The calendar\<close>

definition is_leap :: "nat \<Rightarrow> bool" where
  "is_leap y \<longleftrightarrow> (4 dvd y \<and> \<not> 100 dvd y) \<or> 400 dvd y"

definition year_days :: "nat \<Rightarrow> nat" where
  "year_days y = (if is_leap y then 366 else 365)"

text \<open>Days from 0000-01-01 to the first day of the year.\<close>

definition days_before :: "nat \<Rightarrow> nat" where
  "days_before y = 365 * y + (y + 3) div 4 - (y + 99) div 100 + (y + 399) div 400"

lemma ceil_step:
  assumes "0 < k" shows "(Suc y + (k - 1)) div k = (y + (k - 1)) div k + (if k dvd y then 1 else 0)"
proof -
  define q r where "q = y div k" and "r = y mod k"
  then have y: "y = k * q + r" and r: "r < k" using assms by simp_all
  have "(Suc y + (k - 1)) div k = q + 1" using assms y r by (simp add: div_nat_eqI)
  moreover have "(y + (k - 1)) div k = q + (if r = 0 then 0 else 1)"
    using assms y r by (intro div_nat_eqI) (auto simp: algebra_simps)
  moreover have "k dvd y \<longleftrightarrow> r = 0" using r_def by (simp add: dvd_eq_mod_eq_0)
  ultimately show ?thesis by simp
qed

lemma leap_arith:
  assumes "b \<le> 365 * y + (a :: nat)" and "j \<le> i"
  shows "365 * Suc y + (a + i) - (b + j) + (c + k) = 365 * y + a - b + c + (365 + i - j + k)"
proof -
  obtain e where e: "365 * y + a = b + e" using assms(1) le_Suc_ex by blast
  obtain f where f: "i = j + f" using assms(2) le_Suc_ex by blast
  have "365 * Suc y + (a + i) = (b + j) + (365 + e + f)" using e f by simp
  then have "365 * Suc y + (a + i) - (b + j) = 365 + e + f" by simp
  moreover have "365 * y + a - b = e" "365 + i - j = 365 + f" using e f by simp_all
  ultimately show ?thesis by simp
qed

lemma days_before_Suc: "days_before (Suc y) = days_before y + year_days y"
proof -
  let ?i = "if 4 dvd y then 1 else 0 :: nat" and ?j = "if 100 dvd y then 1 else 0 :: nat"
    and ?k = "if 400 dvd y then 1 else 0 :: nat"
  have dvd: "400 dvd y \<Longrightarrow> 100 dvd y" "100 dvd y \<Longrightarrow> 4 dvd y" by (auto intro: dvd_trans)
  have steps: "(Suc y + 3) div 4 = (y + 3) div 4 + ?i" "(Suc y + 99) div 100 = (y + 99) div 100 + ?j"
    "(Suc y + 399) div 400 = (y + 399) div 400 + ?k"
    using ceil_step [of 4 y] ceil_step [of 100 y] ceil_step [of 400 y] by (simp_all del: add_Suc)
  have "(y + 99) div 100 \<le> 365 * y + (y + 3) div 4"
    by (cases y) (simp_all add: div_le_mono less_mult_imp_div_less div_less_dividend le_SucI trans_le_add1)
  then have "days_before (Suc y) = days_before y + (365 + ?i - ?j + ?k)"
    unfolding days_before_def steps by (rule leap_arith) (use dvd in auto)
  also have "365 + ?i - ?j + ?k = year_days y" using dvd by (auto simp: year_days_def is_leap_def)
  finally show ?thesis .
qed

text \<open>The year of a day, found by walking up from a lower estimate.\<close>

function year_from :: "nat \<Rightarrow> nat \<Rightarrow> nat" where
  "year_from y d = (if days_before (Suc y) \<le> d then year_from (Suc y) d else y)"
  by pat_completeness auto
termination
  by (relation "measure (\<lambda>(y, d). Suc d - days_before y)") (auto simp: days_before_Suc year_days_def)

declare year_from.simps [simp del]

definition year_of :: "nat \<Rightarrow> nat" where
  "year_of d = year_from (d div 366) d"

definition month_days :: "nat \<Rightarrow> nat list" where
  "month_days y = [31, if is_leap y then 29 else 28, 31, 30, 31, 30, 31, 31, 30, 31, 30, 31]"

text \<open>The index of the month, and the day in it, both from zero.\<close>

fun month_of :: "nat list \<Rightarrow> nat \<Rightarrow> nat \<times> nat" where
  "month_of [] d = (0, d)"
| "month_of (m # ms) d = (if d < m then (0, d) else case month_of ms (d - m) of (i, r) \<Rightarrow> (Suc i, r))"

text \<open>Year, month and day of the month, the last two from one.\<close>

definition civil :: "nat \<Rightarrow> nat \<times> nat \<times> nat" where
  "civil d =
     (let y = year_of d in case month_of (month_days y) (d - days_before y) of (m, r) \<Rightarrow> (y, m + 1, r + 1))"

definition day_number :: "nat \<Rightarrow> nat \<Rightarrow> nat \<Rightarrow> nat" where
  "day_number y m d = days_before y + sum_list (take (m - 1) (month_days y)) + (d - 1)"

lemma days_before_le: "days_before (d div 366) \<le> d"
proof -
  have "days_before y \<le> 366 * y" for y
  proof (induction y)
    case (Suc y)
    then show ?case by (simp add: days_before_Suc year_days_def)
  qed (simp add: days_before_def)
  then have "days_before (d div 366) \<le> 366 * (d div 366)" .
  then show ?thesis by (meson le_trans times_div_less_eq_dividend)
qed

lemma year_from_spec:
  "days_before y \<le> d \<Longrightarrow> days_before (year_from y d) \<le> d \<and> d < days_before (Suc (year_from y d))"
proof (induction y d rule: year_from.induct)
  case (1 y d)
  then show ?case
    by (cases "days_before (Suc y) \<le> d") (simp_all add: year_from.simps [of y d])
qed

lemma year_of_spec: "days_before (year_of d) \<le> d \<and> d < days_before (Suc (year_of d))"
  unfolding year_of_def by (rule year_from_spec [OF days_before_le])

lemma month_of_spec:
  "d < sum_list ms \<Longrightarrow> month_of ms d = (i, r) \<Longrightarrow>
   i < length ms \<and> r < ms ! i \<and> sum_list (take i ms) + r = d"
proof (induction ms arbitrary: d i)
  case (Cons m ms)
  show ?case
  proof (cases "d < m")
    case False
    then obtain j where j: "month_of ms (d - m) = (j, r)" "i = Suc j"
      using Cons(3) by (auto split: prod.splits)
    moreover have "d - m < sum_list ms" using Cons(2) False by simp
    ultimately show ?thesis using Cons(1) [of "d - m" j] False by auto
  qed (use Cons in auto)
qed simp

lemma month_days_sum: "sum_list (month_days y) = year_days y" "length (month_days y) = 12"
  by (simp_all add: month_days_def year_days_def)

lemma civil_spec:
  assumes "civil d = (y, m, r)"
  shows "1 \<le> m \<and> m \<le> 12 \<and> 1 \<le> r \<and> r \<le> month_days y ! (m - 1) \<and> day_number y m r = d \<and> y = year_of d"
proof -
  let ?y = "year_of d"
  obtain i q where iq: "month_of (month_days ?y) (d - days_before ?y) = (i, q)" by (rule prod.exhaust)
  have "d - days_before ?y < sum_list (month_days ?y)"
    using year_of_spec [of d] by (simp add: month_days_sum days_before_Suc) linarith
  from month_of_spec [OF this iq] show ?thesis
    using assms iq year_of_spec [of d] by (auto simp: civil_def day_number_def month_days_sum)
qed

section \<open>Formatting\<close>

text \<open>\<open>padded\<close> of \<^verbatim>\<open>GoTime\<close> prints the last digits; the year takes more when it has more.\<close>

definition year_digits :: "nat \<Rightarrow> string" where
  "year_digits y = (if y < 10000 then padded 4 y else dec y)"

definition epoch_day :: nat where "epoch_day = 719528"

definition ns_per_day :: int where [simp]: "ns_per_day = 86400000000000"

definition day_of :: "int \<Rightarrow> nat" where
  "day_of t = nat (t div ns_per_day + int epoch_day)"

definition ns_of_day :: "int \<Rightarrow> nat" where
  "ns_of_day t = nat (t mod ns_per_day)"

definition clock_ms :: "int \<Rightarrow> string" where
  "clock_ms t =
     (let n = ns_of_day t; s = n div 1000000000 in
      padded 2 (s div 3600) @ '':'' @ padded 2 (s div 60 mod 60) @ '':'' @ padded 2 (s mod 60) @ ''.'' @
      padded 3 (n mod 1000000000 div 1000000))"

definition Format_record :: "int \<Rightarrow> string" where
  "Format_record t =
     (case civil (day_of t) of (y, m, d) \<Rightarrow>
        year_digits y @ ''-'' @ padded 2 m @ ''-'' @ padded 2 d @ ''T'' @ clock_ms t @ ''Z'')"

section \<open>Parsing\<close>

definition digit :: "char \<Rightarrow> bool" where
  "digit c \<longleftrightarrow> 48 \<le> (of_char c :: nat) \<and> (of_char c :: nat) \<le> 57"

text \<open>A number of exactly \<open>n\<close> digits in a range, at the front of the input.\<close>

definition take_num :: "nat \<Rightarrow> nat \<Rightarrow> nat \<Rightarrow> string \<Rightarrow> (nat \<times> string) option" where
  "take_num n lo hi s =
     (let ds = take n s; v = digits_val 10 ds in
      if length ds = n \<and> list_all digit ds \<and> lo \<le> v \<and> v \<le> hi then Some (v, drop n s) else None)"

definition take_sep :: "char \<Rightarrow> string \<Rightarrow> string option" where
  "take_sep c s = (case s of [] \<Rightarrow> None | x # xs \<Rightarrow> if x = c then Some xs else None)"

text \<open>The fraction: at least one digit after the point, the first nine of which count.\<close>

definition take_frac :: "string \<Rightarrow> nat \<times> string" where
  "take_frac s =
     (case s of
        CHR ''.'' # r \<Rightarrow>
          (let ds = takeWhile digit r in
           if ds = [] then (0, s)
           else (digits_val 10 (take 9 ds) * 10 ^ (9 - length (take 9 ds)), dropWhile digit r))
      | _ \<Rightarrow> (0, s))"

definition zone_offset :: "string \<Rightarrow> int option" where
  "zone_offset s =
     (if s = ''Z'' then Some 0
      else case s of
        [] \<Rightarrow> None
      | sign # r \<Rightarrow>
          if sign \<noteq> CHR ''+'' \<and> sign \<noteq> CHR ''-'' then None
          else Option.bind (take_num 2 0 23 r) (\<lambda>(h, r).
            Option.bind (take_sep CHR '':'' r) (\<lambda>r.
            Option.bind (take_num 2 0 59 r) (\<lambda>(m, r).
              if r \<noteq> [] then None
              else Some ((if sign = CHR ''-'' then -1 else 1) * int (h * 3600 + m * 60))))))"

definition parse_strict :: "string \<Rightarrow> int option" where
  "parse_strict s =
     Option.bind (take_num 4 0 9999 s) (\<lambda>(y, s).
     Option.bind (take_sep CHR ''-'' s) (\<lambda>s.
     Option.bind (take_num 2 1 12 s) (\<lambda>(mo, s).
     Option.bind (take_sep CHR ''-'' s) (\<lambda>s.
     Option.bind (take_num 2 1 (month_days y ! (mo - 1)) s) (\<lambda>(d, s).
     Option.bind (take_sep CHR ''T'' s) (\<lambda>s.
     Option.bind (take_num 2 0 23 s) (\<lambda>(h, s).
     Option.bind (take_sep CHR '':'' s) (\<lambda>s.
     Option.bind (take_num 2 0 59 s) (\<lambda>(mi, s).
     Option.bind (take_sep CHR '':'' s) (\<lambda>s.
     Option.bind (take_num 2 0 59 s) (\<lambda>(sec, s).
     case take_frac s of (ns, s) \<Rightarrow>
     Option.bind (zone_offset s) (\<lambda>off.
       Some ((int (day_number y mo d) - int epoch_day) * ns_per_day +
         (int (h * 3600 + mi * 60 + sec) - off) * 1000000000 + int ns)))))))))))))"

section \<open>Parsing inverts formatting\<close>

lemma length_padded [simp]: "length (padded n v) = n"
  by (induction n arbitrary: v) auto

lemma digit_digit_char: "d < 10 \<Longrightarrow> digit (digit_char d) \<and> digit_val (digit_char d) = d"
  using less_16_cases [of d] by (auto simp: digit_def digit_char_def digit_val_def)

lemma padded_digits: "list_all digit (padded n v)"
  by (induction n arbitrary: v) (auto simp: digit_digit_char)

lemma digits_val_padded: "v < 10 ^ n \<Longrightarrow> digits_val 10 (padded n v) = v"
proof (induction n arbitrary: v)
  case (Suc n)
  then have "digits_val 10 (padded n (v div 10)) = v div 10" by (simp add: less_mult_imp_div_less)
  then show ?case by (simp add: digits_val_def digit_digit_char)
qed (simp add: digits_val_def)

lemma take_num_padded:
  "v < 10 ^ n \<Longrightarrow> lo \<le> v \<Longrightarrow> v \<le> hi \<Longrightarrow> take_num n lo hi (padded n v @ rest) = Some (v, rest)"
  by (simp add: take_num_def digits_val_padded padded_digits)

lemma take_sep_Cons [simp]: "take_sep c (c # s) = Some s"
  by (simp add: take_sep_def)

lemma take_frac_ms: "v < 1000 \<Longrightarrow> take_frac (CHR ''.'' # padded 3 v @ ''Z'') = (v * 1000000, ''Z'')"
proof -
  assume v: "v < 1000"
  have nz: "\<not> digit CHR ''Z''" by (simp add: digit_def)
  have "takeWhile digit (padded 3 v @ ''Z'') = padded 3 v" "dropWhile digit (padded 3 v @ ''Z'') = ''Z''"
    using padded_digits [of 3 v] nz by (simp_all add: list_all_iff takeWhile_append2 dropWhile_append2)
  moreover have "padded 3 v \<noteq> []" by (metis length_padded list.size(3) zero_neq_numeral)
  ultimately show ?thesis using v by (simp add: take_frac_def digits_val_padded)
qed

lemma take_num_2: "v < 100 \<Longrightarrow> lo \<le> v \<Longrightarrow> v \<le> hi \<Longrightarrow> take_num 2 lo hi (padded 2 v @ rest) = Some (v, rest)"
  by (rule take_num_padded) simp_all

lemma month_days_le: "m < 12 \<Longrightarrow> month_days y ! m \<le> 31"
  using nth_mem [of m "month_days y"] by (auto simp: month_days_def split: if_splits)

text \<open>The milliseconds since midnight, split and put together again.\<close>

lemma clock_split:
  fixes n :: nat
  defines "s \<equiv> n div 1000000000"
  shows "s div 3600 * 3600 + s div 60 mod 60 * 60 + s mod 60 = s"
proof -
  have "s div 60 div 60 = s div 3600" by (simp add: div_mult2_eq [symmetric])
  then have "s div 60 = s div 3600 * 60 + s div 60 mod 60" by (metis div_mult_mod_eq)
  then have "s div 3600 * 3600 + s div 60 mod 60 * 60 = s div 60 * 60" by simp
  then show ?thesis by simp
qed

text \<open>The years 0 to 9999.\<close>

definition four_digit_year :: "int \<Rightarrow> bool" where
  "four_digit_year t \<longleftrightarrow> 0 \<le> t div ns_per_day + int epoch_day \<and> day_of t < days_before 10000"

definition floor_ms :: "int \<Rightarrow> int" where
  "floor_ms t = t div 1000000 * 1000000"

lemma days_before_mono: "x \<le> y \<Longrightarrow> days_before x \<le> days_before y"
  by (induction rule: dec_induct) (simp_all add: days_before_Suc)

lemma year_below: "d < days_before 10000 \<Longrightarrow> year_of d < 10000"
  using year_of_spec [of d] days_before_mono [of 10000 "year_of d"] by linarith

lemma div_split:
  fixes a c k :: "'a :: euclidean_semiring_cancel"
  assumes "c \<noteq> 0" shows "a div c = a div (c * k) * k + a mod (c * k) div c"
proof -
  have "a = a mod (c * k) + c * (a div (c * k) * k)"
    by (metis add.commute div_mult_mod_eq mult.assoc mult.commute)
  then show ?thesis using assms by (metis add.commute div_mult_self2)
qed

lemma floor_ms_split:
  assumes "0 \<le> t div ns_per_day + int epoch_day"
  defines "n \<equiv> ns_of_day t"
  shows "(int (day_of t) - int epoch_day) * ns_per_day + int (n div 1000000000) * 1000000000 +
    int (n mod 1000000000 div 1000000 * 1000000) = floor_ms t"
proof -
  have n: "int n = t mod ns_per_day" by (simp add: n_def ns_of_day_def)
  have "n div 1000000000 * 1000000000 + n mod 1000000000 div 1000000 * 1000000 = n div 1000000 * 1000000"
  proof -
    have "n div 1000000 = n div 1000000000 * 1000 + n mod 1000000000 div 1000000" using div_split [of 1000000 n 1000] by simp
    then show ?thesis by simp
  qed
  from arg_cong [OF this, of int]
  have "int (n div 1000000000) * 1000000000 + int (n mod 1000000000 div 1000000 * 1000000) =
      int (n div 1000000) * 1000000"
    by (simp only: of_nat_add of_nat_mult of_nat_numeral)
  moreover have "int (n div 1000000) = t mod ns_per_day div 1000000" by (simp add: zdiv_int n)
  moreover have "t div 1000000 = t div ns_per_day * 86400000 + t mod ns_per_day div 1000000"
    using div_split [of 1000000 t 86400000] by simp
  ultimately show ?thesis using assms(1) by (simp add: day_of_def floor_ms_def)
qed

lemma parse_Format_record:
  assumes "four_digit_year t"
  shows "parse_strict (Format_record t) = Some (floor_ms t)"
proof -
  obtain y m r where c: "civil (day_of t) = (y, m, r)" by (metis prod_cases3)
  note spec = civil_spec [OF c]
  define n where "n = ns_of_day t"
  define s where "s = n div 1000000000"
  define ms where "ms = n mod 1000000000 div 1000000"
  have y: "y < 10000" using spec assms year_below by (auto simp: four_digit_year_def)
  have r: "r < 100" using spec month_days_le [of "m - 1" y] by linarith
  have "int n < ns_per_day" by (simp add: n_def ns_of_day_def)
  then have "n < 86400000000000" by simp
  then have s: "s < 86400" unfolding s_def by (simp add: less_mult_imp_div_less)
  then have hms: "s div 3600 < 24" "s div 60 mod 60 < 60" "s mod 60 < 60" by (simp_all add: less_mult_imp_div_less)
  have ms: "ms < 1000" unfolding ms_def by (simp add: less_mult_imp_div_less)
  have layout: "Format_record t = padded 4 y @ ''-'' @ padded 2 m @ ''-'' @ padded 2 r @ ''T'' @ padded 2 (s div 3600) @
      '':'' @ padded 2 (s div 60 mod 60) @ '':'' @ padded 2 (s mod 60) @ CHR ''.'' # padded 3 ms @ ''Z''"
    using c y by (simp add: Format_record_def clock_ms_def year_digits_def Let_def n_def s_def ms_def)
  have reads: "take_num 4 0 9999 (padded 4 y @ rest) = Some (y, rest)"
    "take_num 2 1 12 (padded 2 m @ rest) = Some (m, rest)"
    "take_num 2 1 (month_days y ! (m - 1)) (padded 2 r @ rest) = Some (r, rest)"
    "take_num 2 0 23 (padded 2 (s div 3600) @ rest) = Some (s div 3600, rest)"
    "take_num 2 0 59 (padded 2 (s div 60 mod 60) @ rest) = Some (s div 60 mod 60, rest)"
    "take_num 2 0 59 (padded 2 (s mod 60) @ rest) = Some (s mod 60, rest)" for rest
    using spec y r hms by (auto intro!: take_num_padded)
  have "parse_strict (Format_record t) =
      Some ((int (day_number y m r) - int epoch_day) * ns_per_day + int s * 1000000000 + int (ms * 1000000))"
    using clock_split [of n]
    unfolding layout parse_strict_def s_def [symmetric]
    by (simp add: reads take_frac_ms [OF ms] zone_offset_def del: One_nat_def)
  also have "\<dots> = Some (floor_ms t)"
  proof -
    have "day_number y m r = day_of t" using spec by blast
    then show ?thesis using floor_ms_split [of t] assms by (simp add: four_digit_year_def n_def s_def ms_def)
  qed
  finally show ?thesis .
qed

text \<open>Sanity checks: the epoch, a leap day, and the instant the capture generator starts from.\<close>

lemma Format_examples:
  "civil epoch_day = (1970, 1, 1)" "day_number 2026 10 5 = epoch_day + 20731"
  "Format_record 0 = ''1970-01-01T00:00:00.000Z''"
  "civil (epoch_day + 19782) = (2024, 2, 29)"
  by (simp_all add: civil_def epoch_day_def year_of_def year_from.simps days_before_def month_days_def is_leap_def
      day_number_def Format_record_def day_of_def clock_ms_def ns_of_day_def year_digits_def padded_numeral digit_char_def)

end
