(* ===== verification/Records.thy ===== *)
theory Records
  imports Events GoCalendar GoErrors GoText
begin

text \<open>
  \<^verbatim>\<open>events/record.go\<close>: the on-disk form of an event, the event a record stands for, and the reader of a
  capture.  JSON itself is a parameter here: \<open>unmarshal\<close> turns a line into a record or an error.  Maps
  and slices that are nil and those that are empty are the same list.
\<close>

section \<open>Records\<close>

record Record =
  rc_Timestamp :: string
  rc_Monotonic :: u64
  rc_PID :: u32
  rc_TID :: u32
  rc_PPID :: u32
  rc_UID :: u32
  rc_GID :: u32
  rc_Comm :: string
  rc_Syscall :: string
  rc_Exit :: bool
  rc_Ret :: i64
  rc_Args :: args
  rc_Arg0 :: i64
  rc_Arg1 :: i64
  rc_Arg2 :: i64
  rc_Path :: string
  rc_Argv :: "string list"
  rc_DestIP :: string
  rc_DestPort :: u16
  rc_Family :: u16

definition NewRecord :: "Event \<Rightarrow> Record" where
  "NewRecord ev =
     \<lparr>rc_Timestamp = Format_record (ev_Wall ev), rc_Monotonic = ev_Timestamp ev, rc_PID = ev_PID ev,
      rc_TID = ev_TID ev, rc_PPID = ev_PPID ev, rc_UID = ev_UID ev, rc_GID = ev_GID ev,
      rc_Comm = ev_Comm ev, rc_Syscall = ev_Syscall ev, rc_Exit = ev_IsExit ev,
      rc_Ret = (if ev_IsExit ev then ev_ReturnValue ev else 0), rc_Args = ev_Args ev,
      rc_Arg0 = ev_Arg0 ev, rc_Arg1 = ev_Arg1 ev, rc_Arg2 = ev_Arg2 ev, rc_Path = ev_Path ev,
      rc_Argv = ev_Argv ev, rc_DestIP = ev_DestIP ev, rc_DestPort = ev_DestPort ev,
      rc_Family = ev_Family ev\<rparr>"

text \<open>What the reader asks of the library: the print classes behind \<open>%q\<close> and the general time reader.\<close>

record reader =
  rd_isPrint :: "nat \<Rightarrow> bool"
  rd_parse :: "string \<Rightarrow> goerror + int"
  rd_unmarshal :: "string \<Rightarrow> goerror + Record"

definition time_Parse :: "reader \<Rightarrow> string \<Rightarrow> goerror + int" where
  "time_Parse rd s = (case parse_strict s of Some t \<Rightarrow> Inr t | None \<Rightarrow> rd_parse rd s)"

definition Record_Event :: "reader \<Rightarrow> Record \<Rightarrow> goerror + Event" where
  "Record_Event rd r =
     (case ParseSyscall (rc_Syscall r) of
        None \<Rightarrow> Inl (errors_New (''unknown syscall '' @ Quote (rd_isPrint rd) (rc_Syscall r)))
      | Some sc \<Rightarrow>
          (case time_Parse rd (rc_Timestamp r) of
             Inl e \<Rightarrow> Inl (errorf (''bad timestamp '' @ Quote (rd_isPrint rd) (rc_Timestamp r) @ '': '') e)
           | Inr wall \<Rightarrow> Inr
               \<lparr>ev_Timestamp = rc_Monotonic r, ev_Wall = wall, ev_PID = rc_PID r, ev_TID = rc_TID r,
                ev_TGID = rc_PID r, ev_UID = rc_UID r, ev_GID = rc_GID r, ev_PPID = rc_PPID r,
                ev_Comm = rc_Comm r, ev_Syscall = Syscall_String sc, ev_SyscallID = sc,
                ev_Args = rc_Args r, ev_ReturnValue = rc_Ret r, ev_IsExit = rc_Exit r,
                ev_Arg0 = rc_Arg0 r, ev_Arg1 = rc_Arg1 r, ev_Arg2 = rc_Arg2 r, ev_Path = rc_Path r,
                ev_Argv = rc_Argv r, ev_DestIP = rc_DestIP r, ev_DestPort = rc_DestPort r,
                ev_Family = rc_Family r\<rparr>))"

section \<open>Reading a capture\<close>

definition maxRecordLine :: nat where [simp]: "maxRecordLine = 1048576"

definition newline :: char where [simp]: "newline = CHR 0x0A"

text \<open>\<open>bufio.Scanner\<close> over lines: the pieces between newlines without a final carriage return; a piece
  that does not fit the buffer stops the scan.  The piece after the last newline counts when it is not
  empty.\<close>

definition dropCR :: "string \<Rightarrow> string" where
  "dropCR l = (if l \<noteq> [] \<and> last l = CHR 0x0D then butlast l else l)"

fun scan_pieces :: "string list \<Rightarrow> string list \<times> bool" where
  "scan_pieces [] = ([], False)"
| "scan_pieces (p # ps) =
     (if maxRecordLine \<le> length p then ([], True)
      else if ps = [] then (if p = [] then [] else [dropCR p], False)
      else case scan_pieces ps of (ls, long) \<Rightarrow> (dropCR p # ls, long))"

definition scan_lines :: "string \<Rightarrow> string list \<times> bool" where
  "scan_lines content = scan_pieces (split_on newline content)"

text \<open>The loop of \<open>ReadRecords\<close>; \<open>fn\<close> is the callback, over its own state.  The result is the error the
  loop returns with, \<open>None\<close> when it runs to the end of the lines.\<close>

fun records_loop ::
  "reader \<Rightarrow> ('s \<Rightarrow> Event \<Rightarrow> 's \<times> goerror option) \<Rightarrow> string list \<Rightarrow> nat \<Rightarrow> goerror option \<Rightarrow> 's \<Rightarrow> 's \<times> goerror option"
where
  "records_loop rd fn [] lineNo pendingErr s = (s, None)"
| "records_loop rd fn (line # rest) lineNo pendingErr s =
     (let lineNo = lineNo + 1 in
      if TrimSpace line = [] then records_loop rd fn rest lineNo pendingErr s
      else if pendingErr \<noteq> None then (s, pendingErr)
      else case rd_unmarshal rd line of
        Inl e \<Rightarrow> records_loop rd fn rest lineNo (Some (errorf (''line '' @ dec lineNo @ '': '') e)) s
      | Inr rec \<Rightarrow>
          (case Record_Event rd rec of
             Inl e \<Rightarrow> (s, Some (errorf (''line '' @ dec lineNo @ '': '') e))
           | Inr ev \<Rightarrow>
               (case fn s ev of
                  (s, Some e) \<Rightarrow> (s, Some e)
                | (s, None) \<Rightarrow> records_loop rd fn rest lineNo pendingErr s)))"

text \<open>The reader is the content it delivers and the error it ends with, \<open>None\<close> for the end of the file.\<close>

definition ReadRecords ::
  "reader \<Rightarrow> string \<times> goerror option \<Rightarrow> ('s \<Rightarrow> Event \<Rightarrow> 's \<times> goerror option) \<Rightarrow> 's \<Rightarrow> 's \<times> goerror option"
where
  "ReadRecords rd r fn s =
     (case scan_lines (fst r) of (ls, long) \<Rightarrow>
        (case records_loop rd fn ls 0 None s of
           (s, Some e) \<Rightarrow> (s, Some e)
         | (s, None) \<Rightarrow>
             (s, if long then Some \<lparr>er_msg = ''bufio.Scanner: token too long'', er_chain = [ErrTooLong]\<rparr>
                 else snd r)))"

section \<open>A record stands for its event\<close>

text \<open>What replay can know of an event: the wall clock to the millisecond, and a result only on exit.\<close>

definition recorded :: "Event \<Rightarrow> Event" where
  "recorded ev = ev\<lparr>ev_Wall := floor_ms (ev_Wall ev), ev_ReturnValue := (if ev_IsExit ev then ev_ReturnValue ev else 0)\<rparr>"

definition recordable :: "Event \<Rightarrow> bool" where
  "recordable ev \<longleftrightarrow> ParseSyscall (ev_Syscall ev) = Some (ev_SyscallID ev) \<and>
     ev_Syscall ev = Syscall_String (ev_SyscallID ev) \<and> ev_TGID ev = ev_PID ev \<and> four_digit_year (ev_Wall ev)"

lemma NewRecord_fields [simp]:
  "rc_Timestamp (NewRecord ev) = Format_record (ev_Wall ev)" "rc_Monotonic (NewRecord ev) = ev_Timestamp ev"
  "rc_PID (NewRecord ev) = ev_PID ev" "rc_TID (NewRecord ev) = ev_TID ev" "rc_PPID (NewRecord ev) = ev_PPID ev"
  "rc_UID (NewRecord ev) = ev_UID ev" "rc_GID (NewRecord ev) = ev_GID ev" "rc_Comm (NewRecord ev) = ev_Comm ev"
  "rc_Syscall (NewRecord ev) = ev_Syscall ev" "rc_Exit (NewRecord ev) = ev_IsExit ev"
  "rc_Ret (NewRecord ev) = (if ev_IsExit ev then ev_ReturnValue ev else 0)" "rc_Args (NewRecord ev) = ev_Args ev"
  "rc_Arg0 (NewRecord ev) = ev_Arg0 ev" "rc_Arg1 (NewRecord ev) = ev_Arg1 ev" "rc_Arg2 (NewRecord ev) = ev_Arg2 ev"
  "rc_Path (NewRecord ev) = ev_Path ev" "rc_Argv (NewRecord ev) = ev_Argv ev" "rc_DestIP (NewRecord ev) = ev_DestIP ev"
  "rc_DestPort (NewRecord ev) = ev_DestPort ev" "rc_Family (NewRecord ev) = ev_Family ev"
  by (simp_all add: NewRecord_def)

lemma Record_Event_NewRecord:
  assumes "recordable ev" shows "Record_Event rd (NewRecord ev) = Inr (recorded ev)"
proof -
  have "time_Parse rd (Format_record (ev_Wall ev)) = Inr (floor_ms (ev_Wall ev))"
    using assms by (simp add: recordable_def time_Parse_def parse_Format_record)
  moreover have "ParseSyscall (ev_Syscall ev) = Some (ev_SyscallID ev)" "ev_TGID ev = ev_PID ev"
    "ev_Syscall ev = Syscall_String (ev_SyscallID ev)"
    using assms unfolding recordable_def by blast+
  ultimately show ?thesis
    by (cases ev) (simp add: Record_Event_def recorded_def)
qed

text \<open>An event decoded from a known call is recordable.\<close>

lemma Decode_recordable:
  assumes "r_SyscallID r \<in> fst ` set syscallNames" and "r_SyscallID r \<noteq> SysUnknown"
    and "four_digit_year (boot + sint (r_Timestamp r))"
  shows "recordable (Decode r boot)"
proof -
  obtain n where "map_of syscallNames (r_SyscallID r) = Some n"
    using assms(1) by (metis domD dom_map_of_conv_image_fst)
  then have "ParseSyscall (Syscall_String (r_SyscallID r)) = Some (r_SyscallID r)"
    using ParseSyscall_iff [OF refl, of n "r_SyscallID r"] assms(2) by (simp add: ParseSyscall_def Syscall_String_def)
  then show ?thesis using assms(3) by (simp add: recordable_def Decode_fields)
qed

text \<open>C33. A capture loses nothing that detection computes on: an event decoded from a known call, written as a
  record and read back, is the same event, with the wall clock cut to the millisecond and the result
  kept only for a return.\<close>

theorem Record_roundtrip:
  assumes "r_SyscallID r \<in> fst ` set syscallNames" and "r_SyscallID r \<noteq> SysUnknown"
    and "four_digit_year (boot + sint (r_Timestamp r))"
  shows "Record_Event rd (NewRecord (Decode r boot)) = Inr (recorded (Decode r boot))"
  by (rule Record_Event_NewRecord [OF Decode_recordable [OF assms]])

definition no_reader :: reader where
  "no_reader =
     \<lparr>rd_isPrint = (\<lambda>_. True), rd_parse = (\<lambda>_. Inl (errors_New ''parse'')),
      rd_unmarshal = (\<lambda>_. Inl (errors_New ''unmarshal''))\<rparr>"

theorem Record_roundtrip_witness:
  "r_SyscallID sample_raw \<noteq> SysUnknown \<and>
   Record_Event no_reader (NewRecord (Decode sample_raw 0)) = Inr (recorded (Decode sample_raw 0))"
proof -
  have pre: "r_SyscallID sample_raw \<in> fst ` set syscallNames" "r_SyscallID sample_raw \<noteq> SysUnknown"
    "four_digit_year (0 + sint (r_Timestamp sample_raw))"
    by (simp_all add: sample_raw_def syscallNames_def four_digit_year_def epoch_day_def day_of_def days_before_def)
  then show ?thesis using Record_roundtrip [OF pre, of no_reader] by simp
qed

section \<open>What a capture replays to\<close>

definition line_event :: "reader \<Rightarrow> string \<Rightarrow> Event option" where
  "line_event rd line =
     (case rd_unmarshal rd line of
        Inl _ \<Rightarrow> None
      | Inr rec \<Rightarrow> (case Record_Event rd rec of Inl _ \<Rightarrow> None | Inr ev \<Rightarrow> Some ev))"

definition blank :: "string \<Rightarrow> bool" where
  "blank line \<longleftrightarrow> TrimSpace line = []"

definition readable_line :: "reader \<Rightarrow> string \<Rightarrow> bool" where
  "readable_line rd line \<longleftrightarrow> blank line \<or> line_event rd line \<noteq> None"

text \<open>The events of the lines that are not blank.\<close>

definition capture_events :: "reader \<Rightarrow> string list \<Rightarrow> Event list" where
  "capture_events rd ls = List.map_filter (line_event rd) (filter (\<lambda>l. \<not> blank l) ls)"

text \<open>A callback that never fails.\<close>

definition always :: "('s \<Rightarrow> Event \<Rightarrow> 's) \<Rightarrow> 's \<Rightarrow> Event \<Rightarrow> 's \<times> goerror option" where
  "always g s ev = (g s ev, None)"

lemma records_loop_good:
  "list_all (readable_line rd) good \<Longrightarrow>
   records_loop rd (always g) (good @ rest) n None s =
     records_loop rd (always g) rest (n + length good) None (fold (\<lambda>ev s. g s ev) (capture_events rd good) s)"
proof (induction good arbitrary: n s)
  case (Cons line good)
  then show ?case
    by (auto simp: readable_line_def blank_def capture_events_def line_event_def always_def Let_def map_filter_simps
        split: sum.splits option.splits)
qed (simp add: capture_events_def map_filter_simps)

lemma records_loop_blank:
  "list_all blank bs \<Longrightarrow> records_loop rd fn (bs @ rest) n e s = records_loop rd fn rest (n + length bs) e s"
  by (induction bs arbitrary: n) (simp_all add: blank_def Let_def)

lemma records_loop_bad:
  "rd_unmarshal rd bad = Inl e \<Longrightarrow> \<not> blank bad \<Longrightarrow>
   records_loop rd fn (bad # rest) n None s =
     records_loop rd fn rest (n + 1) (Some (errorf (''line '' @ dec (n + 1) @ '': '') e)) s"
  by (simp add: blank_def Let_def)

lemma records_loop_pending:
  "\<not> blank follow \<Longrightarrow> records_loop rd fn (follow # rest) n (Some e) s = (s, Some e)"
  by (simp add: blank_def Let_def)

text \<open>C34. A replay never skips damage in the middle of a capture: after any readable lines, a line that is
  not JSON followed by another non-blank line stops the replay with an error naming the damaged line,
  and the callback has seen exactly the events before it.  A malformed last line is passed over in
  silence, whether it is truncated or not.\<close>

theorem ReadRecords_corruption:
  assumes "list_all (readable_line rd) good" and "rd_unmarshal rd bad = Inl e" and "\<not> blank bad"
    and "list_all blank blanks" and "\<not> blank follow"
  shows "records_loop rd (always g) (good @ bad # blanks @ follow # rest) 0 None s =
      (fold (\<lambda>ev s. g s ev) (capture_events rd good) s,
       Some (errorf (''line '' @ dec (length good + 1) @ '': '') e)) \<and>
    records_loop rd (always g) (good @ bad # blanks) 0 None s =
      (fold (\<lambda>ev s. g s ev) (capture_events rd good) s, None)"
proof -
  let ?s = "fold (\<lambda>ev s. g s ev) (capture_events rd good) s" and ?n = "length good + 1"
  let ?e = "errorf (''line '' @ dec ?n @ '': '') e"
  have start: "records_loop rd (always g) (good @ bad # tail) 0 None s =
      records_loop rd (always g) tail ?n (Some ?e) ?s" for tail
    by (simp only: records_loop_good [OF assms(1)] records_loop_bad [OF assms(2,3)] add_0_left)
  show ?thesis
    unfolding start records_loop_blank [OF assms(4)] records_loop_pending [OF assms(5)]
    using records_loop_blank [OF assms(4), of rd "always g" "[]" ?n "Some ?e" ?s]
    by (simp only: append_Nil2 records_loop.simps(1))
qed

theorem ReadRecords_corruption_witness:
  "records_loop no_reader (always (\<lambda>n _. n + 1)) [[], ''{'', ''}''] 0 None (0 :: nat) =
     (0, Some (errorf ''line 2: '' (errors_New ''unmarshal'')))"
proof -
  have pre: "list_all (readable_line no_reader) [[]]" "rd_unmarshal no_reader ''{'' = Inl (errors_New ''unmarshal'')"
    "\<not> blank ''{''" "list_all blank []" "\<not> blank ''}''"
    by (simp_all add: readable_line_def blank_def TrimSpace_firm firm_def is_space_def no_reader_def)
  moreover have "capture_events no_reader [[]] = []"
    by (simp add: capture_events_def blank_def map_filter_simps)
  moreover have "dec (length ([[]] :: string list) + 1) = ''2''"
    by (simp add: dec_def nat_digits.simps [of 10 "Suc (Suc 0)"] digit_char_def)
  ultimately show ?thesis
    using conjunct1 [OF ReadRecords_corruption [OF pre, of "\<lambda>n _. n + 1" "[]" 0]]
    by (simp only: append_Cons append_Nil fold_simps)
qed

end
