(* ===== verification/Sinks.thy ===== *)
theory Sinks
  imports Records Alerts
begin

text \<open>
  \<^verbatim>\<open>output/sink.go\<close> and \<^verbatim>\<open>output/jsonl.go\<close>: fanning an alert out, and the two log files.  The file
  system is a \<open>log_host\<close>: how a write, a sync or a close ends.  \<open>json.Encoder\<close> is modelled where the
  sinks rely on it: one value per line, one write per value, and the error of a failed write is kept and
  returned by every later \<open>Encode\<close>.  The text of a value is a parameter.
\<close>

section \<open>MultiSink\<close>

text \<open>The sinks are of any kind \<open>'k\<close>, with the methods that \<open>'k\<close> has; a nil sink is \<open>None\<close>.\<close>

fun Multi_each :: "('k \<Rightarrow> 'k \<times> goerror option) \<Rightarrow> 'k option list \<Rightarrow> 'k option list \<times> goerror list" where
  "Multi_each op [] = ([], [])"
| "Multi_each op (None # ms) = (case Multi_each op ms of (ms, errs) \<Rightarrow> (None # ms, errs))"
| "Multi_each op (Some s # ms) =
     (case op s of (s, err) \<Rightarrow>
      case Multi_each op ms of (ms, errs) \<Rightarrow>
        (Some s # ms, (case err of None \<Rightarrow> errs | Some e \<Rightarrow> e # errs)))"

definition MultiSink_Write ::
  "('k \<Rightarrow> Alert \<Rightarrow> 'k \<times> goerror option) \<Rightarrow> 'k option list \<Rightarrow> Alert \<Rightarrow> 'k option list \<times> goerror option"
where
  "MultiSink_Write write m a = (case Multi_each (\<lambda>s. write s a) m of (m, errs) \<Rightarrow> (m, errors_Join errs))"

definition MultiSink_Close ::
  "('k \<Rightarrow> 'k \<times> goerror option) \<Rightarrow> 'k option list \<Rightarrow> 'k option list \<times> goerror option"
where
  "MultiSink_Close close m = (case Multi_each close m of (m, errs) \<Rightarrow> (m, errors_Join errs))"

section \<open>The log files\<close>

datatype write_outcome = Wrote | Short nat goerror

record log_host =
  lh_isPrint :: "nat \<Rightarrow> bool"
  lh_open :: "string \<Rightarrow> goerror + string"
  lh_write :: "string \<Rightarrow> string \<Rightarrow> write_outcome"
  lh_sync :: "goerror option"
  lh_close :: "goerror option"
  lh_alert :: "Alert \<Rightarrow> goerror + string"
  lh_record :: "Record \<Rightarrow> goerror + string"

text \<open>\<open>lh_open\<close> gives the content of the file as the append mode finds it.  \<open>lf_open\<close> is whether the sink's
  file field is set, \<open>lf_err\<close> the error the encoder keeps.\<close>

record log_file =
  lf_path :: string
  lf_content :: string
  lf_open :: bool
  lf_err :: "goerror option"

definition Encode :: "log_host \<Rightarrow> goerror + string \<Rightarrow> log_file \<Rightarrow> log_file \<times> goerror option" where
  "Encode h v f =
     (case lf_err f of
        Some e \<Rightarrow> (f, Some e)
      | None \<Rightarrow>
          (case v of
             Inl e \<Rightarrow> (f, Some e)
           | Inr text \<Rightarrow>
               (let data = text @ [newline] in
                case lh_write h (lf_content f) data of
                  Wrote \<Rightarrow> (f\<lparr>lf_content := lf_content f @ data\<rparr>, None)
                | Short n e \<Rightarrow>
                    (f\<lparr>lf_content := lf_content f @ take n data, lf_err := Some e\<rparr>, Some e))))"

definition open_log :: "log_host \<Rightarrow> string \<Rightarrow> string \<Rightarrow> goerror + log_file" where
  "open_log h what path =
     (case lh_open h path of
        Inl e \<Rightarrow> Inl (errorf (''opening '' @ what @ '' '' @ Quote (lh_isPrint h) path @ '': '') e)
      | Inr content \<Rightarrow> Inr \<lparr>lf_path = path, lf_content = content, lf_open = True, lf_err = None\<rparr>)"

definition NewJSONLSink :: "log_host \<Rightarrow> string \<Rightarrow> goerror + log_file" where
  "NewJSONLSink h path = open_log h ''alert log'' path"

definition JSONL_Write :: "log_host \<Rightarrow> log_file \<Rightarrow> Alert \<Rightarrow> log_file \<times> goerror option" where
  "JSONL_Write h f a =
     (if \<not> lf_open f then
        (f, Some (errors_New (''alert log '' @ Quote (lh_isPrint h) (lf_path f) @ '' is closed'')))
      else case Encode h (lh_alert h a) f of
        (f, Some e) \<Rightarrow> (f, Some (errorf (''writing alert to '' @ Quote (lh_isPrint h) (lf_path f) @ '': '') e))
      | (f, None) \<Rightarrow> (f, None))"

definition JSONL_Close :: "log_host \<Rightarrow> log_file \<Rightarrow> log_file \<times> goerror option" where
  "JSONL_Close h f =
     (if \<not> lf_open f then (f, None)
      else
        (f\<lparr>lf_open := False\<rparr>,
         case lh_close h of
           Some e \<Rightarrow> Some (errorf (''closing alert log '' @ Quote (lh_isPrint h) (lf_path f) @ '': '') e)
         | None \<Rightarrow>
             (case lh_sync h of
                Some e \<Rightarrow> Some (errorf (''syncing alert log '' @ Quote (lh_isPrint h) (lf_path f) @ '': '') e)
              | None \<Rightarrow> None)))"

definition NewEventSink :: "log_host \<Rightarrow> string \<Rightarrow> goerror + log_file" where
  "NewEventSink h path = open_log h ''debug log'' path"

definition WriteEvent :: "log_host \<Rightarrow> log_file \<Rightarrow> Event \<Rightarrow> log_file \<times> goerror option" where
  "WriteEvent h f ev =
     (if \<not> lf_open f then
        (f, Some (errors_New (''debug log '' @ Quote (lh_isPrint h) (lf_path f) @ '' is closed'')))
      else case Encode h (lh_record h (NewRecord ev)) f of
        (f, Some e) \<Rightarrow> (f, Some (errorf (''writing event to '' @ Quote (lh_isPrint h) (lf_path f) @ '': '') e))
      | (f, None) \<Rightarrow> (f, None))"

definition EventSink_Close :: "log_host \<Rightarrow> log_file \<Rightarrow> log_file \<times> goerror option" where
  "EventSink_Close h f =
     (if \<not> lf_open f then (f, None)
      else
        (f\<lparr>lf_open := False\<rparr>,
         case lh_close h of
           Some e \<Rightarrow> Some (errorf (''closing debug log '' @ Quote (lh_isPrint h) (lf_path f) @ '': '') e)
         | None \<Rightarrow> None))"

section \<open>Fan-out\<close>

lemma Multi_each_map:
  "Multi_each op m =
     (map (map_option (\<lambda>s. fst (op s))) m,
      List.map_filter (\<lambda>s. case s of None \<Rightarrow> None | Some s \<Rightarrow> snd (op s)) m)"
  by (induction op m rule: Multi_each.induct) (auto simp: map_filter_simps split: prod.splits option.splits)

text \<open>Every destination gets the alert, whatever the others do: after a write each sink is in the state
  its own write leaves it in, nil sinks are skipped, and the write reports an error exactly when some
  sink did, joining all of their messages in order.\<close>

theorem MultiSink_independent:
  "MultiSink_Write write m a =
     (map (map_option (\<lambda>s. fst (write s a))) m,
      errors_Join (concat (map (\<lambda>s. case s of None \<Rightarrow> [] | Some s \<Rightarrow> (case snd (write s a) of None \<Rightarrow> [] | Some e \<Rightarrow> [e])) m)))"
proof -
  have "List.map_filter (\<lambda>s. case s of None \<Rightarrow> None | Some s \<Rightarrow> snd (write s a)) m =
      concat (map (\<lambda>s. case s of None \<Rightarrow> [] | Some s \<Rightarrow> (case snd (write s a) of None \<Rightarrow> [] | Some e \<Rightarrow> [e])) m)"
    by (induction m) (auto simp: map_filter_simps split: option.splits)
  then show ?thesis by (simp add: MultiSink_Write_def Multi_each_map)
qed

section \<open>What a log file holds\<close>

text \<open>One call of \<open>Encode\<close> per value; the results in order.\<close>

fun Encode_run :: "log_host \<Rightarrow> (goerror + string) list \<Rightarrow> log_file \<Rightarrow> log_file \<times> goerror option list" where
  "Encode_run h [] f = (f, [])"
| "Encode_run h (v # vs) f =
     (case Encode h v f of (f, r) \<Rightarrow> case Encode_run h vs f of (f, rs) \<Rightarrow> (f, r # rs))"

text \<open>The lines whose write was reported to succeed.\<close>

fun written :: "(goerror + string) list \<Rightarrow> goerror option list \<Rightarrow> string" where
  "written (Inr text # vs) (None # rs) = text @ newline # written vs rs"
| "written (_ # vs) (_ # rs) = written vs rs"
| "written _ _ = []"

lemma Encode_stuck: "lf_err f = Some e \<Longrightarrow> Encode h v f = (f, Some e)"
  by (simp add: Encode_def)

lemma Encode_run_stuck: "lf_err f = Some e \<Longrightarrow> Encode_run h vs f = (f, map (\<lambda>_. Some e) vs)"
  by (induction vs) (simp_all add: Encode_stuck)

lemma written_stuck: "written vs (map (\<lambda>_. Some e) vs) = []"
proof (induction vs)
  case (Cons v vs)
  then show ?case by (cases v) simp_all
qed simp

text \<open>A failed write stops inside the line; and the encoded text is one line.\<close>

definition short_writes :: "log_host \<Rightarrow> bool" where
  "short_writes h \<longleftrightarrow> (\<forall>c d. case lh_write h c d of Wrote \<Rightarrow> True | Short n e \<Rightarrow> n < length d)"

definition one_line :: "goerror + string \<Rightarrow> bool" where
  "one_line v = (case v of Inl _ \<Rightarrow> True | Inr text \<Rightarrow> newline \<notin> set text)"

lemma Encode_cases:
  assumes "lf_err f = None" and "short_writes h" and "one_line v"
  obtains body where "v = Inr body" "Encode h v f = (f\<lparr>lf_content := lf_content f @ body @ [newline]\<rparr>, None)"
  | e where "v = Inl e" "Encode h v f = (f, Some e)"
  | body p e where "v = Inr body" "newline \<notin> set p"
      "Encode h v f = (f\<lparr>lf_content := lf_content f @ p, lf_err := Some e\<rparr>, Some e)"
proof (cases v)
  case (Inl e)
  then show thesis using that(2) assms(1) by (simp add: Encode_def)
next
  case (Inr body)
  show thesis
  proof (cases "lh_write h (lf_content f) (body @ [newline])")
    case Wrote
    then show thesis using that(1) Inr assms(1) by (simp add: Encode_def)
  next
    case (Short n e)
    then have "n \<le> length body" using assms(2) by (force simp: short_writes_def dest: spec2 split: write_outcome.splits)
    then have "newline \<notin> set (take n body)" using assms(3) Inr by (auto simp: one_line_def dest: in_set_takeD)
    then show thesis using that(3) [of body "take n body" e] Inr Short assms(1) \<open>n \<le> length body\<close>
      by (simp add: Encode_def)
  qed
qed

lemma Encode_run_content:
  "lf_err f = None \<Longrightarrow> short_writes h \<Longrightarrow> list_all one_line vs \<Longrightarrow> Encode_run h vs f = (f', rs) \<Longrightarrow>
   \<exists>p. lf_content f' = lf_content f @ written vs rs @ p \<and> newline \<notin> set p \<and> (lf_err f' = None \<longrightarrow> p = [])"
proof (induction vs arbitrary: f f' rs)
  case (Cons v vs)
  from Cons.prems(3) have v: "one_line v" and vs: "list_all one_line vs" by simp_all
  from Cons.prems(1,2) v show ?case
  proof (cases rule: Encode_cases)
    case (1 body)
    obtain g ss where run: "Encode_run h vs (f\<lparr>lf_content := lf_content f @ body @ [newline]\<rparr>) = (g, ss)"
      by (rule prod.exhaust)
    then show ?thesis using Cons.IH [OF _ Cons.prems(2) vs run] Cons.prems 1 by auto
  next
    case (2 e)
    obtain g ss where run: "Encode_run h vs f = (g, ss)" by (rule prod.exhaust)
    then show ?thesis using Cons.IH [OF Cons.prems(1,2) vs run] Cons.prems 2 by auto
  next
    case (3 body p e)
    then show ?thesis
      using Cons.prems(4) Encode_run_stuck [of "f\<lparr>lf_content := lf_content f @ p, lf_err := Some e\<rparr>" e h vs]
      by (auto simp: written_stuck)
  qed
qed simp

text \<open>A run of \<open>Write\<close>, and what each call returns while no write has failed.\<close>

fun JSONL_run :: "log_host \<Rightarrow> Alert list \<Rightarrow> log_file \<Rightarrow> log_file \<times> goerror option list" where
  "JSONL_run h [] f = (f, [])"
| "JSONL_run h (a # as) f =
     (case JSONL_Write h f a of (f, r) \<Rightarrow> case JSONL_run h as f of (f, rs) \<Rightarrow> (f, r # rs))"

definition write_error :: "log_host \<Rightarrow> log_file \<Rightarrow> goerror \<Rightarrow> goerror" where
  "write_error h f e = errorf (''writing alert to '' @ Quote (lh_isPrint h) (lf_path f) @ '': '') e"

definition write_answer :: "log_host \<Rightarrow> log_file \<Rightarrow> Alert \<Rightarrow> goerror option" where
  "write_answer h f a = (case lh_alert h a of Inl e \<Rightarrow> Some (write_error h f e) | Inr _ \<Rightarrow> None)"

lemma JSONL_Write_open:
  "lf_open f \<Longrightarrow> JSONL_Write h f a = map_prod id (map_option (write_error h f)) (Encode h (lh_alert h a) f)"
proof -
  have "lf_path (fst (Encode h v f)) = lf_path f" for v
    by (simp add: Encode_def Let_def split: option.split sum.split write_outcome.split)
  then show "lf_open f \<Longrightarrow> ?thesis"
    by (cases "Encode h (lh_alert h a) f") (simp add: JSONL_Write_def write_error_def split: option.split, metis fst_conv)
qed

lemma Encode_keeps [simp]:
  "lf_open (fst (Encode h v f)) = lf_open f" "lf_path (fst (Encode h v f)) = lf_path f"
  by (simp_all add: Encode_def Let_def split: option.split sum.split write_outcome.split)

lemma write_error_path: "lf_path f = lf_path g \<Longrightarrow> write_error h f = write_error h g"
  by (simp add: write_error_def fun_eq_iff)

lemma JSONL_run_open:
  "lf_open f \<Longrightarrow> JSONL_run h as f = map_prod id (map (map_option (write_error h f))) (Encode_run h (map (lh_alert h) as) f)"
proof (induction as arbitrary: f)
  case (Cons a as)
  obtain g r where g: "Encode h (lh_alert h a) f = (g, r)" by (rule prod.exhaust)
  then have keep: "lf_open g" "lf_path g = lf_path f" using Cons.prems Encode_keeps [of h "lh_alert h a" f] by simp_all
  show ?case using Cons.IH [OF keep(1)] write_error_path [OF keep(2), of h] Cons.prems g
    by (cases "Encode_run h (map (lh_alert h) as) g") (simp add: JSONL_Write_open)
qed simp

lemma written_errors: "written vs (map (map_option g) rs) = written vs rs"
  by (induction vs rs rule: written.induct) simp_all

lemma Encode_run_answers:
  "lf_err f = None \<Longrightarrow> Encode_run h vs f = (f', rs) \<Longrightarrow>
   \<exists>n \<le> length vs. take n rs = map (\<lambda>v. case v of Inl e \<Rightarrow> Some e | Inr _ \<Rightarrow> None) (take n vs) \<and>
     list_all (\<lambda>r. r \<noteq> None) (drop n rs) \<and> (n = length vs \<or> lf_err f' \<noteq> None)"
proof (induction vs arbitrary: f f' rs)
  case (Cons v vs)
  obtain g r where g: "Encode h v f = (g, r)" by (rule prod.exhaust)
  obtain ss where ss: "Encode_run h vs g = (f', ss)" "rs = r # ss"
    using Cons.prems(2) g by (auto split: prod.splits)
  show ?case
  proof (cases "lf_err g")
    case None
    then have r: "r = (case v of Inl e \<Rightarrow> Some e | Inr _ \<Rightarrow> None)"
      using g Cons.prems(1) by (auto simp: Encode_def Let_def split: sum.splits write_outcome.splits)
    obtain n where "n \<le> length vs" "take n ss = map (\<lambda>v. case v of Inl e \<Rightarrow> Some e | Inr _ \<Rightarrow> None) (take n vs)"
      "list_all (\<lambda>r. r \<noteq> None) (drop n ss)" "n = length vs \<or> lf_err f' \<noteq> None"
      using Cons.IH [OF None ss(1)] by blast
    then show ?thesis using ss(2) r by (intro exI [of _ "Suc n"]) simp
  next
    case (Some e)
    then have "r = Some e" using g Cons.prems(1) by (auto simp: Encode_def Let_def split: sum.splits write_outcome.splits)
    then show ?thesis using Encode_run_stuck [OF Some, of h vs] ss Some
      by (intro exI [of _ 0]) (simp add: list_all_iff)
  qed
qed simp

lemma Encode_run_calm:
  "lf_err f = None \<Longrightarrow> \<forall>c data. lh_write h c data = Wrote \<Longrightarrow> lf_err (fst (Encode_run h vs f)) = None"
proof (induction vs arbitrary: f)
  case (Cons v vs)
  have "lf_err (fst (Encode h v f)) = None" using Cons.prems by (simp add: Encode_def Let_def split: sum.split)
  then show ?case using Cons.IH Cons.prems(2) by (simp add: split_def)
qed simp

lemma JSONL_run_closed:
  "\<not> lf_open f \<Longrightarrow> fst (JSONL_run h as f) = f \<and> list_all (\<lambda>r. r \<noteq> None) (snd (JSONL_run h as f))"
  by (induction as) (simp_all add: JSONL_Write_def split_def)

text \<open>C35. The alert log is whole lines at every instant.  Open it and write any alerts, with encodings and
  writes failing or stopping short anywhere: the file is what it was, then exactly the lines of the
  alerts whose \<open>Write\<close> returned no error, then at most a piece of one line, and that only after a failed
  write.  Up to the first failed write, \<open>Write\<close> refuses exactly the alerts that have no encoding, and after
  it every alert; when no write fails, none is refused for another reason.  After \<open>Close\<close> nothing is
  written and every alert is refused.  The library is asked to encode a value as one line and to write no
  more than it was given.\<close>

theorem log_whole_lines:
  assumes "NewJSONLSink h path = Inr f" and "short_writes h" and "list_all (\<lambda>a. one_line (lh_alert h a)) as"
    and "JSONL_run h as f = (f', rs)"
  shows "(\<exists>p. lf_content f' = lf_content f @ written (map (lh_alert h) as) rs @ p \<and> newline \<notin> set p \<and>
       (p = [] \<or> lf_err f' \<noteq> None)) \<and>
    (\<exists>n \<le> length as. take n rs = map (write_answer h f) (take n as) \<and> list_all (\<lambda>r. r \<noteq> None) (drop n rs) \<and>
       (n = length as \<or> lf_err f' \<noteq> None)) \<and>
    ((\<forall>c data. lh_write h c data = Wrote) \<longrightarrow> lf_err f' = None) \<and>
    (let f'' = fst (JSONL_Close h f') in lf_content f'' = lf_content f' \<and>
       (\<forall>late. fst (JSONL_run h late f'') = f'' \<and> list_all (\<lambda>r. r \<noteq> None) (snd (JSONL_run h late f''))))"
proof -
  have f: "lf_err f = None" "lf_open f" using assms(1) by (auto simp: NewJSONLSink_def open_log_def split: sum.splits)
  obtain es where es: "Encode_run h (map (lh_alert h) as) f = (f', es)" "rs = map (map_option (write_error h f)) es"
    using assms(4) unfolding JSONL_run_open [OF f(2)] by (cases "Encode_run h (map (lh_alert h) as) f") simp
  have "list_all one_line (map (lh_alert h) as)" using assms(3) by (simp add: list_all_iff)
  note content = Encode_run_content [OF f(1) assms(2) this es(1)]
  have lines: "\<exists>p. lf_content f' = lf_content f @ written (map (lh_alert h) as) rs @ p \<and> newline \<notin> set p \<and>
      (p = [] \<or> lf_err f' \<noteq> None)"
    unfolding es(2) written_errors using content by blast
  obtain n where n: "n \<le> length as"
    "take n es = map (\<lambda>v. case v of Inl e \<Rightarrow> Some e | Inr _ \<Rightarrow> None) (take n (map (lh_alert h) as))"
    "list_all (\<lambda>r. r \<noteq> None) (drop n es)" "n = length as \<or> lf_err f' \<noteq> None"
    using Encode_run_answers [OF f(1) es(1)] by auto
  have answers: "take n rs = map (write_answer h f) (take n as)" "list_all (\<lambda>r. r \<noteq> None) (drop n rs)"
    using n(2,3) by (simp_all add: es(2) take_map drop_map write_answer_def list_all_iff split: sum.split)
  have closed: "\<not> lf_open (fst (JSONL_Close h f'))" "lf_content (fst (JSONL_Close h f')) = lf_content f'"
    by (simp_all add: JSONL_Close_def)
  have "(\<forall>c data. lh_write h c data = Wrote) \<longrightarrow> lf_err f' = None"
    using Encode_run_calm [OF f(1), of h "map (lh_alert h) as"] es(1) by simp
  then show ?thesis using lines n(1,4) answers closed(2) JSONL_run_closed [OF closed(1)] unfolding Let_def by blast
qed

text \<open>C36. One failed write silences the alert log for good: once writing an alert has failed, \<open>Write\<close> returns that
  same error for every later alert and changes nothing, so nothing more reaches the file, even when the
  file system accepts writes again.  The print classes that quote the path in the error are the same at
  both times.\<close>

theorem failed_write_silences_log:
  assumes "lf_open f" and "lf_err f = None" and "lh_alert h a = Inr text"
    and "JSONL_Write h f a = (f', Some e)" and "lh_isPrint h' = lh_isPrint h"
  shows "JSONL_Write h' f' a' = (f', Some e)"
proof -
  obtain e0 where "lf_err f' = Some e0" "lf_open f'" "lf_path f' = lf_path f" "e = write_error h f e0"
    using assms(1-4) by (auto simp: JSONL_Write_def write_error_def Encode_def Let_def split: write_outcome.splits)
  then show ?thesis using assms(5) by (simp add: JSONL_Write_open Encode_stuck write_error_def)
qed

text \<open>A host whose disk is full, and the same host when it no longer is.\<close>

definition disk :: "bool \<Rightarrow> log_host" where
  "disk full =
     \<lparr>lh_isPrint = (\<lambda>_. True), lh_open = (\<lambda>_. Inr []),
      lh_write = (\<lambda>c d. if full then Short 1 (errors_New ''no space left on device'') else Wrote),
      lh_sync = None, lh_close = None, lh_alert = (\<lambda>a. Inr (al_Rule a)), lh_record = (\<lambda>r. Inr (rc_Path r))\<rparr>"

definition sample_log :: log_file where
  "sample_log = \<lparr>lf_path = ''a'', lf_content = [], lf_open = True, lf_err = None\<rparr>"

definition log_alert :: Alert where
  "log_alert = newAlert (Decode sample_raw 0) ''r'' TechEtcShadow SeverityHigh ''d''"

theorem log_whole_lines_witness:
  "\<exists>f. NewJSONLSink (disk False) ''a'' = Inr f \<and>
     lf_content (fst (JSONL_run (disk False) [log_alert, log_alert] f)) = ''r'' @ [newline] @ ''r'' @ [newline] \<and>
     lf_err (fst (JSONL_run (disk False) [log_alert, log_alert] f)) = None"
proof -
  have f: "NewJSONLSink (disk False) ''a'' = Inr sample_log"
    by (simp add: NewJSONLSink_def open_log_def disk_def sample_log_def)
  have run: "JSONL_run (disk False) [log_alert, log_alert] sample_log =
      (sample_log\<lparr>lf_content := ''r'' @ [newline] @ ''r'' @ [newline]\<rparr>, [None, None])"
    by (simp add: JSONL_Write_def Encode_def disk_def sample_log_def log_alert_def)
  have "short_writes (disk False)" by (simp add: short_writes_def disk_def)
  moreover have "list_all (\<lambda>a. one_line (lh_alert (disk False) a)) [log_alert, log_alert]"
    by (simp add: one_line_def disk_def log_alert_def)
  moreover have "\<forall>c data. lh_write (disk False) c data = Wrote" by (simp add: disk_def)
  ultimately show ?thesis using log_whole_lines [OF f _ _ run] f run by auto
qed

theorem failed_write_silences_log_witness:
  "\<exists>f' e. JSONL_Write (disk True) sample_log log_alert = (f', Some e) \<and>
     JSONL_Write (disk False) f' log_alert = (f', Some e)"
proof -
  let ?f = "sample_log\<lparr>lf_content := ''r'', lf_err := Some (errors_New ''no space left on device'')\<rparr>"
  obtain e where run: "JSONL_Write (disk True) sample_log log_alert = (?f, Some e)"
    by (simp add: JSONL_Write_def Encode_def disk_def sample_log_def log_alert_def)
  have pre: "lf_open sample_log" "lf_err sample_log = None" "lh_alert (disk True) log_alert = Inr ''r''"
    by (simp_all add: sample_log_def disk_def log_alert_def)
  have "lh_isPrint (disk False) = lh_isPrint (disk True)" by (simp add: disk_def)
  from failed_write_silences_log [OF pre run this, of log_alert] show ?thesis using run by blast
qed

text \<open>Closing is idempotent, and a closed log refuses what comes after.\<close>

lemma JSONL_Close_twice: "JSONL_Close h (fst (JSONL_Close h' f)) = (fst (JSONL_Close h' f), None)"
  by (cases f) (auto simp: JSONL_Close_def)

lemma EventSink_Close_twice: "EventSink_Close h (fst (EventSink_Close h' f)) = (fst (EventSink_Close h' f), None)"
  by (cases f) (auto simp: EventSink_Close_def)

lemma JSONL_closed: "\<not> lf_open f \<Longrightarrow> fst (JSONL_Write h f a) = f \<and> snd (JSONL_Write h f a) \<noteq> None"
  by (simp add: JSONL_Write_def)

end
