(* ===== verification/GoRunes.thy ===== *)
theory GoRunes
  imports GoText
begin

text \<open>
  Strings as sequences of runes, the way \<open>range\<close>, \<open>[]rune\<close>, \<open>utf8.RuneCountInString\<close> and the padding of
  \<^verbatim>\<open>fmt\<close> read them: a malformed byte counts as one replacement character.
\<close>

function runes :: "string \<Rightarrow> (nat \<times> string) list" where
  "runes s =
     (if s = [] then []
      else case decode_rune (map of_char s) of (r, width) \<Rightarrow> (r, take width s) # runes (drop width s))"
  by pat_completeness auto
termination
proof (relation "measure length")
  fix s and r width :: nat
  assume "s \<noteq> []" and "(r, width) = decode_rune (map of_char s)"
  then have "0 < width" using decode_rune_width [of "map of_char s"] by (metis map_is_Nil_conv snd_conv)
  with \<open>s \<noteq> []\<close> show "(drop width s, s) \<in> measure length" by simp
qed simp

declare runes.simps [simp del]

definition RuneCount :: "string \<Rightarrow> nat" where
  "RuneCount s = length (runes s)"

text \<open>\<open>string(r)\<close>: the UTF-8 bytes of a rune, those of U+FFFD for one that has none.\<close>

definition byte :: "nat \<Rightarrow> char" where
  "byte n = char_of n"

definition EncodeRune :: "nat \<Rightarrow> string" where
  "EncodeRune r =
     (let r = (if 0x10FFFF < r \<or> (0xD800 \<le> r \<and> r \<le> 0xDFFF) then runeError else r) in
      if r < 0x80 then [byte r]
      else if r < 0x800 then [byte (0xC0 + r div 64), byte (0x80 + r mod 64)]
      else if r < 0x10000 then
        [byte (0xE0 + r div 4096), byte (0x80 + r div 64 mod 64), byte (0x80 + r mod 64)]
      else
        [byte (0xF0 + r div 262144), byte (0x80 + r div 4096 mod 64), byte (0x80 + r div 64 mod 64),
         byte (0x80 + r mod 64)])"

text \<open>The \<open>%-ns\<close> verb: pad on the right to \<open>n\<close> runes.\<close>

definition pad_right :: "nat \<Rightarrow> string \<Rightarrow> string" where
  "pad_right n s = s @ replicate (n - RuneCount s) CHR '' ''"

section \<open>ASCII\<close>

definition ascii :: "char \<Rightarrow> bool" where
  "ascii c \<longleftrightarrow> (of_char c :: nat) < 0x80"

lemma runes_Nil [simp]: "runes [] = []"
  by (simp add: runes.simps)

lemma runes_ascii_Cons: "ascii c \<Longrightarrow> runes (c # s) = (of_char c, [c]) # runes s"
  by (simp add: runes.simps [of "c # s"] decode_rune_def ascii_def)

lemma runes_ascii: "list_all ascii s \<Longrightarrow> runes (s @ t) = map (\<lambda>c. (of_char c, [c])) s @ runes t"
  by (induction s) (simp_all add: runes_ascii_Cons)

lemma concat_runes: "concat (map snd (runes s)) = s"
proof (induction s rule: runes.induct)
  case (1 s)
  show ?case
  proof (cases "s = []")
    case False
    obtain r w where d: "decode_rune (map of_char s) = (r, w)" by (rule prod.exhaust)
    then show ?thesis using 1 [OF False d [symmetric]] False by (simp add: runes.simps [of s])
  qed simp
qed

lemma runes_nonempty: "s \<noteq> [] \<Longrightarrow> runes s \<noteq> []"
  by (simp add: runes.simps [of s] split: prod.splits)

section \<open>Appending\<close>

text \<open>An ASCII byte never continues a sequence, so the runes of a string do not change when something that
  starts with one follows.\<close>

definition ascii_start :: "string \<Rightarrow> bool" where
  "ascii_start t \<longleftrightarrow> (case t of [] \<Rightarrow> True | c # _ \<Rightarrow> ascii c)"

lemma lead_byte_range: "lead_byte b = Some (w, lo, hi) \<Longrightarrow> 0x80 \<le> lo \<and> (w = 2 \<or> w = 3 \<or> w = 4)"
  by (auto simp: lead_byte_def split: if_splits)

lemma decode_rune_append:
  assumes "bs \<noteq> []" and "cs = [] \<or> hd cs < 0x80"
  shows "decode_rune (bs @ cs) = decode_rune bs"
proof -
  have same: "(bs @ cs) ! i = bs ! i" if "i < length bs" for i using that by (simp add: nth_append)
  have pos: "0 < length bs" using assms(1) by simp
  show ?thesis
  proof (cases "lead_byte (bs ! 0)")
    case None
    then show ?thesis using same [OF pos] by (simp add: decode_rune_def Let_def)
  next
    case (Some x)
    obtain w lo hi where x: "lead_byte (bs ! 0) = Some (w, lo, hi)" using Some by (metis prod_cases3)
    note range = lead_byte_range [OF x]
    show ?thesis
    proof (cases "w \<le> length bs")
      case True
      then have "(bs @ cs) ! 0 = bs ! 0" "(bs @ cs) ! 1 = bs ! 1" "3 \<le> w \<Longrightarrow> (bs @ cs) ! 2 = bs ! 2"
        "4 \<le> w \<Longrightarrow> (bs @ cs) ! 3 = bs ! 3"
        using range pos by (auto intro!: same)
      then show ?thesis using True x range by (elim conjE disjE) (simp_all add: decode_rune_def Let_def)
    next
      case False
      then have short: "decode_rune bs = (if bs ! 0 < 0x80 then (bs ! 0, 1) else (runeError, 1))"
        using x by (simp add: decode_rune_def Let_def)
      show ?thesis
      proof (cases "cs = []")
        case nonempty: False
        then have low: "(bs @ cs) ! length bs < 0x80" using assms(2) by (simp add: nth_append hd_conv_nth)
        have "length bs = 1 \<or> length bs = 2 \<or> length bs = 3" using False range pos by linarith
        then have "\<not> (lo \<le> (bs @ cs) ! 1 \<and> (bs @ cs) ! 1 \<le> hi) \<or>
            w \<noteq> 2 \<and> \<not> cont_byte ((bs @ cs) ! 2) \<or> w = 4 \<and> \<not> cont_byte ((bs @ cs) ! 3)"
          using low range False by (elim disjE) (auto simp: cont_byte_def simp del: nth_append_length_plus)
        then have "decode_rune (bs @ cs) = (if bs ! 0 < 0x80 then (bs ! 0, 1) else (runeError, 1))"
          using x range same [OF pos] by (auto simp: decode_rune_def Let_def)
        then show ?thesis by (simp add: short)
      qed simp
    qed
  qed
qed

lemma runes_append: "ascii_start t \<Longrightarrow> runes (s @ t) = runes s @ runes t"
proof (induction s rule: runes.induct)
  case (1 s)
  show ?case
  proof (cases "s = []")
    case False
    obtain r w where d: "decode_rune (map of_char s) = (r, w)" by (rule prod.exhaust)
    have w: "w \<le> length s" using decode_rune_width [of "map of_char s"] d False by simp
    have "decode_rune (map of_char (s @ t)) = (r, w)"
      using decode_rune_append [of "map of_char s" "map of_char t"] d False 1(2)
      by (auto simp: ascii_start_def ascii_def split: list.splits)
    then show ?thesis
      using 1(1) [OF False d [symmetric] 1(2)] False d w
      by (simp add: runes.simps [of "s @ t"] runes.simps [of s])
  qed simp
qed

text \<open>Strings that no continuation can change: ASCII, the glyphs and what is built of them.\<close>

definition solid :: "string \<Rightarrow> bool" where
  "solid s \<longleftrightarrow> (\<forall>t. runes (s @ t) = runes s @ runes t)"

lemma solid_Nil [simp]: "solid []"
  by (simp add: solid_def)

lemma solid_append: "solid s \<Longrightarrow> solid t \<Longrightarrow> solid (s @ t)"
  by (simp add: solid_def)

lemma solid_ascii: "list_all ascii s \<Longrightarrow> solid s"
  using runes_ascii [of s] runes_ascii [of s "[]"] by (simp add: solid_def)

lemma solid_concat: "list_all solid ss \<Longrightarrow> solid (concat ss)"
  by (induction ss) (simp_all add: solid_append)

section \<open>Encoding a rune and reading it back\<close>

lemma low_bits: "b < 64 \<Longrightarrow> (128 + b) mod 64 = (b :: nat)" "a < 16 \<Longrightarrow> (224 + a) mod 16 = (a :: nat)" "a < 8 \<Longrightarrow> (240 + a) mod 8 = (a :: nat)"
  "d < 32 \<Longrightarrow> (192 + d) mod 32 = (d :: nat)"
  by (simp_all add: mod_add_left_eq [symmetric, of 128] mod_add_left_eq [symmetric, of 224]
    mod_add_left_eq [symmetric, of 240] mod_add_left_eq [symmetric, of 192])

lemma cont_byte_low: "b < 64 \<Longrightarrow> cont_byte (128 + b)"
  by (simp add: cont_byte_def)

lemma decode_three_bytes:
  assumes "a < 16" "b < 64" "c < 64" "a = 0 \<Longrightarrow> 32 \<le> b" "a = 13 \<Longrightarrow> b < 32"
  shows "decode_rune ([0xE0 + a, 0x80 + b, 0x80 + c] @ cs) = ((a * 64 + b) * 64 + c, 3)"
proof -
  have "\<exists>lo hi. lead_byte (0xE0 + a) = Some (3, lo, hi) \<and> lo \<le> 0x80 + b \<and> 0x80 + b \<le> hi"
    using assms by (cases "a = 0"; cases "a = 13") (simp_all add: lead_byte_def)
  then obtain lo hi where l: "lead_byte (0xE0 + a) = Some (3, lo, hi)" "lo \<le> 0x80 + b" "0x80 + b \<le> hi" by blast
  show ?thesis unfolding decode_rune_def Let_def
    using assms(1-3) by (simp add: l [simplified] cont_byte_low low_bits del: One_nat_def)
qed

lemma decode_four_bytes:
  assumes "a < 5" "b < 64" "c < 64" "d < 64" "a = 0 \<Longrightarrow> 16 \<le> b" "a = 4 \<Longrightarrow> b < 16"
  shows "decode_rune ([0xF0 + a, 0x80 + b, 0x80 + c, 0x80 + d] @ cs) = (((a * 64 + b) * 64 + c) * 64 + d, 4)"
proof -
  have "\<exists>lo hi. lead_byte (0xF0 + a) = Some (4, lo, hi) \<and> lo \<le> 0x80 + b \<and> 0x80 + b \<le> hi"
    using assms by (cases "a = 0"; cases "a = 4") (simp_all add: lead_byte_def)
  then obtain lo hi where l: "lead_byte (0xF0 + a) = Some (4, lo, hi)" "lo \<le> 0x80 + b" "0x80 + b \<le> hi" by blast
  show ?thesis unfolding decode_rune_def Let_def
    using assms(1-4) by (simp add: l [simplified] cont_byte_low low_bits del: One_nat_def)
qed

lemma split_three: "(r div 4096 * 64 + r div 64 mod 64) * 64 + r mod 64 = (r :: nat)"
proof -
  have "r div 4096 * 64 + r div 64 mod 64 = r div 64"
    using div_mult_mod_eq [of "r div 64" 64] by (simp add: div_mult2_eq [symmetric])
  then show ?thesis by (simp only: div_mult_mod_eq)
qed

lemma split_four: "((r div 262144 * 64 + r div 4096 mod 64) * 64 + r div 64 mod 64) * 64 + r mod 64 = (r :: nat)"
proof -
  have "r div 262144 * 64 + r div 4096 mod 64 = r div 4096"
    using div_mult_mod_eq [of "r div 4096" 64] by (simp add: div_mult2_eq [symmetric])
  then show ?thesis by (simp only: split_three)
qed

lemma of_char_byte: "n < 256 \<Longrightarrow> of_char (byte n) = (n :: nat)"
  by (simp add: byte_def)

definition valid_rune :: "nat \<Rightarrow> nat" where
  "valid_rune r = (if 0x10FFFF < r \<or> (0xD800 \<le> r \<and> r \<le> 0xDFFF) then runeError else r)"

lemma valid_rune_range:
  "valid_rune r \<le> 0x10FFFF" "\<not> (0xD800 \<le> valid_rune r \<and> valid_rune r \<le> 0xDFFF)"
  by (auto simp: valid_rune_def runeError_def)

text \<open>The bytes of each width, and what they decode to.\<close>

lemma decode_two_bytes:
  assumes "2 \<le> a" "a < 32" "b < 64"
  shows "decode_rune ([0xC0 + a, 0x80 + b] @ cs) = (a * 64 + b, 2)"
proof -
  have l: "lead_byte (0xC0 + a) = Some (2, 0x80, 0xBF)" using assms by (simp add: lead_byte_def)
  show ?thesis unfolding decode_rune_def Let_def
    using assms by (simp add: l [simplified] low_bits del: One_nat_def)
qed

lemma decode_two:
  assumes "0x80 \<le> r" "r < (0x800 :: nat)"
  shows "decode_rune ([0xC0 + r div 64, 0x80 + r mod 64] @ cs) = (r, 2)"
proof -
  have "2 \<le> r div 64" "r div 64 < 32" using assms div_le_mono [of 128 r 64] by (simp_all add: less_mult_imp_div_less)
  then show ?thesis by (subst decode_two_bytes) (simp_all only: mod_less_divisor zero_less_numeral div_mult_mod_eq)
qed

text \<open>The ranges of the second byte that keep out overlong forms, surrogates and values past the last rune.\<close>

lemma second_byte_three:
  "(a * 64 + b) * 64 + c = r \<Longrightarrow> c < 64 \<Longrightarrow> (0x800 :: nat) \<le> r \<Longrightarrow> a = 0 \<Longrightarrow> 32 \<le> b"
  "(a * 64 + b) * 64 + c = r \<Longrightarrow> c < 64 \<Longrightarrow> \<not> (0xD800 \<le> r \<and> r \<le> (0xDFFF :: nat)) \<Longrightarrow> b < 64 \<Longrightarrow> a = 13 \<Longrightarrow> b < 32"
  by simp_all

lemma second_byte_four:
  "((a * 64 + b) * 64 + c) * 64 + d = r \<Longrightarrow> c < 64 \<Longrightarrow> d < 64 \<Longrightarrow> (0x10000 :: nat) \<le> r \<Longrightarrow> a = 0 \<Longrightarrow> 16 \<le> b"
  "((a * 64 + b) * 64 + c) * 64 + d = r \<Longrightarrow> c < 64 \<Longrightarrow> d < 64 \<Longrightarrow> r \<le> (0x10FFFF :: nat) \<Longrightarrow> a = 4 \<Longrightarrow> b < 16"
  by simp_all

lemma decode_three:
  assumes "0x800 \<le> r" "r < (0x10000 :: nat)" "\<not> (0xD800 \<le> r \<and> r \<le> 0xDFFF)"
  shows "decode_rune ([0xE0 + r div 4096, 0x80 + r div 64 mod 64, 0x80 + r mod 64] @ cs) = (r, 3)"
proof -
  have small: "r mod 64 < 64" "r div 64 mod 64 < 64" "r div 4096 < 16"
    using assms(2) by (simp_all add: less_mult_imp_div_less)
  show ?thesis
    using decode_three_bytes [OF small(3) small(2) small(1)
        second_byte_three(1) [OF split_three small(1) assms(1)]
        second_byte_three(2) [OF split_three small(1) assms(3) small(2)]]
    by (simp only: split_three)
qed

lemma decode_four:
  assumes "0x10000 \<le> r" "r \<le> (0x10FFFF :: nat)"
  shows "decode_rune ([0xF0 + r div 262144, 0x80 + r div 4096 mod 64, 0x80 + r div 64 mod 64, 0x80 + r mod 64] @ cs) = (r, 4)"
proof -
  have small: "r mod 64 < 64" "r div 64 mod 64 < 64" "r div 4096 mod 64 < 64" "r div 262144 < 5"
    using assms(2) by (simp_all add: less_mult_imp_div_less)
  show ?thesis
    using decode_four_bytes [OF small(4) small(3) small(2) small(1)
        second_byte_four(1) [OF split_four small(2) small(1) assms(1)]
        second_byte_four(2) [OF split_four small(2) small(1) assms(2)]]
    by (simp only: split_four)
qed

lemma runes_step:
  "decode_rune (map of_char (s @ t)) = (r, length s) \<Longrightarrow> s \<noteq> [] \<Longrightarrow> runes (s @ t) = (r, s) # runes t"
  by (simp add: runes.simps [of "s @ t"])

lemma decode_EncodeRune:
  "decode_rune (map of_char (EncodeRune r @ t)) = (valid_rune r, length (EncodeRune r))"
proof -
  let ?r = "valid_rune r"
  have enc: "EncodeRune r =
      (if ?r < 0x80 then [byte ?r]
       else if ?r < 0x800 then [byte (0xC0 + ?r div 64), byte (0x80 + ?r mod 64)]
       else if ?r < 0x10000 then [byte (0xE0 + ?r div 4096), byte (0x80 + ?r div 64 mod 64), byte (0x80 + ?r mod 64)]
       else [byte (0xF0 + ?r div 262144), byte (0x80 + ?r div 4096 mod 64), byte (0x80 + ?r div 64 mod 64),
         byte (0x80 + ?r mod 64)])"
    unfolding EncodeRune_def valid_rune_def Let_def ..
  have tail: "x mod 64 < 128" for x :: nat using mod_less_divisor [of 64 x] by simp
  consider "?r < 0x80" | "0x80 \<le> ?r" "?r < 0x800" | "0x800 \<le> ?r" "?r < 0x10000" | "0x10000 \<le> ?r" by linarith
  then show ?thesis
  proof cases
    case 1
    then show ?thesis unfolding enc by (simp add: of_char_byte decode_rune_def)
  next
    case 2
    have e: "EncodeRune r = [byte (0xC0 + ?r div 64), byte (0x80 + ?r mod 64)]" unfolding enc using 2 by simp
    have "?r div 64 < 32" using 2 by (simp add: less_mult_imp_div_less)
    then have "map of_char (EncodeRune r @ t) = [0xC0 + ?r div 64, 0x80 + ?r mod 64] @ map of_char t"
      unfolding e using tail [of ?r] by (simp add: of_char_byte)
    then show ?thesis unfolding e using decode_two [OF 2] by simp
  next
    case 3
    have e: "EncodeRune r = [byte (0xE0 + ?r div 4096), byte (0x80 + ?r div 64 mod 64), byte (0x80 + ?r mod 64)]"
      unfolding enc using 3 by simp
    have "?r div 4096 < 16" using 3 by (simp add: less_mult_imp_div_less)
    then have "map of_char (EncodeRune r @ t) =
        [0xE0 + ?r div 4096, 0x80 + ?r div 64 mod 64, 0x80 + ?r mod 64] @ map of_char t"
      unfolding e using tail [of ?r] tail [of "?r div 64"] by (simp add: of_char_byte)
    then show ?thesis unfolding e using decode_three [OF 3 valid_rune_range(2)] by simp
  next
    case 4
    have e: "EncodeRune r = [byte (0xF0 + ?r div 262144), byte (0x80 + ?r div 4096 mod 64),
        byte (0x80 + ?r div 64 mod 64), byte (0x80 + ?r mod 64)]" unfolding enc using 4 by simp
    have "?r div 262144 < 5" using valid_rune_range(1) [of r] by (simp add: less_mult_imp_div_less)
    then have "map of_char (EncodeRune r @ t) =
        [0xF0 + ?r div 262144, 0x80 + ?r div 4096 mod 64, 0x80 + ?r div 64 mod 64, 0x80 + ?r mod 64] @ map of_char t"
      unfolding e using tail [of ?r] tail [of "?r div 64"] tail [of "?r div 4096"] by (simp add: of_char_byte)
    then show ?thesis unfolding e using decode_four [OF 4 valid_rune_range(1)] by simp
  qed
qed

lemma runes_EncodeRune: "runes (EncodeRune r @ t) = (valid_rune r, EncodeRune r) # runes t"
  using decode_EncodeRune by (rule runes_step) (simp add: EncodeRune_def Let_def)

lemma runes_EncodeRunes:
  "runes (concat (map EncodeRune rs) @ t) = map (\<lambda>r. (valid_rune r, EncodeRune r)) rs @ runes t"
  by (induction rs) (simp_all add: runes_EncodeRune)

end
