(* ===== verification/Console.thy ===== *)
theory Console
  imports Sinks GoRunes "HOL-Library.Multiset" "HOL-Library.Sublist"
begin

text \<open>
  \<^verbatim>\<open>output/console.go\<close>: the line per alert, its colours, and the banner.  The terminal check is a
  parameter: whether \<^verbatim>\<open>NO_COLOR\<close> is set, and whether the writer is a file and what \<open>Stat\<close> says of it.  So
  is the offset of the time zone in which an alert's clock is printed.
\<close>

section \<open>Styles\<close>

definition ESC :: char where [simp]: "ESC = CHR 0x1B"

definition ansiReset :: string where "ansiReset = ESC # ''[0m''"

definition ansiBold :: string where "ansiBold = ESC # ''[1m''"

definition ansiDim :: string where "ansiDim = ESC # ''[2m''"

definition ansiRed :: string where "ansiRed = ESC # ''[31m''"

definition ansiGreen :: string where "ansiGreen = ESC # ''[32m''"

definition ansiYellow :: string where "ansiYellow = ESC # ''[33m''"

definition ansiBlue :: string where "ansiBlue = ESC # ''[34m''"

definition ansiCyan :: string where "ansiCyan = ESC # ''[36m''"

definition ansiWhite :: string where "ansiWhite = ESC # ''[37m''"

definition ansiBgRed :: string where "ansiBgRed = ESC # ''[41m''"

primrec severityStyle :: "Severity \<Rightarrow> string" where
  "severityStyle SeverityLow = ansiCyan"
| "severityStyle SeverityMedium = ansiYellow"
| "severityStyle SeverityHigh = ansiRed @ ansiBold"
| "severityStyle SeverityCritical = ansiBgRed @ ansiWhite @ ansiBold"

section \<open>The sink\<close>

record console_host =
  ch_NO_COLOR :: bool
  ch_file :: "bool option option"
  ch_zone :: "int \<Rightarrow> int"
  ch_isPrint :: "nat \<Rightarrow> bool"
  ch_write :: "string \<Rightarrow> goerror option"

text \<open>\<open>ch_file\<close> is \<open>None\<close> for a writer that is no file, \<open>Some None\<close> when \<open>Stat\<close> fails, and otherwise whether
  the file is a character device.\<close>

record ConsoleSink =
  cs_color :: bool
  cs_minSeverity :: Severity

definition shouldColor :: "console_host \<Rightarrow> bool" where
  "shouldColor h =
     (if ch_NO_COLOR h then False
      else case ch_file h of
        None \<Rightarrow> False
      | Some None \<Rightarrow> False
      | Some (Some device) \<Rightarrow> device)"

definition NewConsoleSink :: "console_host \<Rightarrow> bool \<Rightarrow> Severity \<Rightarrow> ConsoleSink" where
  "NewConsoleSink h forceColor minSeverity =
     \<lparr>cs_color = forceColor \<or> shouldColor h, cs_minSeverity = minSeverity\<rparr>"

definition indent :: string where
  "indent = replicate 14 CHR '' ''"

text \<open>\<open>keys\<close> is the order in which the map happens to be ranged over.\<close>

definition format_value :: "(nat \<Rightarrow> bool) \<Rightarrow> string \<Rightarrow> string" where
  "format_value isPrint v = (if CHR '' '' \<in> set v \<or> CHR 0x09 \<in> set v then Quote isPrint v else v)"

definition formatArgs :: "(nat \<Rightarrow> bool) \<Rightarrow> args \<Rightarrow> string" where
  "formatArgs isPrint m =
     (if m = [] then []
      else join '' '' (map (\<lambda>k. k @ ''='' @ format_value isPrint (mapget k m)) (sort (map fst m))))"

definition branch_mid :: string where
  "branch_mid = [CHR 0xE2, CHR 0x94, CHR 0x9C, CHR 0xE2, CHR 0x94, CHR 0x80]"

definition branch_end :: string where
  "branch_end = [CHR 0xE2, CHR 0x94, CHR 0x94, CHR 0xE2, CHR 0x94, CHR 0x80]"

definition proc_tag :: "string \<Rightarrow> u32 \<Rightarrow> string" where
  "proc_tag comm pid = comm @ ''['' @ FormatUint pid @ '']''"

definition story_line :: "string \<Rightarrow> string \<Rightarrow> string \<Rightarrow> StoryStep \<Rightarrow> string" where
  "story_line dim reset branch st =
     indent @ branch @ '' '' @ dim @ ''+'' @ pad_right 7 (FormatInt (st_OffsetMS st) @ ''ms'') @ reset @ '' '' @
     pad_right 18 (proc_tag (st_Comm st) (st_PID st)) @ '' '' @ pad_right 32 (st_Tactic st) @ '' '' @
     st_Summary st @ [newline]"

fun story_lines :: "string \<Rightarrow> string \<Rightarrow> StoryStep list \<Rightarrow> string" where
  "story_lines dim reset [] = []"
| "story_lines dim reset (st # sts) =
     story_line dim reset (if sts = [] then branch_end else branch_mid) st @ story_lines dim reset sts"

definition writeExtras :: "Alert \<Rightarrow> string \<Rightarrow> string \<Rightarrow> string" where
  "writeExtras a dim reset =
     (if al_Suppressed a > 0 then
        indent @ dim @ ''(+'' @ FormatUint (al_Suppressed a) @ '' identical alert(s) folded since last shown)'' @
        reset @ [newline]
      else []) @ story_lines dim reset (al_Story a)"

definition console_format :: "console_host \<Rightarrow> ConsoleSink \<Rightarrow> Alert \<Rightarrow> string" where
  "console_format h s a =
    (let sev = Severity_String (al_Severity a); proc = proc_tag (al_Comm a) (al_PID a);
         clock = clock_ms (al_Timestamp a + ch_zone h (al_Timestamp a));
         args = formatArgs (ch_isPrint h) (argsOf [] a)
     in if cs_color s then
          ansiDim @ clock @ ansiReset @ ''  '' @ severityStyle (al_Severity a) @ '' '' @ pad_right 8 sev @ '' '' @
          ansiReset @ ''  '' @ ansiBlue @ pad_right 22 (al_Rule a) @ ansiReset @ '' '' @
          ansiGreen @ pad_right 20 proc @ ansiReset @ '' '' @ ansiDim @ ''uid='' @ FormatUint (al_UID a) @ ansiReset @
          ''  '' @ ansiDim @ al_MitreID a @ ansiReset @ [newline] @
          indent @ al_Description a @ [newline] @
          (if args \<noteq> [] then indent @ ansiDim @ args @ ansiReset @ [newline] else []) @
          writeExtras a ansiDim ansiReset
        else
          clock @ ''  '' @ pad_right 8 sev @ '' '' @ pad_right 22 (al_Rule a) @ '' '' @ pad_right 20 proc @ '' uid='' @
          FormatUint (al_UID a) @ ''  '' @ al_MitreID a @ [newline] @
          indent @ al_Description a @ [newline] @
          (if args \<noteq> [] then indent @ args @ [newline] else []) @
          writeExtras a [] [])"

text \<open>What a write puts on the writer, and its error.\<close>

definition Console_Write :: "console_host \<Rightarrow> ConsoleSink \<Rightarrow> Alert \<Rightarrow> string \<times> goerror option" where
  "Console_Write h s a =
     (if al_Severity a < cs_minSeverity s then ([], None)
      else
        let line = console_format h s a in
        case ch_write h line of
          Some e \<Rightarrow> (line, Some (errorf ''writing alert to console: '' e))
        | None \<Rightarrow> (line, None))"

definition Console_Close :: "ConsoleSink \<Rightarrow> goerror option" where
  "Console_Close s = None"

definition Banner :: "bool \<Rightarrow> string \<Rightarrow> string list \<Rightarrow> string \<Rightarrow> int \<Rightarrow> string" where
  "Banner color version rules alertPath pidFilter =
    (let title = (if color then ansiBold @ ansiCyan @ ''KrnlSentry'' @ ansiReset else ''KrnlSentry'')
     in [newline] @ title @ '' '' @ version @ '' '' @ em_dash @ '' eBPF syscall monitoring and threat detection'' @ [newline] @
        ''  rules   : '' @ join '', '' (sort rules) @ [newline] @
        ''  alerts  : '' @ alertPath @ [newline] @
        (if 0 < pidFilter then ''  scope   : PID '' @ dec (nat pidFilter) @ '' and descendants'' @ [newline]
         else ''  scope   : system-wide'' @ [newline]) @
        ''  stop    : Ctrl+C'' @ [newline, newline])"

section \<open>Arguments\<close>

lemma map_of_order:
  assumes "distinct_keys m" and "mset m' = mset m" shows "map_of m' = map_of m"
proof -
  have "mset (map fst m') = mset (map fst m)" using assms(2) by simp
  then have "distinct_keys m'" using assms(1) mset_eq_imp_distinct_iff by blast
  moreover have "set m' = set m" using assms(2) by (rule mset_eq_setD)
  ultimately have "map_of m' k = Some v \<longleftrightarrow> map_of m k = Some v" for k v
    using assms(1) by (simp add: map_of_eq_Some_iff)
  then show ?thesis by (metis ext not_Some_eq)
qed

lemma formatArgs_order:
  assumes "distinct_keys m" and "mset m' = mset m" shows "formatArgs isPrint m' = formatArgs isPrint m"
proof -
  have "mset (map fst m') = mset (map fst m)" using assms(2) by simp
  then have "sort (map fst m') = sort (map fst m)" by (metis mset_sort properties_for_sort sorted_sort)
  moreover have "mapget k m' = mapget k m" for k using map_of_order [OF assms] by (simp add: mapget_def)
  moreover have "m' = [] \<longleftrightarrow> m = []" using assms(2) by auto
  ultimately show ?thesis by (simp add: formatArgs_def)
qed

text \<open>The console line is a function of the alert: it shows the same text whatever order the argument
  map is ranged over, in colour and without.\<close>

theorem console_deterministic:
  assumes "distinct_keys m" and "mset m' = mset m"
  shows "console_format h s (a\<lparr>al_Args := OwnArgs m'\<rparr>) = console_format h s (a\<lparr>al_Args := OwnArgs m\<rparr>)"
  using formatArgs_order [OF assms, of "ch_isPrint h"]
  by (simp add: console_format_def argsOf_def writeExtras_def Let_def)

lemma sublist_before: "sublist x t \<Longrightarrow> sublist x (s @ t)"
  by (metis append.assoc sublist_def)

lemma sublist_after: "sublist x s \<Longrightarrow> sublist x (s @ t)"
  by (metis append.assoc sublist_def)

lemma sublist_proc: "sublist comm (pad_right n (proc_tag comm pid))"
  by (auto simp: pad_right_def proc_tag_def intro: sublist_after)

lemma sublist_format: "sublist (al_Comm a) (console_format h s a)"
  unfolding console_format_def Let_def
  by (cases "cs_color s"; simp only: if_True if_False; fast intro: sublist_before sublist_after sublist_proc)

text \<open>C37. The console prints the process name as the process chose it: every byte of the name, escape
  sequences and newlines included, reaches the terminal unquoted, for every alert that is shown.\<close>

theorem console_raw_name:
  assumes "cs_minSeverity s \<le> al_Severity a"
  shows "sublist (al_Comm a) (fst (Console_Write h s a))"
  using assms sublist_format [of a h s]
  by (simp add: Console_Write_def not_less [symmetric] Let_def split: option.splits)

text \<open>The name of a process that hides the rest of its line: it moves to the start and erases.\<close>

definition hiding_name :: string where
  "hiding_name = CHR 0x0D # ESC # ''[2K''"

definition plain_console :: console_host where
  "plain_console =
     \<lparr>ch_NO_COLOR = True, ch_file = None, ch_zone = (\<lambda>_. 0), ch_isPrint = (\<lambda>_. True), ch_write = (\<lambda>_. None)\<rparr>"

definition all_sink :: ConsoleSink where
  "all_sink = NewConsoleSink plain_console False SeverityLow"

theorem console_raw_name_witness:
  "cs_minSeverity all_sink \<le> SeverityHigh \<and>
   sublist hiding_name (fst (Console_Write plain_console all_sink (log_alert\<lparr>al_Comm := hiding_name\<rparr>)))"
proof -
  have pre: "cs_minSeverity all_sink \<le> al_Severity (log_alert\<lparr>al_Comm := hiding_name\<rparr>)"
    by (simp add: all_sink_def NewConsoleSink_def log_alert_def less_eq_Severity_def)
  then show ?thesis
    using console_raw_name [OF pre, of plain_console] by (simp add: log_alert_def)
qed

theorem console_deterministic_witness:
  "distinct_keys [(''a'', ''1''), (''b'', ''2'')] \<and>
   console_format plain_console all_sink (log_alert\<lparr>al_Args := OwnArgs [(''b'', ''2''), (''a'', ''1'')]\<rparr>) =
   console_format plain_console all_sink (log_alert\<lparr>al_Args := OwnArgs [(''a'', ''1''), (''b'', ''2'')]\<rparr>)"
  using console_deterministic [of "[(''a'', ''1''), (''b'', ''2'')]" "[(''b'', ''2''), (''a'', ''1'')]"] by simp

end
