(* ===== verification/Layout.thy ===== *)
theory Layout
  imports Complex_Main Console
begin

text \<open>
  The layout helpers of \<^verbatim>\<open>output/dashboard.go\<close>: measuring, padding, cutting and wrapping text by printable
  columns, the dividers and the columns of the alert feed.  A width is Go's \<open>int\<close>, here an \<open>int\<close>
  without bounds (terminal sizes are far below them); \<open>strings.Repeat\<close> of a negative count would be a
  panic, and every count below is shown or clamped to be non-negative where it is used.
\<close>

section \<open>Glyphs\<close>

definition hline :: string where "hline = [CHR 0xE2, CHR 0x94, CHR 0x80]"

definition full_block :: string where "full_block = [CHR 0xE2, CHR 0x96, CHR 0x88]"

definition light_shade :: string where "light_shade = [CHR 0xE2, CHR 0x96, CHR 0x91]"

definition ellipsis :: string where "ellipsis = [CHR 0xE2, CHR 0x80, CHR 0xA6]"

definition middle_dot :: string where "middle_dot = [CHR 0xC2, CHR 0xB7]"

definition bullet :: string where "bullet = [CHR 0xE2, CHR 0x97, CHR 0x8F]"

definition times_sign :: string where "times_sign = [CHR 0xC3, CHR 0x97]"

definition corner_tl :: string where "corner_tl = [CHR 0xE2, CHR 0x95, CHR 0xAD]"

definition corner_tr :: string where "corner_tr = [CHR 0xE2, CHR 0x95, CHR 0xAE]"

definition corner_bl :: string where "corner_bl = [CHR 0xE2, CHR 0x95, CHR 0xB0]"

definition corner_br :: string where "corner_br = [CHR 0xE2, CHR 0x95, CHR 0xAF]"

definition Repeat :: "string \<Rightarrow> int \<Rightarrow> string" where
  "Repeat s n = concat (replicate (nat n) s)"

section \<open>Measuring\<close>

datatype escape_state = Text | AfterESC | InCSI | AfterIntermediate

text \<open>One rune of \<open>visibleLen\<close>: the next state, and whether the rune is printed.\<close>

definition escape_step :: "escape_state \<Rightarrow> nat \<Rightarrow> escape_state \<times> bool" where
  "escape_step state r =
     (case state of
        Text \<Rightarrow> if r = 0x1B then (AfterESC, False) else (Text, True)
      | AfterESC \<Rightarrow>
          if r = 0x5B then (InCSI, False)
          else if 0x20 \<le> r \<and> r \<le> 0x2F then (AfterIntermediate, False)
          else (Text, False)
      | AfterIntermediate \<Rightarrow> (Text, False)
      | InCSI \<Rightarrow> if 0x40 \<le> r \<and> r \<le> 0x7E then (Text, False) else (InCSI, False))"

fun visible_from :: "escape_state \<Rightarrow> nat list \<Rightarrow> nat" where
  "visible_from state [] = 0"
| "visible_from state (r # rs) =
     (case escape_step state r of (state, printed) \<Rightarrow> (if printed then 1 else 0) + visible_from state rs)"

definition visibleLen :: "string \<Rightarrow> int" where
  "visibleLen s = int (visible_from Text (map fst (runes s)))"

definition padVisible :: "string \<Rightarrow> int \<Rightarrow> string" where
  "padVisible s w = (if visibleLen s < w then s @ Repeat '' '' (w - visibleLen s) else s)"

definition truncate_to :: "string \<Rightarrow> int \<Rightarrow> string" where
  "truncate_to s w =
     (if w \<le> 0 then []
      else let rs = map fst (runes s) in
           if int (length rs) \<le> w then s
           else if w = 1 then ellipsis
           else concat (map EncodeRune (take (nat (w - 1)) rs)) @ ellipsis)"

definition maxInt :: "int \<Rightarrow> int \<Rightarrow> int" where
  "maxInt a b = (if a > b then a else b)"

section \<open>Numbers\<close>

text \<open>\<open>formatCount\<close>: the parts are collected from the right, then joined by a thin gap.\<close>

function count_parts :: "string \<Rightarrow> string list \<Rightarrow> string list" where
  "count_parts s parts =
     (if 3 < length s then count_parts (take (length s - 3) s) (drop (length s - 3) s # parts)
      else s # parts)"
  by pat_completeness auto
termination by (relation "measure (length \<circ> fst)") auto

declare count_parts.simps [simp del]

definition formatCount :: "u64 \<Rightarrow> string" where
  "formatCount n =
     (let s = FormatUint n in if length s \<le> 4 then s else join '' '' (count_parts s []))"

definition two_digits :: "nat \<Rightarrow> string" where
  "two_digits n = (if n < 10 then CHR ''0'' # dec n else dec n)"

text \<open>Floating point: \<open>rnd\<close> rounds a real to the nearest \<open>float64\<close>.  \<open>Seconds\<close> adds the whole seconds and the
  fraction as floats.\<close>

definition formatDuration :: "(real \<Rightarrow> real) \<Rightarrow> int \<Rightarrow> string" where
  "formatDuration rnd d =
     (let d = (if d < 0 then 0 else d);
          secs = rnd (rnd (of_int (d div 1000000000)) + rnd (rnd (of_int (d mod 1000000000)) / 1000000000));
          total = nat \<lfloor>secs\<rfloor>; h = total div 3600; m = total div 60 mod 60; s = total mod 60
      in if 0 < h then dec h @ '':'' @ two_digits m @ '':'' @ two_digits s
         else two_digits m @ '':'' @ two_digits s)"

definition bar :: "(real \<Rightarrow> real) \<Rightarrow> u64 \<Rightarrow> u64 \<Rightarrow> int \<Rightarrow> string" where
  "bar rnd n most w =
     (if most = 0 \<or> n = 0 then []
      else
        let filled = \<lfloor>rnd (rnd (rnd (real (unat n)) / rnd (real (unat most))) * rnd (of_int w))\<rfloor>;
            filled = (if filled < 1 then 1 else filled);
            filled = (if filled > w then w else filled)
        in Repeat full_block filled)"

definition meter :: "(real \<Rightarrow> real) \<Rightarrow> real \<Rightarrow> int \<Rightarrow> string" where
  "meter rnd part w =
     (let part = (if part < 0 then 0 else part);
          part = (if part > 1 then 1 else part);
          filled = \<lfloor>rnd (part * rnd (of_int w))\<rfloor>
      in Repeat full_block filled @ Repeat light_shade (w - filled))"

section \<open>Styled text\<close>

text \<open>Whether the display is in colour is the only option these need.\<close>

definition color :: "bool \<Rightarrow> string \<Rightarrow> string \<Rightarrow> string" where
  "color on style s = (if \<not> on \<or> style = [] then s else style @ s @ ansiReset)"

definition styleIf :: "bool \<Rightarrow> string \<Rightarrow> string" where
  "styleIf cond style = (if cond then style else [])"

definition divider :: "bool \<Rightarrow> string \<Rightarrow> string \<Rightarrow> int \<Rightarrow> string \<Rightarrow> string \<Rightarrow> string \<Rightarrow> string" where
  "divider on leftCap rightCap w left right style =
    (let start = color on ansiDim (leftCap @ hline);
         (label, used) = (if left \<noteq> [] then ('' '' @ color on style left @ '' '', 2 + (visibleLen left + 2)) else ([], 2));
         tail = (if right \<noteq> [] then '' '' @ right @ '' '' else []);
         fill = w - used - visibleLen tail - 1;
         fill = (if fill < 1 then 1 else fill)
     in start @ label @ color on ansiDim (Repeat hline fill) @
        (if tail \<noteq> [] then color on ansiDim tail else []) @ color on ansiDim rightCap)"

definition heading :: "bool \<Rightarrow> string \<Rightarrow> int \<Rightarrow> string" where
  "heading on label w =
     (let pad = w - visibleLen label - 3; pad = (if pad < 1 then 1 else pad)
      in ''  '' @ color on ansiBold label @ '' '' @ color on ansiDim (Repeat hline pad))"

definition heading2 :: "bool \<Rightarrow> string \<Rightarrow> string \<Rightarrow> int \<Rightarrow> string" where
  "heading2 on left right w =
     (let half = w div 2;
          l = ''  '' @ color on ansiBold left @ '' '' @
              color on ansiDim (Repeat hline (maxInt 1 (half - visibleLen left - 3)));
          r = color on ansiBold right @ '' '' @
              color on ansiDim (Repeat hline (maxInt 1 (w - half - visibleLen right - 3)))
      in l @ ''  '' @ r)"

section \<open>Wrapping\<close>

text \<open>The loop of \<open>wrapChips\<close>; the flag is whether this is the first chip.\<close>

fun wrap_loop :: "(string \<times> int) list \<Rightarrow> int \<Rightarrow> string \<Rightarrow> string \<Rightarrow> bool \<Rightarrow> int \<Rightarrow> string" where
  "wrap_loop [] w ind sep start used = []"
| "wrap_loop ((chip, cols) # cs) w ind sep start used =
     (if start then ind @ chip @ wrap_loop cs w ind sep False (int (length ind) + cols)
      else if used + int (length sep) + cols > w then
        newline # ind @ chip @ wrap_loop cs w ind sep False (int (length ind) + cols)
      else sep @ chip @ wrap_loop cs w ind sep False (used + int (length sep) + cols))"

definition wrapChips :: "(string \<times> int) list \<Rightarrow> int \<Rightarrow> string \<Rightarrow> string \<Rightarrow> string" where
  "wrapChips chips w ind sep = wrap_loop chips w ind sep True 0 @ [newline]"

section \<open>The columns of the alert feed\<close>

record columns =
  cl_rule :: int
  cl_proc :: int
  cl_mitre :: int
  cl_desc :: int

definition minDescCols :: int where [simp]: "minDescCols = 12"

definition minNameCols :: int where [simp]: "minNameCols = 10"

definition row_overhead :: int where [simp]: "row_overhead = 3 + 12 + 1 + 10 + 1 + 1 + 1"

definition avail :: "int \<Rightarrow> int \<Rightarrow> int \<Rightarrow> int \<Rightarrow> int" where
  "avail w r p m = w - row_overhead - r - p - (if m > 0 then m + 1 else 0)"

function shrink_rule :: "int \<Rightarrow> int \<Rightarrow> int \<Rightarrow> int \<Rightarrow> int" where
  "shrink_rule w r p m = (if avail w r p m < minDescCols \<and> r > minNameCols then shrink_rule w (r - 1) p m else r)"
  by pat_completeness auto
termination by (relation "measure (\<lambda>(w, r, p, m). nat r)") auto

function shrink_proc :: "int \<Rightarrow> int \<Rightarrow> int \<Rightarrow> int \<Rightarrow> int" where
  "shrink_proc w r p m = (if avail w r p m < minDescCols \<and> p > minNameCols then shrink_proc w r (p - 1) m else p)"
  by pat_completeness auto
termination by (relation "measure (\<lambda>(w, r, p, m). nat p)") auto

declare shrink_rule.simps [simp del] shrink_proc.simps [simp del]

definition alertColumns :: "int \<Rightarrow> columns" where
  "alertColumns w =
     (let m = (if avail w 21 18 10 < minDescCols then 0 else 10);
          r = shrink_rule w 21 18 m;
          p = shrink_proc w r 18 m;
          d = avail w r p m
      in \<lparr>cl_rule = r, cl_proc = p, cl_mitre = m, cl_desc = (if d < 0 then 0 else d)\<rparr>)"

end
