(* ===== verification/Dashboard.thy ===== *)
theory Dashboard
  imports Layout Storyline "HOL-Library.Product_Lexorder"
begin

text \<open>
  \<^verbatim>\<open>output/dashboard.go\<close> and \<^verbatim>\<open>term.go\<close>: the state of the full-screen display, what an alert does to it,
  the panels, the fitting of a frame to the terminal, painting and closing.  Other goroutines write
  alerts between two attempts to fit a frame, so every attempt reads a \<open>view\<close> of its own: the dashboard
  as the lock gives it, the clock and the metrics of that moment.  The size of the terminal and the two
  environment variables are a \<open>terminal\<close>, what the writer answers is an argument.
\<close>

section \<open>State\<close>

record procKey =
  pk_Comm :: string
  pk_PID :: u32

record Metrics =
  me_Observed :: u64
  me_QueueDropped :: u64
  me_KernelEvents :: u64
  me_KernelDrops :: u64
  me_WriteErrors :: u64
  me_TrackedProcs :: nat
  me_Storylines :: nat
  me_AttackChains :: u64
  me_Suppressed :: u64
  me_Progress :: real

record DashboardOptions =
  do_Version :: string
  do_Mode :: string
  do_Scope :: string
  do_Source :: string
  do_AlertPath :: string
  do_Rules :: "string list"
  do_MinSeverity :: Severity
  do_Color :: bool
  do_Width :: int
  do_Height :: int
  do_Refresh :: int

record Dashboard =
  da_opts :: DashboardOptions
  da_started :: int
  da_painted :: bool
  da_closed :: bool
  da_running :: bool
  da_total :: u64
  da_bySeverity :: "(Severity, u64) gomap"
  da_byRule :: "(string, u64) gomap"
  da_byTactic :: "(string, u64) gomap"
  da_byProcess :: "(procKey, u64) gomap"
  da_recent :: "Alert list"
  da_lastChain :: "Alert option"

text \<open>\<open>da_running\<close> is whether \<open>Start\<close> has launched the goroutine that closes \<open>done\<close>.\<close>

definition defaultRefresh :: int where [simp]: "defaultRefresh = 250000000"
definition minWidth :: int where [simp]: "minWidth = 76"
definition maxWidth :: int where [simp]: "maxWidth = 160"
definition recentCap :: nat where [simp]: "recentCap = 64"
definition maxRecentRows :: nat where [simp]: "maxRecentRows = 12"
definition minRecentRows :: nat where [simp]: "minRecentRows = 3"
definition maxStoryRows :: nat where [simp]: "maxStoryRows = 8"
definition minStoryRows :: nat where [simp]: "minStoryRows = 2"
definition maxProcRows :: nat where [simp]: "maxProcRows = 6"
definition MinUsableHeight :: int where [simp]: "MinUsableHeight = 24"

definition NewDashboard :: "DashboardOptions \<Rightarrow> int \<Rightarrow> Dashboard" where
  "NewDashboard opts now =
     (let opts = (if do_Refresh opts \<le> 0 then opts\<lparr>do_Refresh := defaultRefresh\<rparr> else opts);
          opts = (if do_Mode opts = [] then opts\<lparr>do_Mode := ''live''\<rparr> else opts)
      in \<lparr>da_opts = opts, da_started = now, da_painted = False, da_closed = False, da_running = False,
          da_total = 0, da_bySeverity = [], da_byRule = [], da_byTactic = [], da_byProcess = [],
          da_recent = [], da_lastChain = None\<rparr>)"

section \<open>Write\<close>

definition tally :: "'k \<Rightarrow> ('k, u64) gomap \<Rightarrow> u64" where
  "tally k m = (case map_of m k of None \<Rightarrow> 0 | Some n \<Rightarrow> n)"

definition bump :: "'k \<Rightarrow> ('k, u64) gomap \<Rightarrow> ('k, u64) gomap" where
  "bump k m = mapset k (tally k m + 1) m"

definition push_recent :: "Alert \<Rightarrow> Alert list \<Rightarrow> Alert list" where
  "push_recent a as =
     (let as = as @ [a] in if recentCap < length as then drop (length as - recentCap) as else as)"

definition Dashboard_record :: "Dashboard \<Rightarrow> Alert \<Rightarrow> Dashboard" where
  "Dashboard_record d a =
     d\<lparr>da_total := da_total d + 1,
       da_bySeverity := bump (al_Severity a) (da_bySeverity d),
       da_byRule := bump (al_Rule a) (da_byRule d),
       da_byProcess := bump \<lparr>pk_Comm = al_Comm a, pk_PID = al_PID a\<rparr> (da_byProcess d),
       da_byTactic := fold (\<lambda>t. bump (tac_Name t)) (TacticsFor a) (da_byTactic d),
       da_lastChain := (if al_Story a \<noteq> [] then Some a else da_lastChain d),
       da_recent := push_recent a (da_recent d)\<rparr>"

definition Dashboard_Write :: "Dashboard \<Rightarrow> Alert option \<Rightarrow> Dashboard \<times> goerror option" where
  "Dashboard_Write d a = (case a of None \<Rightarrow> (d, None) | Some a \<Rightarrow> (Dashboard_record d a, None))"

section \<open>The terminal\<close>

record terminal =
  tm_cols :: int
  tm_rows :: int
  tm_COLUMNS :: string
  tm_LINES :: string

text \<open>\<open>strconv.Atoi\<close>, with an error as \<open>None\<close>.\<close>

definition Atoi :: "string \<Rightarrow> int option" where
  "Atoi s =
     (let (neg, ds) = (case s of [] \<Rightarrow> (False, []) | c # cs \<Rightarrow>
             if c = CHR ''-'' then (True, cs) else if c = CHR ''+'' then (False, cs) else (False, s))
      in if ds = [] \<or> \<not> list_all (\<lambda>c. c \<in> set ''0123456789'') ds then None
         else let n = int (digits_val 10 ds); n = (if neg then - n else n)
              in if - (2 ^ 63) \<le> n \<and> n < 2 ^ 63 then Some n else None)"

definition fallbackCols :: int where [simp]: "fallbackCols = 100"
definition fallbackRows :: int where [simp]: "fallbackRows = 30"

definition terminalWidth :: "terminal \<Rightarrow> int" where
  "terminalWidth t =
     (if tm_cols t > 0 then tm_cols t
      else case Atoi (tm_COLUMNS t) of
        Some n \<Rightarrow> if n > 0 then n else fallbackCols
      | None \<Rightarrow> fallbackCols)"

definition terminalHeight :: "terminal \<Rightarrow> int" where
  "terminalHeight t =
     (if tm_rows t > 0 then tm_rows t
      else case Atoi (tm_LINES t) of
        Some n \<Rightarrow> if n > 0 then n else fallbackRows
      | None \<Rightarrow> fallbackRows)"

definition frame_width :: "DashboardOptions \<Rightarrow> terminal \<Rightarrow> int" where
  "frame_width opts t =
     (let w = do_Width opts;
          w = (if w \<le> 0 then terminalWidth t else w);
          w = (if w < minWidth then minWidth else w);
          w = (if w > maxWidth then maxWidth else w)
      in w)"

section \<open>Panels\<close>

text \<open>What a panel reads besides the dashboard: the clock, the metrics (\<open>None\<close> without a hook), the time
  zone and the rounding of \<open>float64\<close>.\<close>

record moment =
  mo_now :: int
  mo_metrics :: "Metrics option"
  mo_zone :: "int \<Rightarrow> int"
  mo_round :: "real \<Rightarrow> real"

definition no_metrics :: Metrics where
  "no_metrics =
     \<lparr>me_Observed = 0, me_QueueDropped = 0, me_KernelEvents = 0, me_KernelDrops = 0, me_WriteErrors = 0,
      me_TrackedProcs = 0, me_Storylines = 0, me_AttackChains = 0, me_Suppressed = 0, me_Progress = 0\<rparr>"

definition line :: "string \<Rightarrow> string" where [simp]: "line s = s @ [newline]"

definition upper_char :: "char \<Rightarrow> char" where
  "upper_char c = (let n = of_char c :: nat in if 97 \<le> n \<and> n \<le> 122 then char_of (n - 32) else c)"

text \<open>\<open>strings.ToUpper\<close> where the program looks: ASCII letters, and the two other runes whose upper case is
  ASCII, the dotless i and the long s.  It compares the result with ASCII names or prints a text that is
  ASCII.\<close>

fun ToUpper :: "string \<Rightarrow> string" where
  "ToUpper [] = []"
| "ToUpper [c] = [upper_char c]"
| "ToUpper (c # d # s) =
     (if c = CHR 0xC4 \<and> d = CHR 0xB1 then CHR ''I'' # ToUpper s
      else if c = CHR 0xC5 \<and> d = CHR 0xBF then CHR ''S'' # ToUpper s
      else upper_char c # ToUpper (d # s))"

definition pad_left :: "nat \<Rightarrow> string \<Rightarrow> string" where
  "pad_left n s = replicate (n - length s) CHR '' '' @ s"

record statCell =
  sc_label :: string
  sc_value :: string
  sc_style :: string

definition cell :: "string \<Rightarrow> string \<Rightarrow> string \<Rightarrow> statCell" where
  "cell l v s = \<lparr>sc_label = l, sc_value = v, sc_style = s\<rparr>"

definition statLine :: "bool \<Rightarrow> statCell list \<Rightarrow> string" where
  "statLine on cells =
     '' '' @ concat (map (\<lambda>c. ''  '' @ color on ansiDim (sc_label c) @ '' '' @ color on (sc_style c) (sc_value c)) cells)"

definition between_dots :: string where
  "between_dots = '' '' @ middle_dot @ '' ''"

definition header_stats :: "Dashboard \<Rightarrow> Metrics \<Rightarrow> statCell list" where
  "header_stats d m =
     (let drops = me_QueueDropped m + me_KernelDrops m in
      [cell ''events'' (formatCount (me_Observed m)) [],
       cell ''alerts'' (formatCount (da_total d)) (styleIf (da_total d > 0) ansiBold),
       cell ''folded'' (formatCount (me_Suppressed m)) [],
       cell ''tracked'' (formatCount (of_nat (me_TrackedProcs m))) [],
       cell ''drops'' (formatCount drops) (styleIf (drops > 0) (ansiRed @ ansiBold))] @
      (if me_WriteErrors m > 0 then [cell ''write errors'' (formatCount (me_WriteErrors m)) ansiRed] else []))"

definition renderHeader :: "Dashboard \<Rightarrow> moment \<Rightarrow> int \<Rightarrow> Metrics \<Rightarrow> string" where
  "renderHeader d mo w m =
    (let opts = da_opts d; on = do_Color opts; rnd = mo_round mo;
         left = ''KrnlSentry '' @ do_Version opts @ between_dots @ ToUpper (do_Mode opts) @ between_dots @ do_Scope opts;
         left = (if do_Source opts \<noteq> [] then left @ between_dots @ do_Source opts else left);
         uptime = formatDuration rnd (mo_now mo - da_started d)
     in line (divider on corner_tl corner_tr w left uptime (ansiBold @ ansiCyan)) @
        line (statLine on (header_stats d m)) @
        (if me_Progress m \<ge> 0 then
           let pct = \<lfloor>rnd (me_Progress m * 100)\<rfloor>; barW = w - 22; barW = (if barW < 10 then 10 else barW)
           in line (''  replay   '' @ color on ansiCyan (meter rnd (me_Progress m) barW) @ '' '' @
                    pad_left 3 (dec (nat pct)) @ ''%'')
         else []) @
        line (divider on corner_bl corner_br w [] [] ansiDim))"


text \<open>The rows of two panels next to each other.\<close>

fun side_by_side :: "int \<Rightarrow> string list \<Rightarrow> string list \<Rightarrow> string" where
  "side_by_side w [] [] = []"
| "side_by_side w (l # ls) [] = line (''  '' @ padVisible l (w div 2 - 2) @ ''  '') @ side_by_side w ls []"
| "side_by_side w [] (r # rs) = line (''  '' @ padVisible [] (w div 2 - 2) @ ''  '' @ r) @ side_by_side w [] rs"
| "side_by_side w (l # ls) (r # rs) =
     line (''  '' @ padVisible l (w div 2 - 2) @ ''  '' @ r) @ side_by_side w ls rs"

definition severity_order :: "Severity list" where
  "severity_order = [SeverityCritical, SeverityHigh, SeverityMedium, SeverityLow]"

primrec barStyle :: "Severity \<Rightarrow> string" where
  "barStyle SeverityCritical = ansiRed @ ansiBold"
| "barStyle SeverityHigh = ansiRed"
| "barStyle SeverityMedium = ansiYellow"
| "barStyle SeverityLow = ansiCyan"

definition most_alerts :: "Dashboard \<Rightarrow> u64" where
  "most_alerts d =
     fold (\<lambda>s most. if tally s (da_bySeverity d) > most then tally s (da_bySeverity d) else most) severity_order 0"

definition severityRows :: "Dashboard \<Rightarrow> (real \<Rightarrow> real) \<Rightarrow> int \<Rightarrow> string list" where
  "severityRows d rnd w =
    (let on = do_Color (da_opts d); barW = w - 16; barW = (if barW < 8 then 8 else barW)
     in map (\<lambda>s.
          let n = tally s (da_bySeverity d);
              style = (if s = SeverityCritical \<and> n = 0 then ansiDim else severityStyle s)
          in color on style (padVisible (Severity_String s) 8) @ '' '' @
             color on (barStyle s) (padVisible (bar rnd n (most_alerts d) barW) barW) @ '' '' @
             padVisible (formatCount n) 5) severity_order)"

definition contains :: "string list \<Rightarrow> string \<Rightarrow> bool" where
  "contains haystack needle = list_ex (\<lambda>s. s = needle) haystack"

definition rule_names :: "Dashboard \<Rightarrow> string list" where
  "rule_names d =
    (let fired = map fst (da_byRule d);
         names = (if do_Rules (da_opts d) = [] then sort fired else do_Rules (da_opts d))
     in fold (\<lambda>name names. if contains names name then names else names @ [name]) fired names)"

definition ruleRows :: "Dashboard \<Rightarrow> int \<Rightarrow> string list" where
  "ruleRows d w =
    (let on = do_Color (da_opts d)
     in map (\<lambda>name.
          let n = tally name (da_byRule d); style = (if n > 0 then ansiBlue else ansiDim)
          in color on style (padVisible (truncate_to name (w - 7)) (w - 7)) @ '' '' @ padVisible (formatCount n) 5)
        (rule_names d))"

definition renderSeverityAndRules :: "Dashboard \<Rightarrow> moment \<Rightarrow> int \<Rightarrow> string" where
  "renderSeverityAndRules d mo w =
     line (heading2 (do_Color (da_opts d)) ''SEVERITY'' ''RULES'' w) @
     side_by_side w (severityRows d (mo_round mo) (w div 2 - 2)) (ruleRows d (w - w div 2 - 2))"

definition panel_tactics :: "Tactic list" where
  "panel_tactics =
     [TacticExecution, TacticPrivEsc, TacticDefenseEvasion, TacticCredentialAccess, TacticCommandControl]"

text \<open>A chip and the width \<open>wrapChips\<close> is told it has, \<open>len\<close> of its label in bytes.\<close>

definition tactic_chip :: "Dashboard \<Rightarrow> Tactic \<Rightarrow> string \<times> int" where
  "tactic_chip d t =
    (let n = tally (tac_Name t) (da_byTactic d);
         (mark, style) = (if n > 0 then (bullet, ansiYellow @ ansiBold) else (middle_dot, ansiDim));
         label = mark @ '' '' @ tac_Name t
     in (color (do_Color (da_opts d)) style label, int (length label)))"

definition renderTactics :: "Dashboard \<Rightarrow> int \<Rightarrow> string" where
  "renderTactics d w =
     line (heading (do_Color (da_opts d)) ''ATT&CK TACTICS'' w) @
     wrapChips (map (tactic_chip d) panel_tactics) (w - 4) ''   '' ''   ''"

text \<open>The processes with the most alerts.  \<open>sort.Slice\<close> sorts the entries in the order the map was ranged
  over; an order of equal entries it leaves open is an order of the map.\<close>

definition top_processes :: "Dashboard \<Rightarrow> (procKey \<times> u64) list" where
  "top_processes d =
     take maxProcRows (sort_key (\<lambda>(k, n). (- int (unat n), unat (pk_PID k))) (da_byProcess d))"

definition process_chip :: "bool \<Rightarrow> procKey \<times> u64 \<Rightarrow> string \<times> int" where
  "process_chip on e =
    (case e of (k, n) \<Rightarrow>
      let proc = proc_tag (pk_Comm k) (pk_PID k); times = times_sign @ FormatUint n
      in (color on ansiGreen proc @ '' '' @ color on ansiDim times, int (length (proc @ '' '' @ times))))"

definition renderProcesses :: "Dashboard \<Rightarrow> int \<Rightarrow> string" where
  "renderProcesses d w =
     (if da_byProcess d = [] then []
      else
        line (heading (do_Color (da_opts d)) ''TOP PROCESSES'' w) @
        wrapChips (map (process_chip (do_Color (da_opts d))) (top_processes d)) (w - 4) ''   '' ''   '')"


definition chain_heading :: "Metrics \<Rightarrow> string" where
  "chain_heading m =
     ''ATTACK CHAIN   open storylines '' @ dec (me_Storylines m) @ ''   chains raised '' @ FormatUint (me_AttackChains m)"

text \<open>The steps that are shown, and how many are left out: the opening of the story is kept.\<close>

definition shown_steps :: "nat \<Rightarrow> StoryStep list \<Rightarrow> StoryStep list \<times> nat" where
  "shown_steps rows steps =
     (if rows < length steps then (take (rows - 1) steps, length steps - (rows - 1)) else (steps, 0))"

definition step_row :: "bool \<Rightarrow> int \<Rightarrow> string \<Rightarrow> StoryStep \<Rightarrow> string" where
  "step_row on w branch st =
     ''   '' @ color on ansiDim branch @ '' '' @
     color on ansiDim (padVisible (''+'' @ FormatInt (st_OffsetMS st) @ ''ms'') 9) @ '' '' @
     color on ansiGreen (padVisible (truncate_to (proc_tag (st_Comm st) (st_PID st)) 16) 16) @ '' '' @
     color on ansiYellow (padVisible (truncate_to (st_Tactic st) 30) 30) @ '' '' @
     color on ansiDim (truncate_to (st_Summary st) (maxInt 10 (w - 66)))"

fun step_rows :: "bool \<Rightarrow> int \<Rightarrow> nat \<Rightarrow> StoryStep list \<Rightarrow> string" where
  "step_rows on w dropped [] = []"
| "step_rows on w dropped (st # sts) =
     line (step_row on w (if sts = [] \<and> dropped = 0 then branch_end else branch_mid) st) @
     step_rows on w dropped sts"

definition renderStoryline :: "Dashboard \<Rightarrow> int \<Rightarrow> Metrics \<Rightarrow> nat \<Rightarrow> string" where
  "renderStoryline d w m rows =
    (let opts = da_opts d; on = do_Color opts
     in line (heading on (chain_heading m) w) @
        (case da_lastChain d of
           None \<Rightarrow>
             line (color on ansiDim (''   no multi-tactic chain yet '' @ em_dash @
               '' alerts are being correlated by process tree''))
         | Some a \<Rightarrow>
             (case shown_steps rows (al_Story a) of (steps, dropped) \<Rightarrow>
               line (''   '' @ color on (ansiBgRed @ ansiWhite @ ansiBold) '' CRITICAL '' @ '' '' @
                 truncate_to (al_Description a) (w - 16)) @
               step_rows on w dropped steps @
               (if 0 < dropped then
                  line (''   '' @ color on ansiDim branch_end @ '' '' @
                    color on ansiDim (ellipsis @ '' '' @ dec dropped @ '' more step(s) '' @ em_dash @
                      '' full story in '' @ do_AlertPath opts))
                else []))))"

definition recent_heading :: "Dashboard \<Rightarrow> string" where
  "recent_heading d =
     ''RECENT ALERTS   '' @ FormatUint (da_total d) @ '' total'' @
     (if do_MinSeverity (da_opts d) > SeverityLow
      then ''   showing '' @ Severity_String (do_MinSeverity (da_opts d)) @ '' and above'' else [])"

definition alert_row :: "bool \<Rightarrow> (int \<Rightarrow> int) \<Rightarrow> columns \<Rightarrow> Alert \<Rightarrow> string" where
  "alert_row on zone cols a =
    (let proc = truncate_to (proc_tag (al_Comm a) (al_PID a)) (cl_proc cols);
         desc = (if al_Suppressed a > 0
                 then ''(+'' @ FormatUint (al_Suppressed a) @ '' folded) '' @ al_Description a else al_Description a)
     in ''   '' @ color on ansiDim (clock_ms (al_Timestamp a + zone (al_Timestamp a))) @ '' '' @
        color on (severityStyle (al_Severity a)) (padVisible ('' '' @ Severity_String (al_Severity a) @ '' '') 10) @ '' '' @
        color on ansiBlue (padVisible (truncate_to (al_Rule a) (cl_rule cols)) (cl_rule cols)) @ '' '' @
        color on ansiGreen (padVisible proc (cl_proc cols)) @ '' '' @
        (if cl_mitre cols > 0 then
           color on ansiDim (padVisible (truncate_to (al_MitreID a) (cl_mitre cols)) (cl_mitre cols)) @ '' ''
         else []) @
        truncate_to desc (cl_desc cols))"

text \<open>The feed, newest first: the alerts are walked from the newest until enough are shown.\<close>

fun feed :: "Severity \<Rightarrow> nat \<Rightarrow> Alert list \<Rightarrow> Alert list" where
  "feed least rows [] = []"
| "feed least rows (a # as) =
     (if rows = 0 then []
      else if al_Severity a < least then feed least rows as
      else a # feed least (rows - 1) as)"

definition renderRecent :: "Dashboard \<Rightarrow> moment \<Rightarrow> int \<Rightarrow> nat \<Rightarrow> string" where
  "renderRecent d mo w rows =
    (let opts = da_opts d; on = do_Color opts
     in line (heading on (recent_heading d) w) @
        (if da_recent d = [] then line (color on ansiDim (''   watching '' @ em_dash @ '' no alerts yet''))
         else concat (map (\<lambda>a. line (alert_row on (mo_zone mo) (alertColumns w) a))
                (feed (do_MinSeverity opts) rows (rev (da_recent d))))))"

definition renderFooter :: "Dashboard \<Rightarrow> int \<Rightarrow> Metrics \<Rightarrow> string" where
  "renderFooter d w m =
    (let opts = da_opts d;
         right = (if do_Mode opts = ''replay'' \<and> me_Progress m \<ge> 1 then ''replay complete'' else ''Ctrl+C to stop'')
     in line (divider (do_Color opts) corner_bl corner_br w (''alerts '' @ rarrow @ '' '' @ do_AlertPath opts) right ansiDim))"

section \<open>The frame\<close>

record layout =
  ly_storyRows :: nat
  ly_recentRows :: nat
  ly_showTactics :: bool
  ly_showProcesses :: bool

definition render_frame :: "terminal \<Rightarrow> Dashboard \<times> moment \<Rightarrow> layout \<Rightarrow> string" where
  "render_frame t view lay =
    (case view of (d, mo) \<Rightarrow>
      let m = (case mo_metrics mo of None \<Rightarrow> no_metrics | Some m \<Rightarrow> m);
          w = frame_width (da_opts d) t
      in renderHeader d mo w m @ [newline] @
         renderSeverityAndRules d mo w @ [newline] @
         (if ly_showTactics lay then renderTactics d w else []) @
         (if ly_showProcesses lay then (if ly_showTactics lay then [newline] else []) @ renderProcesses d w else []) @
         (if ly_showTactics lay \<or> ly_showProcesses lay then [newline] else []) @
         renderStoryline d w m (ly_storyRows lay) @ [newline] @
         renderRecent d mo w (ly_recentRows lay) @ [newline] @
         renderFooter d w m)"

definition newlines :: "string \<Rightarrow> nat" where
  "newlines s = count_list s newline"

definition full_layout :: layout where
  "full_layout =
     \<lparr>ly_storyRows = maxStoryRows, ly_recentRows = maxRecentRows, ly_showTactics = True, ly_showProcesses = True\<rparr>"

text \<open>What the next attempt gives up, if there is anything left to give.\<close>

definition shed :: "layout \<Rightarrow> layout option" where
  "shed lay =
     (if minRecentRows < ly_recentRows lay then Some (lay\<lparr>ly_recentRows := ly_recentRows lay - 1\<rparr>)
      else if minStoryRows < ly_storyRows lay then Some (lay\<lparr>ly_storyRows := ly_storyRows lay - 1\<rparr>)
      else if ly_showProcesses lay then Some (lay\<lparr>ly_showProcesses := False\<rparr>)
      else if ly_showTactics lay then Some (lay\<lparr>ly_showTactics := False\<rparr>)
      else None)"

definition layout_size :: "layout \<Rightarrow> nat" where
  "layout_size lay =
     ly_recentRows lay + ly_storyRows lay + of_bool (ly_showTactics lay) + of_bool (ly_showProcesses lay)"

lemma shed_smaller: "shed lay = Some lay' \<Longrightarrow> layout_size lay' < layout_size lay"
  by (auto simp: shed_def layout_size_def split: if_splits)

text \<open>\<open>views i\<close> is what the \<open>i\<close>-th attempt sees.\<close>

function render_loop :: "terminal \<Rightarrow> int \<Rightarrow> (nat \<Rightarrow> Dashboard \<times> moment) \<Rightarrow> nat \<Rightarrow> layout \<Rightarrow> string" where
  "render_loop t budget views i lay =
    (let frame = render_frame t (views i) lay
     in if int (newlines frame) \<le> budget then frame
        else case shed lay of
          None \<Rightarrow> frame
        | Some lay \<Rightarrow> render_loop t budget views (Suc i) lay)"
  by pat_completeness auto
termination by (relation "measure (\<lambda>(t, budget, views, i, lay). layout_size lay)") (auto simp: shed_smaller)

declare render_loop.simps [simp del]

definition Dashboard_Render :: "terminal \<Rightarrow> (nat \<Rightarrow> Dashboard \<times> moment) \<Rightarrow> string" where
  "Dashboard_Render t views =
    (let h = do_Height (da_opts (fst (views 0))); h = (if h \<le> 0 then terminalHeight t else h)
     in render_loop t (h - 1) views 0 full_layout)"

section \<open>Painting and closing\<close>

definition ansiHome :: string where "ansiHome = ESC # ''[H''"
definition ansiClearLine :: string where "ansiClearLine = ESC # ''[K''"
definition ansiClearBelow :: string where "ansiClearBelow = ESC # ''[J''"
definition ansiHideCursor :: string where "ansiHideCursor = ESC # ''[?25l''"
definition ansiShowCursor :: string where "ansiShowCursor = ESC # ''[?25h''"

text \<open>What a paint writes.\<close>

definition paint_text :: "bool \<Rightarrow> string \<Rightarrow> string" where
  "paint_text on frame =
     (if on then ansiHideCursor else []) @ ansiHome @
     concat (map (\<lambda>l. l @ ansiClearLine @ [newline]) (split_on newline frame)) @ ansiClearBelow"

text \<open>A writer answers a text with an error or none.\<close>

definition Dashboard_Paint ::
  "terminal \<Rightarrow> (string \<Rightarrow> goerror option) \<Rightarrow> (nat \<Rightarrow> Dashboard \<times> moment) \<Rightarrow> Dashboard \<Rightarrow> Dashboard \<times> string \<times> goerror option"
where
  "Dashboard_Paint t out views d =
    (let text = paint_text (do_Color (da_opts d)) (Dashboard_Render t views)
     in (d\<lparr>da_painted := True\<rparr>, text,
         case out text of Some e \<Rightarrow> Some (errorf ''painting dashboard: '' e) | None \<Rightarrow> None))"

text \<open>The repaint goroutine: a frame at once, then one per tick until it is stopped, which closes \<open>done\<close>.
  The result is the number of frames and whether \<open>done\<close> is closed.\<close>

datatype wake = Stopped | Tick

fun repaints :: "wake list \<Rightarrow> nat \<Rightarrow> nat \<times> bool" where
  "repaints [] n = (n, False)"
| "repaints (Stopped # ws) n = (n, True)"
| "repaints (Tick # ws) n = repaints ws (Suc n)"

definition Dashboard_Start :: "Dashboard \<Rightarrow> wake list \<Rightarrow> Dashboard \<times> nat \<times> bool" where
  "Dashboard_Start d ws = (d\<lparr>da_running := True\<rparr>, repaints ws 1)"

text \<open>Closing waits for \<open>done\<close>, which only the goroutine of \<open>Start\<close> closes: without one it never returns.\<close>

datatype close_result = Blocked Dashboard | Closed Dashboard string "goerror option"

definition Dashboard_Close ::
  "terminal \<Rightarrow> (string \<Rightarrow> goerror option) \<Rightarrow> (nat \<Rightarrow> Dashboard \<times> moment) \<Rightarrow> Dashboard \<Rightarrow> close_result"
where
  "Dashboard_Close t out views d =
     (if da_closed d then Closed d [] None
      else
        let d = d\<lparr>da_closed := True\<rparr> in
        if \<not> da_running d then Blocked d
        else case Dashboard_Paint t out views d of
          (d, text, Some e) \<Rightarrow> Closed d text (Some e)
        | (d, text, None) \<Rightarrow>
            if do_Color (da_opts d) then Closed d (text @ ansiShowCursor) (out ansiShowCursor)
            else Closed d text None)"

end
