(* ===== verification/Columns.thy ===== *)
theory Columns
  imports Layout
begin

text \<open>
  How wide the pieces of a frame are.  \<open>cols s n\<close> says that \<open>s\<close> takes \<open>n\<close> columns whenever ASCII (or
  nothing) follows, \<open>wide s n\<close> that it does whatever follows: escape sequences take none, glyphs one, and
  text without an escape character one per rune.  The second part counts newlines.
\<close>

section \<open>Measuring a piece in context\<close>

abbreviation shown :: "string \<Rightarrow> nat" where
  "shown s \<equiv> visible_from Text (map fst (runes s))"

definition wide :: "string \<Rightarrow> nat \<Rightarrow> bool" where
  "wide s n \<longleftrightarrow> (\<forall>t. shown (s @ t) = n + shown t)"

definition cols :: "string \<Rightarrow> nat \<Rightarrow> bool" where
  "cols s n \<longleftrightarrow> (\<forall>t. ascii_start t \<longrightarrow> shown (s @ t) = n + shown t)"

lemma wide_cols: "wide s n \<Longrightarrow> cols s n"
  by (simp add: wide_def cols_def)

lemma wide_Nil: "wide [] 0"
  by (simp add: wide_def)

lemma wide_append: "wide s m \<Longrightarrow> wide s' n \<Longrightarrow> wide (s @ s') (m + n)"
  by (simp add: wide_def)

lemma wide_cols_append: "wide s m \<Longrightarrow> cols s' n \<Longrightarrow> cols (s @ s') (m + n)"
  by (simp add: wide_def cols_def)

lemma ascii_start_append: "ascii_start s \<Longrightarrow> s \<noteq> [] \<Longrightarrow> ascii_start (s @ t)"
  by (cases s) (simp_all add: ascii_start_def)

lemma cols_append: "cols s m \<Longrightarrow> cols s' n \<Longrightarrow> ascii_start s' \<Longrightarrow> s' \<noteq> [] \<Longrightarrow> cols (s @ s') (m + n)"
  by (simp add: cols_def ascii_start_append)

lemma cols_wide_append: "cols s m \<Longrightarrow> wide s' n \<Longrightarrow> ascii_start s' \<Longrightarrow> s' \<noteq> [] \<Longrightarrow> wide (s @ s') (m + n)"
  by (simp add: cols_def wide_def ascii_start_append)

lemma ascii_start_Nil [simp]: "ascii_start []"
  by (simp add: ascii_start_def)

lemma cols_visibleLen: "cols s n \<Longrightarrow> visibleLen s = int n"
  by (drule cols_def [THEN iffD1, THEN spec, of _ _ "[]"]) (simp add: visibleLen_def)

section \<open>Text\<close>

text \<open>Text without an escape character.\<close>

definition plain :: "string \<Rightarrow> bool" where
  "plain s \<longleftrightarrow> 0x1B \<notin> set (map fst (runes s))"

lemma visible_from_plain:
  "0x1B \<notin> set rs \<Longrightarrow> visible_from Text (rs @ rs') = length rs + visible_from Text rs'"
  by (induction rs) (auto simp: escape_step_def)

lemma cols_plain: "plain s \<Longrightarrow> cols s (RuneCount s)"
  by (simp add: cols_def plain_def runes_append visible_from_plain RuneCount_def)

lemma wide_ascii:
  assumes "list_all ascii s" and "CHR 0x1B \<notin> set s" shows "wide s (length s)"
proof -
  have "(0x1B :: nat) \<notin> set (map of_char s)"
  proof
    assume "(0x1B :: nat) \<in> set (map of_char s)"
    then obtain c where "c \<in> set s" "of_char c = (0x1B :: nat)" by auto
    moreover have "of_char (CHR 0x1B) = (0x1B :: nat)" by simp
    ultimately have "c = CHR 0x1B" by (metis of_char_eq_iff)
    with \<open>c \<in> set s\<close> show False using assms(2) by simp
  qed
  then show ?thesis using visible_from_plain [of "map of_char s"]
    by (simp add: wide_def runes_ascii [OF assms(1)] comp_def)
qed

lemma glyph_wide:
  assumes "decode_rune (map of_char g) = (r, length g)" and "g \<noteq> []" and "r \<noteq> 0x1B"
    and "\<And>t. decode_rune (map of_char (g @ t)) = (r, length g)"
  shows "wide g 1"
  unfolding wide_def using runes_step [OF assms(4) assms(2)] assms(3) by (simp add: escape_step_def)

lemma wide_EncodeRune: "r \<noteq> 0x1B \<Longrightarrow> wide (EncodeRune r) 1"
  by (simp add: wide_def runes_EncodeRune escape_step_def valid_rune_def runeError_def)

lemma wide_EncodeRunes: "0x1B \<notin> set rs \<Longrightarrow> wide (concat (map EncodeRune rs)) (length rs)"
proof (induction rs)
  case (Cons r rs)
  then show ?case using wide_append [OF wide_EncodeRune [of r], of "concat (map EncodeRune rs)"] by simp
qed (simp add: wide_Nil)

lemma glyph_decode:
  assumes "0x80 \<le> b" "b < 0xC0" "0x80 \<le> c" "c < 0xC0"
  shows "decode_rune (0xE2 # b # c # cs) = ((0x80 + b mod 64) * 64 + c mod 64, 3)"
  using assms by (simp add: decode_rune_def lead_byte_def cont_byte_def del: One_nat_def)

lemma glyphs_wide:
  "wide hline 1" "wide full_block 1" "wide light_shade 1" "wide ellipsis 1" "wide bullet 1"
  "wide corner_tl 1" "wide corner_tr 1" "wide corner_bl 1" "wide corner_br 1" "wide em_dash 1" "wide rarrow 1"
  unfolding hline_def full_block_def light_shade_def ellipsis_def bullet_def corner_tl_def corner_tr_def
    corner_bl_def corner_br_def em_dash_def rarrow_def
  by (rule glyph_wide; simp add: glyph_decode)+

lemma two_byte_decode:
  assumes "0x80 \<le> c" "c < 0xC0"
  shows "decode_rune (0xC2 # c # cs) = (0x80 + c mod 64, 2)" "decode_rune (0xC3 # c # cs) = (0xC0 + c mod 64, 2)"
  using assms by (simp_all add: decode_rune_def lead_byte_def del: One_nat_def)

lemma dots_wide: "wide middle_dot 1" "wide times_sign 1"
  unfolding middle_dot_def times_sign_def by (rule glyph_wide; simp add: two_byte_decode)+

lemma styles_wide:
  "wide ansiReset 0" "wide ansiBold 0" "wide ansiDim 0" "wide ansiRed 0" "wide ansiGreen 0" "wide ansiYellow 0"
  "wide ansiBlue 0" "wide ansiCyan 0" "wide ansiWhite 0" "wide ansiBgRed 0"
  unfolding ansiReset_def ansiBold_def ansiDim_def ansiRed_def ansiGreen_def ansiYellow_def ansiBlue_def
    ansiCyan_def ansiWhite_def ansiBgRed_def
  by (simp_all add: wide_def runes_ascii_Cons ascii_def escape_step_def)

lemma wide_append0: "wide s 0 \<Longrightarrow> wide s' 0 \<Longrightarrow> wide (s @ s') 0"
  using wide_append [of s 0 s' 0] by simp

lemma severityStyle_wide: "wide (severityStyle sev) 0"
  by (cases sev) (simp_all add: styles_wide wide_append0)

text \<open>Styling keeps the width, padding raises it, cutting limits it.\<close>

lemma reset_start: "ascii_start ansiReset" "ansiReset \<noteq> []"
  by (simp_all add: ansiReset_def ascii_start_def ascii_def)

lemma cols_color: "wide style 0 \<Longrightarrow> cols s n \<Longrightarrow> cols (color on style s) n"
  using cols_wide_append [OF _ styles_wide(1) reset_start] wide_append [of style 0 "s @ ansiReset" n]
  by (auto simp: color_def intro: wide_cols)

lemma wide_color: "wide style 0 \<Longrightarrow> wide s n \<Longrightarrow> wide (color on style s) n"
  using wide_append [OF _ styles_wide(1)] wide_append [of style 0 "s @ ansiReset" n] by (auto simp: color_def)

lemma wide_blanks: "wide (replicate n CHR '' '') n"
  using wide_ascii [of "replicate n CHR '' ''"] by (simp add: ascii_def list_all_iff)

lemma Repeat_blanks: "Repeat '' '' n = replicate (nat n) CHR '' ''"
  by (simp add: Repeat_def concat_replicate_single)

lemma wide_Repeat: "wide g 1 \<Longrightarrow> wide (Repeat g n) (nat n)"
proof -
  assume g: "wide g 1"
  have "wide (concat (replicate k g)) k" for k
    by (induction k) (use wide_append [OF g] wide_Nil in auto)
  then show ?thesis by (simp add: Repeat_def)
qed

lemma cols_padVisible: "cols s n \<Longrightarrow> cols (padVisible s w) (max n (nat w))"
proof -
  assume s: "cols s n"
  let ?b = "replicate (nat (w - int n)) CHR '' ''"
  show ?thesis
  proof (cases "int n < w")
    case True
    have "cols (s @ ?b) (n + nat (w - int n))"
      by (rule cols_append [OF s wide_cols [OF wide_blanks]])
        (use True in \<open>auto simp: ascii_start_def ascii_def split: list.splits dest: in_set_replicate [THEN iffD1] arg_cong [of _ _ set]\<close>)
    moreover have "n + nat (w - int n) = nat w" "max n (nat w) = nat w" using True by simp_all
    ultimately show ?thesis using True cols_visibleLen [OF s] by (simp add: padVisible_def Repeat_blanks)
  next
    case False
    then have "max n (nat w) = n" by simp
    then show ?thesis using False s cols_visibleLen [OF s] by (simp add: padVisible_def)
  qed
qed

lemma plain_take: "0x1B \<notin> set rs \<Longrightarrow> 0x1B \<notin> set (take n rs)"
  using set_take_subset [of n rs] by blast

text \<open>The number of columns a cut text takes.\<close>

definition cut_width :: "string \<Rightarrow> int \<Rightarrow> nat" where
  "cut_width s w = (if w \<le> 0 then 0 else if int (RuneCount s) \<le> w then RuneCount s else nat w)"

lemma cut_width_le: "int (cut_width s w) \<le> max 0 w"
  by (simp add: cut_width_def)

lemma cols_truncate: "plain s \<Longrightarrow> cols (truncate_to s w) (cut_width s w)"
proof -
  assume p: "plain s"
  let ?rs = "map fst (runes s)"
  consider "w \<le> 0" | "0 < w" "int (RuneCount s) \<le> w" | "w = 1" "1 < RuneCount s" | "1 < w" "w < int (RuneCount s)"
    by linarith
  then show ?thesis
  proof cases
    case 1
    then show ?thesis by (simp add: truncate_to_def cut_width_def wide_cols [OF wide_Nil])
  next
    case 2
    then show ?thesis using cols_plain [OF p] by (simp add: truncate_to_def cut_width_def RuneCount_def)
  next
    case 3
    then show ?thesis using wide_cols [OF glyphs_wide(4)] by (simp add: truncate_to_def cut_width_def RuneCount_def)
  next
    case 4
    have "wide (concat (map EncodeRune (take (nat (w - 1)) ?rs)) @ ellipsis) (length (take (nat (w - 1)) ?rs) + 1)"
      by (intro wide_append wide_EncodeRunes plain_take glyphs_wide(4)) (use p in \<open>simp add: plain_def\<close>)
    moreover have "length (take (nat (w - 1)) ?rs) + 1 = nat w"
    proof -
      have "nat (w - 1) < length ?rs" "Suc (nat (w - 1)) = nat w" using 4 by (simp_all add: RuneCount_def)
      then show ?thesis by simp
    qed
    ultimately have "cols (concat (map EncodeRune (take (nat (w - 1)) ?rs)) @ ellipsis) (nat w)"
      by (metis wide_cols)
    then show ?thesis using 4 by (simp add: truncate_to_def cut_width_def RuneCount_def Let_def)
  qed
qed

text \<open>A cut and padded column takes exactly its width.\<close>

lemma cols_column: "plain s \<Longrightarrow> cols (padVisible (truncate_to s w) w) (nat w)"
  using cols_padVisible [OF cols_truncate, of s w w] cut_width_le [of s w] by (simp add: max_def nat_le_iff split: if_splits)

lemma plain_ascii: "list_all ascii s \<Longrightarrow> CHR 0x1B \<notin> set s \<Longrightarrow> plain (s @ t) \<longleftrightarrow> plain t"
proof -
  assume a: "list_all ascii s" "CHR 0x1B \<notin> set s"
  have "(0x1B :: nat) \<noteq> of_char c" if "c \<in> set s" for c
  proof
    assume "(0x1B :: nat) = of_char c"
    moreover have "of_char (CHR 0x1B) = (0x1B :: nat)" by simp
    ultimately have "c = CHR 0x1B" by (metis of_char_eq_iff)
    with that a(2) show False by simp
  qed
  then have "(0x1B :: nat) \<notin> of_char ` set s" by blast
  then show ?thesis by (simp add: plain_def runes_ascii [OF a(1)] image_image)
qed

lemma plain_append: "plain s \<Longrightarrow> ascii_start t \<Longrightarrow> plain t \<Longrightarrow> plain (s @ t)"
  by (simp add: plain_def runes_append)

lemma dec_ascii: "list_all ascii (dec n)" "CHR 0x1B \<notin> set (dec n)"
  using set_dec [of n] by (auto simp: list_all_iff ascii_def dest!: subsetD)

lemma plain_Nil [simp]: "plain []"
  by (simp add: plain_def)

lemma plain_proc_tag: "plain comm \<Longrightarrow> plain (proc_tag comm pid)"
  unfolding proc_tag_def FormatUint_def
  by (rule plain_append)
    (use plain_ascii [of "''[''"] plain_ascii [OF dec_ascii] plain_ascii [of "'']''" "[]"]
      in \<open>simp_all add: ascii_start_def ascii_def\<close>)

lemma padded_ascii: "list_all ascii (padded n v)" "CHR 0x1B \<notin> set (padded n v)"
  using padded_digits [of n v] by (auto simp: list_all_iff ascii_def digit_def)

lemma clock_wide: "wide (clock_ms t) 12"
proof -
  have "list_all ascii (clock_ms t)" "CHR 0x1B \<notin> set (clock_ms t)" "length (clock_ms t) = 12"
    using padded_ascii by (simp_all add: clock_ms_def Let_def ascii_def)
  then show ?thesis using wide_ascii by metis
qed

text \<open>The columns of the feed add up to the width of the frame.\<close>

lemma shrink_rule_spec:
  "minNameCols \<le> r \<Longrightarrow> minNameCols \<le> shrink_rule w r p m \<and> shrink_rule w r p m \<le> r \<and>
    (shrink_rule w r p m = minNameCols \<or> minDescCols \<le> avail w (shrink_rule w r p m) p m)"
proof (induction w r p m rule: shrink_rule.induct)
  case (1 w r p m)
  then show ?case by (simp add: shrink_rule.simps [of w r p m] split del: if_split) (auto simp: not_less)
qed

lemma shrink_proc_spec:
  "minNameCols \<le> p \<Longrightarrow> minNameCols \<le> shrink_proc w r p m \<and> shrink_proc w r p m \<le> p \<and>
    (shrink_proc w r p m = minNameCols \<or> minDescCols \<le> avail w r (shrink_proc w r p m) m)"
proof (induction w r p m rule: shrink_proc.induct)
  case (1 w r p m)
  then show ?case by (simp add: shrink_proc.simps [of w r p m] split del: if_split) (auto simp: not_less)
qed

lemma alertColumns_sum:
  assumes "61 \<le> w"
  shows "row_overhead + cl_rule (alertColumns w) + cl_proc (alertColumns w) +
      (if 0 < cl_mitre (alertColumns w) then cl_mitre (alertColumns w) + 1 else 0) + cl_desc (alertColumns w) = w"
    "10 \<le> cl_rule (alertColumns w)" "10 \<le> cl_proc (alertColumns w)" "12 \<le> cl_desc (alertColumns w)"
    "cl_mitre (alertColumns w) = 0 \<or> cl_mitre (alertColumns w) = 10"
proof -
  define m where "m = (if avail w 21 18 10 < minDescCols then 0 else 10 :: int)"
  define r where "r = shrink_rule w 21 18 m"
  define p where "p = shrink_proc w r 18 m"
  note r = shrink_rule_spec [of 21 w 18 m, folded r_def]
  note p = shrink_proc_spec [of 18 w r m, folded p_def]
  have d: "12 \<le> avail w r p m"
    using r p assms m_def by (auto simp: avail_def split: if_splits)
  have c: "alertColumns w = \<lparr>cl_rule = r, cl_proc = p, cl_mitre = m, cl_desc = avail w r p m\<rparr>"
    unfolding alertColumns_def Let_def m_def [symmetric] r_def [symmetric] p_def [symmetric] using d by simp
  show "row_overhead + cl_rule (alertColumns w) + cl_proc (alertColumns w) +
      (if 0 < cl_mitre (alertColumns w) then cl_mitre (alertColumns w) + 1 else 0) + cl_desc (alertColumns w) = w"
    by (simp add: c avail_def)
  show "10 \<le> cl_rule (alertColumns w)" "10 \<le> cl_proc (alertColumns w)" "12 \<le> cl_desc (alertColumns w)"
    "cl_mitre (alertColumns w) = 0 \<or> cl_mitre (alertColumns w) = 10"
    using r p d by (simp_all add: c m_def)
qed

end
