(* ===== verification/DashboardFit.thy ===== *)
theory DashboardFit
  imports Dashboard Columns
begin

text \<open>
  What the frame of \<^verbatim>\<open>dashboard.go\<close> promises the terminal: an alert row is no wider than the frame, a
  divider reaches its right edge, a frame is no taller than the terminal, and what a paint adds to it.
\<close>

section \<open>Width\<close>

lemma frame_width_range: "76 \<le> frame_width opts t \<and> frame_width opts t \<le> 160"
  by (simp add: frame_width_def Let_def)

lemma wide_blank: "wide '' '' 1"
  using wide_blanks [of 1] by simp

lemma cols_blank_then:
  assumes "cols s m" and "cols t n" shows "cols (s @ '' '' @ t) (m + (1 + n))"
  using cols_append [OF assms(1) wide_cols_append [OF wide_blank assms(2)]]
  by (simp add: ascii_start_def ascii_def)

lemma cols_badge: "cols (padVisible ('' '' @ Severity_String sev @ '' '') 10) 10"
proof -
  have "list_all ascii ('' '' @ Severity_String sev @ '' '')" "CHR 0x1B \<notin> set ('' '' @ Severity_String sev @ '' '')"
    "length ('' '' @ Severity_String sev @ '' '') \<le> 10"
    by (cases sev; simp add: Severity_String_def severityNames_def ascii_def)+
  then show ?thesis
    using cols_padVisible [OF wide_cols [OF wide_ascii], of "'' '' @ Severity_String sev @ '' ''" 10]
    by (simp add: max_def split: if_splits)
qed

definition row_desc :: "Alert \<Rightarrow> string" where
  "row_desc a =
     (if al_Suppressed a > 0
      then ''(+'' @ FormatUint (al_Suppressed a) @ '' folded) '' @ al_Description a else al_Description a)"

lemma plain_row_desc: "plain (al_Description a) \<Longrightarrow> plain (row_desc a)"
  unfolding row_desc_def FormatUint_def
  using plain_ascii [of "''(+''"] plain_ascii [OF dec_ascii] plain_ascii [of "'' folded) ''"]
  by (simp add: ascii_def)

lemma cols_alert_row:
  assumes "plain (al_Comm a)" "plain (al_Rule a)" "plain (al_MitreID a)" "plain (al_Description a)"
  shows "cols (alert_row on zone c a)
    (3 + (12 + (1 + (10 + (1 + (nat (cl_rule c) + (1 + (nat (cl_proc c) + (1 +
      ((if 0 < cl_mitre c then nat (cl_mitre c) + 1 else 0) + cut_width (row_desc a) (cl_desc c)))))))))))"
proof -
  have last: "cols ((if cl_mitre c > 0 then
        color on ansiDim (padVisible (truncate_to (al_MitreID a) (cl_mitre c)) (cl_mitre c)) @ '' '' else []) @
      truncate_to (row_desc a) (cl_desc c))
    ((if 0 < cl_mitre c then nat (cl_mitre c) + 1 else 0) + cut_width (row_desc a) (cl_desc c))"
    using cols_blank_then [OF cols_color [OF styles_wide(3) cols_column [OF assms(3)]]
        cols_truncate [OF plain_row_desc [OF assms(4)]], of on "cl_mitre c" "cl_desc c"]
      cols_truncate [OF plain_row_desc [OF assms(4)]]
    by simp
  have "wide ''   '' 3" using wide_blanks [of 3] by (simp add: numeral_eq_Suc)
  then show ?thesis
    unfolding alert_row_def Let_def row_desc_def [symmetric]
    by (intro wide_cols_append cols_blank_then last cols_color styles_wide severityStyle_wide cols_badge
        cols_column plain_proc_tag assms wide_cols clock_wide)
qed

text \<open>C40. An alert row is no wider than the frame, whatever the terminal, the alert and the length of its
  texts, as long as no text of the alert carries an escape character.\<close>

theorem alert_row_fits:
  assumes "plain (al_Comm a)" "plain (al_Rule a)" "plain (al_MitreID a)" "plain (al_Description a)"
  shows "visibleLen (alert_row on zone (alertColumns (frame_width opts t)) a) \<le> frame_width opts t"
proof -
  let ?w = "frame_width opts t"
  let ?c = "alertColumns ?w"
  have w: "61 \<le> ?w" using frame_width_range [of opts t] by linarith
  note sum = alertColumns_sum [OF w]
  have "int (cut_width (row_desc a) (cl_desc ?c)) \<le> cl_desc ?c"
    using cut_width_le [of "row_desc a" "cl_desc ?c"] sum(4) by simp
  then show ?thesis
    using cols_visibleLen [OF cols_alert_row [OF assms, of on zone ?c]] sum
    by (auto split: if_splits)
qed

definition no_options :: DashboardOptions where
  "no_options =
     \<lparr>do_Version = ''dev'', do_Mode = ''live'', do_Scope = ''system-wide'', do_Source = [], do_AlertPath = ''alerts.jsonl'',
      do_Rules = [''reverse-shell''], do_MinSeverity = SeverityLow, do_Color = True, do_Width = 0, do_Height = 0,
      do_Refresh = 0\<rparr>"

definition no_terminal :: terminal where
  "no_terminal = \<lparr>tm_cols = 0, tm_rows = 0, tm_COLUMNS = [], tm_LINES = []\<rparr>"

definition wide_alert :: Alert where
  "wide_alert =
     log_alert\<lparr>al_Comm := ''a-process-with-a-long-name'', al_Rule := ''reverse-shell'', al_MitreID := ''T1059'',
       al_Description := ''chain''\<rparr>"

theorem alert_row_fits_witness:
  "plain ''a-process-with-a-long-name'' \<and>
   visibleLen (alert_row True (\<lambda>_. 0) (alertColumns (frame_width no_options no_terminal)) wide_alert)
     \<le> frame_width no_options no_terminal"
proof -
  have p: "plain ''a-process-with-a-long-name''" "plain ''reverse-shell''" "plain ''T1059''" "plain ''chain''"
    using plain_ascii [of "''a-process-with-a-long-name''" "[]"] plain_ascii [of "''reverse-shell''" "[]"]
      plain_ascii [of "''T1059''" "[]"] plain_ascii [of "''chain''" "[]"] by (simp_all add: ascii_def)
  show ?thesis
    using p alert_row_fits [of wide_alert True "\<lambda>_. 0" no_options no_terminal] by (simp add: wide_alert_def log_alert_def)
qed

text \<open>A divider ends exactly at the right edge when its two texts leave room for one dash, and sticks out
  by what they are too long otherwise: nothing shortens a long capture path or log path.\<close>

theorem divider_width:
  assumes "plain left" "plain right" "left \<noteq> []" "right \<noteq> []" "wide style 0" "wide leftCap 1" "wide rightCap 1"
  shows "visibleLen (divider on leftCap rightCap w left right style) =
    max w (8 + visibleLen left + visibleLen right)"
proof -
  have l: "visibleLen left = int (RuneCount left)" and r: "visibleLen right = int (RuneCount right)"
    using assms(1,2) cols_plain cols_visibleLen by blast+
  have tail: "wide ('' '' @ right @ '' '') (1 + (RuneCount right + 1))"
    by (intro wide_append wide_blank cols_wide_append [OF cols_plain [OF assms(2)] wide_blank]) (simp_all add: ascii_start_def ascii_def)
  have t: "visibleLen ('' '' @ right @ '' '') = int (RuneCount right) + 2"
    using cols_visibleLen [OF wide_cols [OF tail]] by simp
  define fill where "fill = max 1 (w - (2 + (int (RuneCount left) + 2)) - (int (RuneCount right) + 2) - 1)"
  have label: "wide ('' '' @ color on style left @ '' '') (1 + (RuneCount left + 1))"
    by (intro wide_append wide_blank cols_wide_append [OF cols_color [OF assms(5) cols_plain [OF assms(1)]] wide_blank])
      (simp_all add: ascii_start_def ascii_def)
  have "divider on leftCap rightCap w left right style =
      color on ansiDim (leftCap @ hline) @ ('' '' @ color on style left @ '' '') @
      color on ansiDim (Repeat hline fill) @ color on ansiDim ('' '' @ right @ '' '') @ color on ansiDim rightCap"
    using assms(3,4) t l by (simp add: divider_def fill_def Let_def max_def)
  moreover have "wide (color on ansiDim (leftCap @ hline) @ ('' '' @ color on style left @ '' '') @
      color on ansiDim (Repeat hline fill) @ color on ansiDim ('' '' @ right @ '' '') @ color on ansiDim rightCap)
      ((1 + 1) + ((1 + (RuneCount left + 1)) + (nat fill + ((1 + (RuneCount right + 1)) + 1))))"
    by (intro wide_append [OF _ wide_append [OF label]] wide_append wide_color styles_wide tail wide_Repeat
        glyphs_wide assms(6,7))
  ultimately have "visibleLen (divider on leftCap rightCap w left right style) =
      int ((1 + 1) + ((1 + (RuneCount left + 1)) + (nat fill + ((1 + (RuneCount right + 1)) + 1))))"
    by (metis cols_visibleLen wide_cols)
  moreover have "0 \<le> fill" by (simp add: fill_def)
  ultimately show ?thesis using l r by (simp add: fill_def max_def split: if_splits)
qed

theorem divider_width_witness:
  "visibleLen (divider True corner_tl corner_tr 76 (replicate 80 CHR ''a'') ''00:00'' (ansiBold @ ansiCyan)) > 76"
proof -
  let ?l = "replicate 80 CHR ''a''"
  have p: "plain ?l" "plain ''00:00''"
    using plain_ascii [of ?l "[]"] plain_ascii [of "''00:00''" "[]"] by (simp_all add: ascii_def list_all_iff)
  have "wide ?l 80" using wide_ascii [of ?l] by (simp add: ascii_def list_all_iff)
  moreover have "wide ''00:00'' 5" using wide_ascii [of "''00:00''"] by (simp add: ascii_def eval_nat_numeral)
  ultimately have "visibleLen ?l = 80" "visibleLen ''00:00'' = 5"
    using cols_visibleLen [OF wide_cols] by fastforce+
  then show ?thesis
    using divider_width [OF p _ _ wide_append0 [OF styles_wide(2) styles_wide(8)] glyphs_wide(6,7), of True 76] by simp
qed

end
