(* ===== verification/DashboardHeight.thy ===== *)
theory DashboardHeight
  imports DashboardFit
begin

text \<open>
  The height of a frame: how many newlines each panel writes, that \<open>Render\<close> keeps a frame below the height
  of the terminal, and what \<open>Paint\<close> makes of it.
\<close>

section \<open>Text on one line\<close>

definition flat :: "string \<Rightarrow> bool" where
  "flat s \<longleftrightarrow> newline \<notin> set s"

named_theorems flats \<open>texts without a newline\<close>

lemma flat_simps [simp]:
  "flat []" "flat (c # s) \<longleftrightarrow> c \<noteq> newline \<and> flat s" "flat (s @ t) \<longleftrightarrow> flat s \<and> flat t"
  by (auto simp: flat_def)

lemma newlines_simps [simp]:
  "newlines [] = 0" "newlines (c # s) = (if c = newline then 1 else 0) + newlines s"
  "newlines (s @ t) = newlines s + newlines t"
  by (simp_all add: newlines_def)

lemma newlines_flat: "flat s \<Longrightarrow> newlines s = 0"
  by (simp add: flat_def newlines_def count_notin)

lemma newlines_line: "flat s \<Longrightarrow> newlines (line s) = 1"
  by (simp add: newlines_flat)

lemma flat_glyphs [simp]:
  "flat hline" "flat full_block" "flat light_shade" "flat ellipsis" "flat middle_dot" "flat bullet"
  "flat times_sign" "flat corner_tl" "flat corner_tr" "flat corner_bl" "flat corner_br" "flat em_dash"
  "flat rarrow" "flat branch_mid" "flat branch_end"
  by (simp_all add: hline_def full_block_def light_shade_def ellipsis_def middle_dot_def bullet_def
      times_sign_def corner_tl_def corner_tr_def corner_bl_def corner_br_def em_dash_def rarrow_def
      branch_mid_def branch_end_def)

lemma flat_ansi [simp]:
  "flat ansiReset" "flat ansiBold" "flat ansiDim" "flat ansiRed" "flat ansiGreen" "flat ansiYellow"
  "flat ansiBlue" "flat ansiCyan" "flat ansiWhite" "flat ansiBgRed" "flat ansiHome" "flat ansiClearLine"
  "flat ansiClearBelow" "flat ansiHideCursor" "flat ansiShowCursor"
  by (simp_all add: ansiReset_def ansiBold_def ansiDim_def ansiRed_def ansiGreen_def ansiYellow_def
      ansiBlue_def ansiCyan_def ansiWhite_def ansiBgRed_def ansiHome_def ansiClearLine_def
      ansiClearBelow_def ansiHideCursor_def ansiShowCursor_def)

lemma flat_styles [simp]: "flat (severityStyle sev)" "flat (barStyle sev)" "flat (Severity_String sev)"
  by (cases sev; simp add: Severity_String_def severityNames_def)+

lemma flat_concat: "list_all flat ss \<Longrightarrow> flat (concat ss)"
  by (induction ss) simp_all

lemma flat_color [simp]: "flat style \<Longrightarrow> flat s \<Longrightarrow> flat (color on style s)"
  by (simp add: color_def)

lemma flat_styleIf [simp]: "flat style \<Longrightarrow> flat (styleIf b style)"
  by (simp add: styleIf_def)

lemma flat_replicate: "flat s \<Longrightarrow> flat (concat (replicate n s))"
  by (induction n) simp_all

lemma flat_Repeat [simp]: "flat s \<Longrightarrow> flat (Repeat s n)"
  by (simp add: Repeat_def flat_replicate)

lemma flat_padVisible [simp]: "flat s \<Longrightarrow> flat (padVisible s w)"
  by (simp add: padVisible_def)

lemma flat_dec [simp]: "flat (dec n)"
  using not_in_dec [of newline n] by (simp add: flat_def)

lemma flat_numbers [simp]: "flat (FormatUint v)" "flat (FormatInt i)"
  by (simp_all add: FormatUint_def FormatInt_def)

lemma flat_pad_left [simp]: "flat s \<Longrightarrow> flat (pad_left n s)"
  by (simp add: pad_left_def flat_def)

lemma flat_proc_tag [simp]: "flat comm \<Longrightarrow> flat (proc_tag comm pid)"
  by (simp add: proc_tag_def)

lemma flat_padded [simp]: "flat (padded n v)"
  using padded_digits [of n v] by (auto simp: flat_def list_all_iff digit_def)

lemma flat_clock [simp]: "flat (clock_ms t)"
  by (simp add: clock_ms_def Let_def)

lemma flat_two_digits [simp]: "flat (two_digits n)"
  by (simp add: two_digits_def)

lemma flat_formatDuration [simp]: "flat (formatDuration rnd d)"
  by (simp add: formatDuration_def Let_def)

lemma flat_join: "flat sep \<Longrightarrow> list_all flat ss \<Longrightarrow> flat (join sep ss)"
  by (induction sep ss rule: join.induct) simp_all

lemma flat_take_drop: "flat s \<Longrightarrow> flat (take n s) \<and> flat (drop n s)"
  by (auto simp: flat_def dest: in_set_takeD in_set_dropD)

lemma flat_count_parts: "flat s \<Longrightarrow> list_all flat parts \<Longrightarrow> list_all flat (count_parts s parts)"
proof (induction s parts rule: count_parts.induct)
  case (1 s parts)
  then show ?case using flat_take_drop [OF 1(2)] by (simp add: count_parts.simps [of s parts])
qed

lemma flat_formatCount [simp]: "flat (formatCount n)"
  by (simp add: formatCount_def Let_def flat_join flat_count_parts)

lemma flat_bars [simp]: "flat (bar rnd n most w)" "flat (meter rnd part w)"
  by (simp_all add: bar_def meter_def Let_def)

text \<open>Cutting a text adds no newline: a rune below 0x80 is a byte of the text.\<close>

lemma payload_bits:
  "192 \<le> b \<Longrightarrow> b < 224 \<Longrightarrow> b mod 32 = (b - 192 :: nat)" "224 \<le> b \<Longrightarrow> b < 240 \<Longrightarrow> b mod 16 = (b - 224 :: nat)"
  "240 \<le> b \<Longrightarrow> b < 248 \<Longrightarrow> b mod 8 = (b - 240 :: nat)" "128 \<le> b \<Longrightarrow> b < 192 \<Longrightarrow> b mod 64 = (b - 128 :: nat)"
  using low_bits(4) [of "b - 192"] low_bits(2) [of "b - 224"] low_bits(3) [of "b - 240"] low_bits(1) [of "b - 128"]
  by simp_all

lemma decode_rune_ascii:
  assumes "bs \<noteq> []" and "decode_rune bs = (r, w)" and "r < 0x80" shows "r = hd bs"
proof (cases "lead_byte (bs ! 0)")
  case None
  then show ?thesis using assms by (auto simp: decode_rune_def Let_def runeError_def hd_conv_nth split: if_splits)
next
  case (Some x)
  then show ?thesis using assms
    by (auto simp: decode_rune_def Let_def runeError_def hd_conv_nth lead_byte_def payload_bits split: if_splits)
qed

lemma runes_flat: "flat s \<Longrightarrow> 0x0A \<notin> set (map fst (runes s))"
proof (induction s rule: runes.induct)
  case (1 s)
  show ?case
  proof (cases "s = []")
    case False
    obtain r w where d: "decode_rune (map of_char s) = (r, w)" by (rule prod.exhaust)
    have "r \<noteq> 0x0A"
    proof
      assume r: "r = 0x0A"
      then have "of_char (hd s) = (0x0A :: nat)"
        using decode_rune_ascii [OF _ d] False by (simp add: hd_map)
      moreover have "of_char newline = (0x0A :: nat)" by simp
      ultimately have "hd s = newline" by (metis of_char_eq_iff)
      then show False using 1(2) False hd_in_set by (metis flat_def)
    qed
    then show ?thesis using 1(1) [OF False d [symmetric]] flat_take_drop [OF 1(2), of w] False d
      by (simp add: runes.simps [of s])
  qed simp
qed

lemma flat_byte: "n \<noteq> 0x0A \<Longrightarrow> n < 256 \<Longrightarrow> byte n \<noteq> newline"
proof
  assume "n \<noteq> 0x0A" "n < 256" "byte n = newline"
  moreover have "of_char newline = (0x0A :: nat)" by simp
  ultimately show False using of_char_byte [of n] by simp
qed

lemma flat_EncodeRune: "r \<noteq> 0x0A \<Longrightarrow> flat (EncodeRune r)"
proof -
  assume "r \<noteq> 0x0A"
  have small: "x mod 64 < 128" for x :: nat using mod_less_divisor [of 64 x] by simp
  let ?r = "valid_rune r"
  have r: "?r \<noteq> 0x0A" using \<open>r \<noteq> 0x0A\<close> by (simp add: valid_rune_def runeError_def)
  have top: "?r div 262144 < 5" using valid_rune_range(1) [of r] by (simp add: less_mult_imp_div_less)
  have mid: "?r < 0x800 \<Longrightarrow> ?r div 64 < 32" "?r < 0x10000 \<Longrightarrow> ?r div 4096 < 16"
    by (simp_all add: less_mult_imp_div_less)
  have enc: "EncodeRune r =
      (if ?r < 0x80 then [byte ?r]
       else if ?r < 0x800 then [byte (0xC0 + ?r div 64), byte (0x80 + ?r mod 64)]
       else if ?r < 0x10000 then [byte (0xE0 + ?r div 4096), byte (0x80 + ?r div 64 mod 64), byte (0x80 + ?r mod 64)]
       else [byte (0xF0 + ?r div 262144), byte (0x80 + ?r div 4096 mod 64), byte (0x80 + ?r div 64 mod 64),
         byte (0x80 + ?r mod 64)])"
    unfolding EncodeRune_def valid_rune_def Let_def ..
  show ?thesis
    using r top mid small [of ?r] small [of "?r div 64"] small [of "?r div 4096"]
      flat_byte [of ?r] flat_byte [of "0xC0 + ?r div 64"] flat_byte [of "0xE0 + ?r div 4096"]
      flat_byte [of "0xF0 + ?r div 262144"] flat_byte [of "0x80 + ?r mod 64"]
      flat_byte [of "0x80 + ?r div 64 mod 64"] flat_byte [of "0x80 + ?r div 4096 mod 64"]
    unfolding enc by (simp del: newline_def)
qed

lemma flat_truncate [simp]: "flat s \<Longrightarrow> flat (truncate_to s w)"
proof -
  assume "flat s"
  then have "0x0A \<notin> set (take n (map fst (runes s)))" for n
    using runes_flat set_take_subset [of n "map fst (runes s)"] by blast
  then have "flat (concat (map EncodeRune (take n (map fst (runes s)))))" for n
    by (intro flat_concat) (auto simp: list_all_iff intro!: flat_EncodeRune)
  then show ?thesis using \<open>flat s\<close> by (simp add: truncate_to_def Let_def)
qed

lemma flat_divider [simp]:
  "flat lc \<Longrightarrow> flat rc \<Longrightarrow> flat left \<Longrightarrow> flat right \<Longrightarrow> flat style \<Longrightarrow> flat (divider on lc rc w left right style)"
  by (simp add: divider_def Let_def)

lemma flat_headings [simp]:
  "flat label \<Longrightarrow> flat (heading on label w)" "flat left \<Longrightarrow> flat right \<Longrightarrow> flat (heading2 on left right w)"
  by (simp_all add: heading_def heading2_def Let_def)

section \<open>Panels\<close>

definition flat_step :: "StoryStep \<Rightarrow> bool" where
  "flat_step st \<longleftrightarrow> flat (st_Comm st) \<and> flat (st_Tactic st) \<and> flat (st_Summary st)"

definition flat_alert :: "Alert \<Rightarrow> bool" where
  "flat_alert a \<longleftrightarrow>
     flat (al_Comm a) \<and> flat (al_Rule a) \<and> flat (al_MitreID a) \<and> flat (al_Description a) \<and>
     list_all flat_step (al_Story a)"

definition flat_options :: "DashboardOptions \<Rightarrow> bool" where
  "flat_options opts \<longleftrightarrow>
     flat (do_Version opts) \<and> flat (do_Mode opts) \<and> flat (do_Scope opts) \<and> flat (do_Source opts) \<and>
     flat (do_AlertPath opts) \<and> list_all flat (do_Rules opts)"

text \<open>No text on display carries a newline.\<close>

definition flat_texts :: "Dashboard \<Rightarrow> bool" where
  "flat_texts d \<longleftrightarrow>
     flat_options (da_opts d) \<and> list_all flat (map fst (da_byRule d)) \<and> list_all flat_alert (da_recent d) \<and>
     (case da_lastChain d of None \<Rightarrow> True | Some a \<Rightarrow> flat_alert a)"

lemma flat_ToUpper [simp]: "flat s \<Longrightarrow> flat (ToUpper s)"
proof -
  have "upper_char c \<noteq> newline" if "c \<noteq> newline" for c
  proof
    assume e: "upper_char c = newline"
    then have "97 \<le> (of_char c :: nat) \<and> (of_char c :: nat) \<le> 122"
      using that by (simp add: upper_char_def Let_def split: if_splits)
    moreover from this have "(of_char c - 32 :: nat) mod 256 = of_char c - 32" by (intro mod_less) linarith
    ultimately have "of_char (upper_char c) = (of_char c - 32 :: nat)" by (simp add: upper_char_def Let_def)
    moreover have "of_char newline = (0x0A :: nat)" by simp
    ultimately have "(of_char c - 32 :: nat) = 10" using e by simp
    then show False using \<open>97 \<le> _ \<and> _\<close> by linarith
  qed
  then show "flat s \<Longrightarrow> flat (ToUpper s)" by (induction s rule: ToUpper.induct) simp_all
qed

lemma flat_statLine:
  "list_all (\<lambda>c. flat (sc_label c) \<and> flat (sc_value c) \<and> flat (sc_style c)) cells \<Longrightarrow> flat (statLine on cells)"
  by (auto simp: statLine_def list_all_iff intro!: flat_concat)

lemma header_lines: "flat_options (da_opts d) \<Longrightarrow> newlines (renderHeader d mo w m) \<le> 4"
proof -
  assume f: "flat_options (da_opts d)"
  have stats: "flat (statLine on (header_stats d m))" for on
    by (rule flat_statLine) (simp add: header_stats_def cell_def Let_def)
  show ?thesis
    using f unfolding renderHeader_def Let_def
    by (simp add: newlines_flat flat_options_def between_dots_def stats)
qed

lemma side_by_side_lines:
  "list_all flat ls \<Longrightarrow> list_all flat rs \<Longrightarrow> newlines (side_by_side w ls rs) = max (length ls) (length rs)"
  by (induction w ls rs rule: side_by_side.induct) (simp_all add: newlines_flat)

lemma severity_rows: "length (severityRows d rnd w) = 4" "list_all flat (severityRows d rnd w)"
  by (simp_all add: severityRows_def severity_order_def Let_def)

lemma set_rule_names:
  "set (rule_names d) \<subseteq> set (map fst (da_byRule d)) \<union> set (do_Rules (da_opts d))"
proof -
  have "set (fold (\<lambda>name names. if contains names name then names else names @ [name]) fired names)
      \<subseteq> set fired \<union> set names" for fired names
  proof (induction fired arbitrary: names)
    case (Cons name fired)
    then show ?case using Cons [of names] Cons [of "names @ [name]"] by (simp add: subset_iff)
  qed simp
  from this [of "map fst (da_byRule d)" "sort (map fst (da_byRule d))"]
    this [of "map fst (da_byRule d)" "do_Rules (da_opts d)"]
  show ?thesis unfolding rule_names_def Let_def by (simp split: if_split)
qed

lemma rule_rows:
  assumes "flat_texts d" shows "list_all flat (ruleRows d w)"
proof -
  have "\<forall>name \<in> set (rule_names d). flat name"
    using set_rule_names [of d] assms by (auto simp: flat_texts_def flat_options_def list_all_iff)
  then show ?thesis by (auto simp: ruleRows_def Let_def list_all_iff)
qed

lemma rule_rows_length: "length (ruleRows d w) = length (rule_names d)"
  by (simp add: ruleRows_def Let_def)

lemma rules_lines:
  "flat_texts d \<Longrightarrow> newlines (renderSeverityAndRules d mo w) = 1 + max 4 (length (rule_names d))"
  by (simp add: renderSeverityAndRules_def newlines_flat side_by_side_lines severity_rows rule_rows rule_rows_length)

lemma step_rows_lines: "list_all flat_step steps \<Longrightarrow> newlines (step_rows on w dropped steps) = length steps"
  by (induction on w dropped steps rule: step_rows.induct) (simp_all add: step_row_def flat_step_def newlines_flat)

lemma storyline_lines:
  assumes "flat_texts d" shows "newlines (renderStoryline d w m rows) \<le> 2 + max 1 rows"
proof -
  have path: "flat (do_AlertPath (da_opts d))" using assms by (simp add: flat_texts_def flat_options_def)
  show ?thesis
  proof (cases "da_lastChain d")
    case None
    then show ?thesis by (simp add: renderStoryline_def chain_heading_def newlines_flat Let_def)
  next
    case (Some a)
    obtain steps dropped where s: "shown_steps rows (al_Story a) = (steps, dropped)" by (rule prod.exhaust)
    have a: "flat (al_Description a)" "list_all flat_step (al_Story a)"
      using assms Some by (simp_all add: flat_texts_def flat_alert_def)
    have "list_all flat_step steps" "length steps + (if 0 < dropped then 1 else 0) \<le> max 1 rows"
      using s a(2) by (auto simp: shown_steps_def list_all_iff dest: in_set_takeD split: if_splits)
    then show ?thesis using Some s a(1) path
      by (auto simp: renderStoryline_def chain_heading_def newlines_flat step_rows_lines Let_def split: if_splits)
  qed
qed

lemma feed_rows: "length (feed least rows as) \<le> rows" "set (feed least rows as) \<subseteq> set as"
  by (induction least rows as rule: feed.induct) auto

lemma flat_alert_row: "flat_alert a \<Longrightarrow> flat (alert_row on zone c a)"
  by (simp add: alert_row_def flat_alert_def Let_def)

lemma lines_of: "list_all flat ss \<Longrightarrow> newlines (concat (map line ss)) = length ss"
  by (induction ss) (simp_all add: newlines_flat)

lemma recent_lines:
  assumes "flat_texts d" shows "newlines (renderRecent d mo w rows) \<le> 1 + max 1 rows"
proof -
  let ?as = "feed (do_MinSeverity (da_opts d)) rows (rev (da_recent d))"
  let ?row = "alert_row (do_Color (da_opts d)) (mo_zone mo) (alertColumns w)"
  have "list_all flat (map ?row ?as)"
    using assms feed_rows(2) [of "do_MinSeverity (da_opts d)" rows "rev (da_recent d)"]
    by (auto simp: flat_texts_def list_all_iff intro!: flat_alert_row)
  then have "newlines (concat (map line (map ?row ?as))) \<le> rows"
    using feed_rows(1) by (simp only: lines_of length_map)
  moreover have "flat (recent_heading d)" by (simp add: recent_heading_def)
  ultimately show ?thesis
    unfolding renderRecent_def Let_def by (auto simp: newlines_flat comp_def)
qed

lemma footer_lines: "flat_options (da_opts d) \<Longrightarrow> newlines (renderFooter d w m) = 1"
  by (simp add: renderFooter_def newlines_flat flat_options_def Let_def)

section \<open>Fitting\<close>

lemma smallest_frame:
  assumes "flat_texts d" and "shed lay = None"
  shows "newlines (render_frame t (d, mo) lay) \<le> 18 + max 4 (length (rule_names d))"
proof -
  let ?w = "frame_width (da_opts d) t"
  let ?m = "case mo_metrics mo of None \<Rightarrow> no_metrics | Some m \<Rightarrow> m"
  have lay: "ly_recentRows lay \<le> 3" "ly_storyRows lay \<le> 2" "\<not> ly_showTactics lay" "\<not> ly_showProcesses lay"
    using assms(2) by (auto simp: shed_def split: if_splits)
  have o: "flat_options (da_opts d)" using assms(1) by (simp add: flat_texts_def)
  have "newlines (render_frame t (d, mo) lay) =
      newlines (renderHeader d mo ?w ?m) + 1 + newlines (renderSeverityAndRules d mo ?w) + 1 +
      newlines (renderStoryline d ?w ?m (ly_storyRows lay)) + 1 +
      newlines (renderRecent d mo ?w (ly_recentRows lay)) + 1 + newlines (renderFooter d ?w ?m)"
    using lay by (simp add: render_frame_def Let_def)
  then show ?thesis
    using header_lines [OF o, of mo ?w ?m] rules_lines [OF assms(1), of mo ?w] footer_lines [OF o, of ?w ?m]
      storyline_lines [OF assms(1), of ?w ?m "ly_storyRows lay"]
      recent_lines [OF assms(1), of mo ?w "ly_recentRows lay"] lay(1,2)
    by linarith
qed

lemma render_loop_result:
  "int (newlines (render_loop t budget views i lay)) \<le> budget \<or>
   (\<exists>j lay'. shed lay' = None \<and> render_loop t budget views i lay = render_frame t (views j) lay')"
proof (induction t budget views i lay rule: render_loop.induct)
  case (1 t budget views i lay)
  show ?case
  proof (cases "int (newlines (render_frame t (views i) lay)) \<le> budget")
    case True
    then show ?thesis by (simp add: render_loop.simps [of t budget views i lay] Let_def)
  next
    case False
    then show ?thesis using 1 [OF refl]
      by (cases "shed lay") (auto simp: render_loop.simps [of t budget views i lay] Let_def)
  qed
qed

definition plain_moment :: moment where
  "plain_moment = \<lparr>mo_now = 0, mo_metrics = None, mo_zone = (\<lambda>_. 0), mo_round = (\<lambda>x. x)\<rparr>"

section \<open>Painting\<close>

lemma split_on_lines: "length (split_on c s) = Suc (count_list s c) \<and> list_all (\<lambda>l. c \<notin> set l) (split_on c s)"
  by (induction c s rule: split_on.induct) (auto split: list.splits)

lemma newlines_concat: "newlines (concat ss) = sum_list (map newlines ss)"
  by (induction ss) simp_all

lemma paint_lines: "newlines (paint_text on frame) = Suc (newlines frame)"
proof -
  have "newlines (l @ ansiClearLine @ [newline]) = 1" if "l \<in> set (split_on newline frame)" for l
    using that split_on_lines [of newline frame] by (simp add: list_all_iff newlines_flat flat_def del: newline_def)
      (simp add: newline_def ansiClearLine_def)
  then have "map (\<lambda>l. newlines (l @ ansiClearLine @ [newline])) (split_on newline frame) =
      replicate (length (split_on newline frame)) 1"
    by (metis (no_types, lifting) map_eq_conv map_replicate_const)
  then show ?thesis using split_on_lines [of newline frame]
    by (simp add: paint_text_def newlines_concat comp_def newlines_flat sum_list_replicate newlines_def [of frame, symmetric]
        del: newlines_simps(2) newline_def)
qed

text \<open>The height \<open>Render\<close> fits a frame to: the option, or what the terminal, \<open>LINES\<close> or the fallback says.\<close>

definition fitted_height :: "DashboardOptions \<Rightarrow> terminal \<Rightarrow> int" where
  "fitted_height opts t = (if do_Height opts \<le> 0 then terminalHeight t else do_Height opts)"

text \<open>C14. A frame keeps one line of the terminal free.  Take the height the program detects, as it always
  does, or one set by an option; from the smallest usable height (24) on, with at most five rules on
  display and no newline in the texts, the frame \<open>Render\<close> returns has fewer newlines than the terminal has
  rows, whatever alerts, storylines and metrics it shows and whatever is written between the attempts
  to fit it.  A paint of it adds one newline, so that it has at most as many newlines as rows: the free
  line is used up, and a frame with none to spare scrolls by one row (the theorem on painting below).\<close>

theorem Render_fits:
  assumes "\<And>i. flat_texts (fst (views i)) \<and> length (rule_names (fst (views i))) \<le> 5"
    and "MinUsableHeight \<le> fitted_height (da_opts (fst (views 0))) t"
  shows "int (newlines (Dashboard_Render t views)) < fitted_height (da_opts (fst (views 0))) t \<and>
    int (newlines (fst (snd (Dashboard_Paint t out views d)))) \<le> fitted_height (da_opts (fst (views 0))) t"
proof -
  let ?h = "fitted_height (da_opts (fst (views 0))) t"
  have small: "int (newlines (render_frame t (views j) lay)) \<le> 23" if "shed lay = None" for j lay
  proof -
    have "flat_texts (fst (views j))" "max 4 (length (rule_names (fst (views j)))) \<le> 5" using assms(1) [of j] by simp_all
    then show ?thesis
      using smallest_frame [OF _ that, of "fst (views j)" t "snd (views j)"] unfolding prod.collapse by linarith
  qed
  have "Dashboard_Render t views = render_loop t (?h - 1) views 0 full_layout"
    by (simp add: Dashboard_Render_def fitted_height_def Let_def)
  moreover consider "int (newlines (render_loop t (?h - 1) views 0 full_layout)) \<le> ?h - 1"
    | j lay where "shed lay = None" "render_loop t (?h - 1) views 0 full_layout = render_frame t (views j) lay"
    using render_loop_result [of t "?h - 1" views 0 full_layout] by blast
  then have "int (newlines (render_loop t (?h - 1) views 0 full_layout)) < ?h"
  proof cases
    case (2 j lay)
    then show ?thesis using small [of lay j] assms(2) by simp
  qed simp
  ultimately have "int (newlines (Dashboard_Render t views)) < ?h" by simp
  then show ?thesis by (simp add: Dashboard_Paint_def paint_lines Let_def)
qed

text \<open>The options as \<open>run\<close> sets them: no height, so that of the terminal counts.\<close>

theorem Render_fits_witness:
  "int (newlines (Dashboard_Render (no_terminal\<lparr>tm_rows := 24\<rparr>) (\<lambda>_. (NewDashboard no_options 0, plain_moment)))) < 24"
proof -
  let ?d = "NewDashboard no_options 0" and ?t = "no_terminal\<lparr>tm_rows := 24\<rparr>"
  have "flat_texts ?d \<and> length (rule_names ?d) \<le> 5"
    by (simp add: NewDashboard_def no_options_def flat_texts_def flat_options_def rule_names_def Let_def)
  moreover have "fitted_height (da_opts ?d) ?t = 24"
    by (simp add: NewDashboard_def no_options_def fitted_height_def terminalHeight_def Let_def)
  ultimately show ?thesis using Render_fits [of "\<lambda>_. (?d, plain_moment)" ?t] by simp
qed

text \<open>A text written from the home position scrolls a terminal of \<open>h\<close> rows when it has \<open>h\<close> newlines.\<close>

definition scrolls :: "int \<Rightarrow> string \<Rightarrow> bool" where
  "scrolls h out \<longleftrightarrow> h \<le> int (newlines out)"

definition with_height :: "int \<Rightarrow> Dashboard \<Rightarrow> Dashboard" where
  "with_height h d = d\<lparr>da_opts := (da_opts d)\<lparr>do_Height := h\<rparr>\<rparr>"

lemma with_height_fields [simp]:
  "do_Version (da_opts (with_height h d)) = do_Version (da_opts d)"
  "do_Mode (da_opts (with_height h d)) = do_Mode (da_opts d)"
  "do_Scope (da_opts (with_height h d)) = do_Scope (da_opts d)"
  "do_Source (da_opts (with_height h d)) = do_Source (da_opts d)"
  "do_AlertPath (da_opts (with_height h d)) = do_AlertPath (da_opts d)"
  "do_Rules (da_opts (with_height h d)) = do_Rules (da_opts d)"
  "do_MinSeverity (da_opts (with_height h d)) = do_MinSeverity (da_opts d)"
  "do_Color (da_opts (with_height h d)) = do_Color (da_opts d)"
  "do_Width (da_opts (with_height h d)) = do_Width (da_opts d)"
  "do_Height (da_opts (with_height h d)) = h" "da_started (with_height h d) = da_started d"
  "da_total (with_height h d) = da_total d" "da_bySeverity (with_height h d) = da_bySeverity d"
  "da_byRule (with_height h d) = da_byRule d" "da_byTactic (with_height h d) = da_byTactic d"
  "da_byProcess (with_height h d) = da_byProcess d" "da_recent (with_height h d) = da_recent d"
  "da_lastChain (with_height h d) = da_lastChain d"
  by (simp_all add: with_height_def)

lemma render_with_height: "render_frame t (with_height h d, mo) lay = render_frame t (d, mo) lay"
proof -
  have "rule_names (with_height h d) = rule_names d" "most_alerts (with_height h d) = most_alerts d"
    "tactic_chip (with_height h d) = tactic_chip d" "header_stats (with_height h d) m = header_stats d m"
    "recent_heading (with_height h d) = recent_heading d" "top_processes (with_height h d) = top_processes d"
    "frame_width (da_opts (with_height h d)) t = frame_width (da_opts d) t" for m
    by (simp_all add: rule_names_def most_alerts_def tactic_chip_def header_stats_def recent_heading_def
        top_processes_def frame_width_def fun_eq_iff cong del: if_weak_cong)
  note names = this
  have "renderHeader (with_height h d) mo w m = renderHeader d mo w m"
    "renderSeverityAndRules (with_height h d) mo w = renderSeverityAndRules d mo w"
    "renderTactics (with_height h d) w = renderTactics d w" "renderProcesses (with_height h d) w = renderProcesses d w"
    "renderStoryline (with_height h d) w m rows = renderStoryline d w m rows"
    "renderRecent (with_height h d) mo w rows = renderRecent d mo w rows"
    "renderFooter (with_height h d) w m = renderFooter d w m" for w m rows
    unfolding renderHeader_def renderSeverityAndRules_def severityRows_def ruleRows_def renderTactics_def
      renderProcesses_def renderStoryline_def renderRecent_def renderFooter_def Let_def with_height_fields names
    by (rule refl)+
  then show ?thesis by (simp add: render_frame_def names Let_def cong del: if_weak_cong)
qed

text \<open>C39. A frame that just fits is painted one line too long: for every content of the dashboard there is a
  terminal whose height the frame is fitted to, one row spare, and which the paint nevertheless scrolls,
  because the empty piece after the frame's last newline is written as a line too.\<close>

theorem Paint_scrolls:
  "\<exists>h > 0. int (newlines (Dashboard_Render t (\<lambda>_. (with_height h d, mo)))) = h - 1 \<and>
     scrolls h (fst (snd (Dashboard_Paint t out (\<lambda>_. (with_height h d, mo)) (with_height h d))))"
proof -
  let ?n = "newlines (render_frame t (d, mo) full_layout)"
  let ?h = "int ?n + 1"
  have "Dashboard_Render t (\<lambda>_. (with_height ?h d, mo)) = render_frame t (d, mo) full_layout"
    by (simp add: Dashboard_Render_def render_loop.simps render_with_height Let_def)
  then show ?thesis
    by (intro exI [of _ ?h]) (simp add: Dashboard_Paint_def paint_lines scrolls_def Let_def)
qed

end
