(* ===== verification/DashboardState.thy ===== *)
theory DashboardState
  imports DashboardHeight "HOL-Library.Multiset"
begin

text \<open>
  The counters of the dashboard as functions of the alerts written to it, the shortlist of processes, and
  closing.
\<close>

section \<open>Counters\<close>

lemma tally_bump: "tally k (bump j m) = tally k m + of_bool (k = j)"
  by (simp add: tally_def bump_def)

lemma tally_bumps:
  "tally k (fold (\<lambda>t. bump (f t)) ts m) = tally k m + of_nat (count_list (map f ts) k)"
  by (induction ts arbitrary: m) (simp_all add: tally_bump)

text \<open>How many of the alerts have a property.\<close>

definition how_many :: "(Alert \<Rightarrow> bool) \<Rightarrow> Alert list \<Rightarrow> u64" where
  "how_many P as = of_nat (length (filter P as))"

lemma how_many_simps [simp]:
  "how_many P [] = 0" "how_many P (as @ [a]) = how_many P as + of_bool (P a)"
  by (simp_all add: how_many_def)

lemma push_recent_drop:
  "push_recent a (drop (length as - recentCap) as) = drop (length (as @ [a]) - recentCap) (as @ [a])"
proof (cases "64 \<le> length as")
  case True
  then have "Suc (length as - 64) = length as - 63" "length as - (length as - 64) = 64" by simp_all
  then show ?thesis using True by (simp add: push_recent_def Let_def)
qed (simp add: push_recent_def Let_def)

definition latest_chain :: "Alert list \<Rightarrow> Alert option" where
  "latest_chain as = (case filter (\<lambda>a. al_Story a \<noteq> []) (rev as) of [] \<Rightarrow> None | a # _ \<Rightarrow> Some a)"

text \<open>C15. The dashboard forgets nothing it counts: after any sequence of alerts every figure is what the
  sequence says, the total, the count of each severity, rule, tactic and process (as 64-bit counters), the
  last 64 alerts in order, and the most recent alert that carries a story.\<close>

theorem dashboard_counts:
  "let d = fold (\<lambda>a d. Dashboard_record d a) as (NewDashboard opts now) in
     da_total d = of_nat (length as) \<and>
     tally sev (da_bySeverity d) = how_many (\<lambda>a. al_Severity a = sev) as \<and>
     tally rule (da_byRule d) = how_many (\<lambda>a. al_Rule a = rule) as \<and>
     tally proc (da_byProcess d) = how_many (\<lambda>a. al_Comm a = pk_Comm proc \<and> al_PID a = pk_PID proc) as \<and>
     tally tactic (da_byTactic d) = of_nat (\<Sum>a\<leftarrow>as. count_list (map tac_Name (TacticsFor a)) tactic) \<and>
     da_recent d = drop (length as - 64) as \<and> da_lastChain d = latest_chain as"
proof (induction as rule: rev_induct)
  case Nil
  then show ?case by (simp add: NewDashboard_def tally_def latest_chain_def Let_def)
next
  case (snoc a as)
  define d where "d = fold (\<lambda>a d. Dashboard_record d a) as (NewDashboard opts now)"
  have key: "proc = \<lparr>pk_Comm = c, pk_PID = p\<rparr> \<longleftrightarrow> c = pk_Comm proc \<and> p = pk_PID proc" for c p by (cases proc) auto
  have recent: "push_recent a (drop (length as - 64) as) = drop (length (as @ [a]) - 64) (as @ [a])"
    using push_recent_drop [of a as] by simp
  have chain: "latest_chain (as @ [a]) = (if al_Story a \<noteq> [] then Some a else latest_chain as)"
    by (simp add: latest_chain_def)
  have fields: "da_total (Dashboard_record d a) = da_total d + 1"
    "da_bySeverity (Dashboard_record d a) = bump (al_Severity a) (da_bySeverity d)"
    "da_byRule (Dashboard_record d a) = bump (al_Rule a) (da_byRule d)"
    "da_byProcess (Dashboard_record d a) = bump \<lparr>pk_Comm = al_Comm a, pk_PID = al_PID a\<rparr> (da_byProcess d)"
    "da_byTactic (Dashboard_record d a) = fold (\<lambda>t. bump (tac_Name t)) (TacticsFor a) (da_byTactic d)"
    "da_lastChain (Dashboard_record d a) = (if al_Story a \<noteq> [] then Some a else da_lastChain d)"
    "da_recent (Dashboard_record d a) = push_recent a (da_recent d)"
    by (simp_all add: Dashboard_record_def)
  have step: "fold (\<lambda>a d. Dashboard_record d a) (as @ [a]) (NewDashboard opts now) = Dashboard_record d a"
    by (simp add: d_def)
  note IH = snoc [unfolded Let_def, folded d_def]
  show ?case unfolding Let_def step fields
    using IH by (simp add: tally_bump tally_bumps key recent chain eq_commute [of sev] eq_commute [of rule] del: drop_append)
qed

section \<open>The shortlist of processes\<close>

abbreviation proc_rank :: "procKey \<times> u64 \<Rightarrow> int \<times> nat" where
  "proc_rank \<equiv> \<lambda>(k, n). (- int (unat n), unat (pk_PID k))"

lemma take_sorted_below:
  assumes "sorted (map f xs)" and "x \<in> set (take n xs)" and "y \<in> set (drop n xs)" shows "f x \<le> f y"
proof -
  have "sorted (map f (take n xs) @ map f (drop n xs))" using assms(1) by (simp flip: map_append)
  then show ?thesis using assms(2,3) by (simp add: sorted_append)
qed

text \<open>The list shows what the panel is for: no process that is left out has more alerts than one shown.\<close>

lemma top_processes_ranked:
  assumes "p \<in> set (top_processes d)" and "q \<in> set (da_byProcess d)" and "q \<notin> set (top_processes d)"
  shows "snd q \<le> snd p"
proof -
  define xs where "xs = sort_key proc_rank (da_byProcess d)"
  have top: "top_processes d = take maxProcRows xs" by (simp only: top_processes_def xs_def)
  have "set xs = set (take maxProcRows xs) \<union> set (drop maxProcRows xs)"
    unfolding set_append [symmetric] append_take_drop_id ..
  moreover have "set xs = set (da_byProcess d)" unfolding xs_def by (rule set_sort)
  ultimately have "q \<in> set (drop maxProcRows xs)" using assms(2,3) unfolding top by blast
  moreover have "sorted (map proc_rank xs)" unfolding xs_def by (rule sorted_sort_key)
  moreover have "p \<in> set (take maxProcRows xs)" using assms(1) unfolding top .
  ultimately have "proc_rank p \<le> proc_rank q" by (intro take_sorted_below)
  then show ?thesis by (cases p; cases q) (auto simp: less_eq_prod_def word_le_def)
qed

text \<open>When no two processes tie in both, the list does not depend on the order the map is ranged over.\<close>

lemma top_processes_stable:
  assumes "inj_on proc_rank (set (da_byProcess d))" and "mset m = mset (da_byProcess d)"
  shows "top_processes (d\<lparr>da_byProcess := m\<rparr>) = top_processes d"
proof -
  have "sort_key proc_rank (da_byProcess d) = sort_key proc_rank m"
    by (rule sort_key_inj_key_eq [OF _ assms(1)]) (simp_all only: assms(2) mset_sort sorted_sort_key)
  then show ?thesis by (simp add: top_processes_def)
qed

text \<open>The process list is not stable although its order is count and pid: a process that executes another
  program keeps its pid and gets a new name.  Two such entries with equally many alerts are listed in the order the map happens to be
  ranged over, so the panel can reshuffle from frame to frame.\<close>

theorem top_processes_reshuffles:
  fixes pid :: u32
  assumes "c \<noteq> c'"
  shows "let k = \<lparr>pk_Comm = c, pk_PID = pid\<rparr>; k' = \<lparr>pk_Comm = c', pk_PID = pid\<rparr> in
    top_processes (d\<lparr>da_byProcess := [(k, n), (k', n)]\<rparr>) = [(k, n), (k', n)] \<and>
    top_processes (d\<lparr>da_byProcess := [(k', n), (k, n)]\<rparr>) = [(k', n), (k, n)] \<and> [(k, n), (k', n)] \<noteq> [(k', n), (k, n)]"
  using assms by (simp add: top_processes_def)

theorem top_processes_reshuffles_witness:
  "top_processes ((NewDashboard no_options 0)\<lparr>da_byProcess :=
     [(\<lparr>pk_Comm = ''bash'', pk_PID = 7\<rparr>, 2), (\<lparr>pk_Comm = ''nc'', pk_PID = 7\<rparr>, 2)]\<rparr>) \<noteq>
   top_processes ((NewDashboard no_options 0)\<lparr>da_byProcess :=
     [(\<lparr>pk_Comm = ''nc'', pk_PID = 7\<rparr>, 2), (\<lparr>pk_Comm = ''bash'', pk_PID = 7\<rparr>, 2)]\<rparr>)"
  using top_processes_reshuffles [where c = "''bash''" and c' = "''nc''" and d = "NewDashboard no_options 0" and pid = 7 and n = 2] by (simp add: Let_def)

section \<open>Closing\<close>

lemma Paint_keeps: "fst (Dashboard_Paint t out views d) = d\<lparr>da_painted := True\<rparr>"
  by (simp add: Dashboard_Paint_def Let_def)

lemma Close_blocks:
  "(case Dashboard_Close t out views (fst (Dashboard_Start d ws)) of
      Blocked _ \<Rightarrow> False
    | Closed d' _ _ \<Rightarrow> da_closed d' \<and> (\<forall>t out views. Dashboard_Close t out views d' = Closed d' [] None)) \<and>
   Dashboard_Close t out views (NewDashboard opts now) = Blocked ((NewDashboard opts now)\<lparr>da_closed := True\<rparr>)"
proof
  show "case Dashboard_Close t out views (fst (Dashboard_Start d ws)) of
     Blocked _ \<Rightarrow> False
   | Closed d' _ _ \<Rightarrow> da_closed d' \<and> (\<forall>t out views. Dashboard_Close t out views d' = Closed d' [] None)"
    using Paint_keeps [of t out views "d\<lparr>da_running := True, da_closed := True\<rparr>"]
    by (cases "da_closed d") (auto simp: Dashboard_Close_def Dashboard_Start_def Let_def split: prod.splits option.splits)
  show "Dashboard_Close t out views (NewDashboard opts now) = Blocked ((NewDashboard opts now)\<lparr>da_closed := True\<rparr>)"
    by (simp add: Dashboard_Close_def NewDashboard_def Let_def)
qed


text \<open>Closing a dashboard whose repaint loop runs returns, is remembered, and a second close writes
  nothing; closing one that was never started waits for ever, whatever the terminal and the writer.\<close>

theorem Close_needs_Start:
  "(case Dashboard_Close t out views (fst (Dashboard_Start d ws)) of
      Blocked _ \<Rightarrow> False
    | Closed d' _ _ \<Rightarrow> da_closed d' \<and> (\<forall>t out views. Dashboard_Close t out views d' = Closed d' [] None)) \<and>
   Dashboard_Close t out views (NewDashboard opts now) = Blocked ((NewDashboard opts now)\<lparr>da_closed := True\<rparr>)"
  by (rule Close_blocks)

end
