(* ===== verification/WallClock.thy ===== *)
theory WallClock
  imports Engine Records
begin

text \<open>
  Detection does not read the wall clock.  An event with another wall-clock time makes every rule, the
  correlator and the deduplicator do the same, and the alerts differ in their timestamp only.  The
  contract of a rule in this respect is the locale \<open>clockless_rule\<close>, which the four rules satisfy; the
  theorem about replays in \<open>Replay\<close> rests on it.
\<close>

definition at_wall :: "int \<Rightarrow> Event \<Rightarrow> Event" where
  "at_wall w ev = ev\<lparr>ev_Wall := w\<rparr>"

definition stamped :: "int \<Rightarrow> Alert \<Rightarrow> Alert" where
  "stamped w a = a\<lparr>al_Timestamp := w\<rparr>"

definition at_wall_cx :: "int \<Rightarrow> Context \<Rightarrow> Context" where
  "at_wall_cx w c = c\<lparr>cx_Event := at_wall w (cx_Event c)\<rparr>"

lemma at_wall_fields [simp]:
  "ev_Timestamp (at_wall w ev) = ev_Timestamp ev" "ev_Wall (at_wall w ev) = w" "ev_PID (at_wall w ev) = ev_PID ev"
  "ev_TID (at_wall w ev) = ev_TID ev" "ev_TGID (at_wall w ev) = ev_TGID ev" "ev_UID (at_wall w ev) = ev_UID ev"
  "ev_GID (at_wall w ev) = ev_GID ev" "ev_PPID (at_wall w ev) = ev_PPID ev" "ev_Comm (at_wall w ev) = ev_Comm ev"
  "ev_Syscall (at_wall w ev) = ev_Syscall ev" "ev_SyscallID (at_wall w ev) = ev_SyscallID ev"
  "ev_Args (at_wall w ev) = ev_Args ev" "ev_ReturnValue (at_wall w ev) = ev_ReturnValue ev"
  "ev_IsExit (at_wall w ev) = ev_IsExit ev" "ev_Arg0 (at_wall w ev) = ev_Arg0 ev" "ev_Arg1 (at_wall w ev) = ev_Arg1 ev"
  "ev_Arg2 (at_wall w ev) = ev_Arg2 ev" "ev_Path (at_wall w ev) = ev_Path ev" "ev_Argv (at_wall w ev) = ev_Argv ev"
  "ev_DestIP (at_wall w ev) = ev_DestIP ev" "ev_DestPort (at_wall w ev) = ev_DestPort ev"
  "ev_Family (at_wall w ev) = ev_Family ev"
  by (simp_all add: at_wall_def)

lemma at_wall_cx_fields [simp]:
  "cx_Event (at_wall_cx w c) = at_wall w (cx_Event c)" "cx_History (at_wall_cx w c) = cx_History c"
  "cx_Config (at_wall_cx w c) = cx_Config c"
  by (simp_all add: at_wall_cx_def)

lemma stamped_fields [simp]:
  "al_PID (stamped w a) = al_PID a" "al_Comm (stamped w a) = al_Comm a" "al_Syscall (stamped w a) = al_Syscall a"
  "al_Args (stamped w a) = al_Args a" "al_MitreID (stamped w a) = al_MitreID a" "al_Rule (stamped w a) = al_Rule a"
  "al_Storyline (stamped w a) = al_Storyline a" "al_Suppressed (stamped w a) = al_Suppressed a"
  by (simp_all add: stamped_def)

lemma newAlert_stamped [simp]: "newAlert (at_wall w ev) rule tech sev desc = stamped w (newAlert ev rule tech sev desc)"
  by (simp add: newAlert_def stamped_def at_wall_def)

section \<open>Rules\<close>

locale clockless_rule =
  fixes eval :: rule_eval
  assumes clockless: "eval (at_wall_cx w c) = map_prod id (map_option (stamped w)) (eval c)"
begin

lemma same_args: "fst (eval (at_wall_cx w c)) = fst (eval c)"
  by (simp add: clockless)

lemma same_silence: "snd (eval (at_wall_cx w c)) = None \<longleftrightarrow> snd (eval c) = None"
  by (simp add: clockless)

end

lemma procLabel_wall [simp]: "procLabel isPrint (at_wall w ev) = procLabel isPrint ev"
  by (simp add: procLabel_def)

interpretation pt_clock: clockless_rule evalPtraceInjection
  by unfold_locales (auto simp: evalPtraceInjection_def Let_def split: option.splits)

interpretation pe_clock: clockless_rule evalPrivilegeEscalation
proof
  fix w and c :: Context
  let ?p = "cfg_IsPrint (cx_Config c)"
  let ?e = "cx_Event c"
  have small: "evalSetuid ?p (at_wall w ?e) = map_option (stamped w) (evalSetuid ?p ?e)"
    "evalSetgid ?p (at_wall w ?e) = map_option (stamped w) (evalSetgid ?p ?e)"
    "evalSetresuid ?p (at_wall w ?e) = map_option (stamped w) (evalSetresuid ?p ?e)"
    "evalSetresgid ?p (at_wall w ?e) = map_option (stamped w) (evalSetresgid ?p ?e)"
    "evalCapset ?p (at_wall w ?e) = map_option (stamped w) (evalCapset ?p ?e)"
    by (simp_all add: evalSetuid_def evalSetgid_def evalSetresuid_def evalSetresgid_def evalCapset_def Let_def)
  have suid: "evalSuidExec (at_wall_cx w c) = map_prod id (map_option (stamped w)) (evalSuidExec c)"
    by (simp add: evalSuidExec_def Let_def split: option.split)
  show "evalPrivilegeEscalation (at_wall_cx w c) = map_prod id (map_option (stamped w)) (evalPrivilegeEscalation c)"
    unfolding evalPrivilegeEscalation_def Let_def by (simp add: small suid)
qed

interpretation sf_clock: clockless_rule evalSensitiveFileAccess
proof
  fix w and c :: Context
  have report: "sensitive_report (at_wall_cx w c) sp m = map_prod id (map_option (stamped w)) (sensitive_report c sp m)" for sp m
    by (simp add: sensitive_report_def Let_def)
  have scan: "sensitive_scan (at_wall_cx w c) p sps = map_prod id (map_option (stamped w)) (sensitive_scan c p sps)" for p sps
    by (induction sps) (simp_all add: report self_target_def Let_def id_def split: option.split)
  show "evalSensitiveFileAccess (at_wall_cx w c) = map_prod id (map_option (stamped w)) (evalSensitiveFileAccess c)"
    by (simp add: evalSensitiveFileAccess_def Let_def scan)
qed

interpretation rs_clock: clockless_rule evalReverseShell
proof
  fix w and c :: Context
  have marks: "chain_marks (at_wall w ev) chain = chain_marks ev chain" for ev chain
    by (simp add: chain_marks_def)
  show "evalReverseShell (at_wall_cx w c) = map_prod id (map_option (stamped w)) (evalReverseShell c)"
    by (simp add: evalReverseShell_def Let_def marks split: option.split)
qed

lemma registry_clockless: "r \<in> set allRules \<Longrightarrow> clockless_rule (rule_Eval r)"
  by (auto simp: allRules_def rulePtraceInjection_def rulePrivilegeEscalation_def ruleSensitiveFileAccess_def
      ruleReverseShell_def pt_clock.clockless_rule_axioms pe_clock.clockless_rule_axioms
      sf_clock.clockless_rule_axioms rs_clock.clockless_rule_axioms)


section \<open>The engine\<close>

lemma file_alert_stamped [simp]: "file_alert m now (stamped w a) s = file_alert m now a s"
proof -
  have "TacticsFor (stamped w a) = TacticsFor a" by (simp add: TacticsFor_def)
  moreover have "stepSummary m (stamped w a) = stepSummary m a"
    unfolding stepSummary_def argsOf_def stamped_fields ..
  ultimately show ?thesis by (simp add: file_alert_def)
qed

lemma chainAlert_stamped [simp]: "chainAlert (stamped w a) s = stamped w (chainAlert a s)"
  by (simp add: chainAlert_def Let_def stamped_def)

lemma Correlate_wall:
  "Correlate c m (at_wall w ev) (stamped w a) =
     (case Correlate c m ev a of (c, a, k) \<Rightarrow> (c, stamped w a, map_option (stamped w) k))"
proof -
  have late: "(stamped w a)\<lparr>al_Storyline := i\<rparr> = stamped w (a\<lparr>al_Storyline := i\<rparr>)" for i by (simp add: stamped_def)
  show ?thesis by (simp add: Correlate_def Let_def late split: prod.split)
qed

lemma correlate_opt_wall:
  "correlate_opt c m (at_wall w ev) (stamped w a) =
     (case correlate_opt c m ev a of (c, a, k) \<Rightarrow> (c, stamped w a, map_option (stamped w) k))"
  by (cases c) (simp_all add: correlate_opt_def Correlate_wall split: prod.split)

lemma admit_stamped:
  "deduper_admit d m (stamped w a) now = (case deduper_admit d m a now of (d, a, ok) \<Rightarrow> (d, stamped w a, ok))"
proof -
  have "dedupKey m (stamped w a) = dedupKey m a" by (simp add: dedupKey_def argsOf_def)
  moreover have "(stamped w a)\<lparr>al_Suppressed := n\<rparr> = stamped w (a\<lparr>al_Suppressed := n\<rparr>)" for n
    by (simp add: stamped_def)
  ultimately show ?thesis by (cases d) (simp_all add: deduper_admit_def admit_key_def split: option.split prod.split)
qed

definition stamped_pass :: "int \<Rightarrow> pass \<Rightarrow> pass" where
  "stamped_pass w ps = ps\<lparr>ps_alerts := map (stamped w) (ps_alerts ps)\<rparr>"

lemma rule_turn_wall:
  assumes "r \<in> set allRules"
  shows "rule_turn cfg (at_wall w ev) h r (stamped_pass w ps) = stamped_pass w (rule_turn cfg ev h r ps)"
proof -
  let ?c = "\<lparr>cx_Event = ev\<lparr>ev_Args := ps_args ps\<rparr>, cx_History = h, cx_Config = cfg\<rparr>"
  have cx: "\<lparr>cx_Event = (at_wall w ev)\<lparr>ev_Args := ps_args ps\<rparr>, cx_History = h, cx_Config = cfg\<rparr> = at_wall_cx w ?c"
    by (simp add: at_wall_cx_def at_wall_def)
  have eval: "rule_Eval r (at_wall_cx w ?c) = map_prod id (map_option (stamped w)) (rule_Eval r ?c)"
    by (rule clockless_rule.clockless [OF registry_clockless [OF assms]])
  obtain m found where e: "rule_Eval r ?c = (m, found)" by (rule prod.exhaust)
  show ?thesis
  proof (cases found)
    case None
    then show ?thesis using e by (simp add: rule_turn_def stamped_pass_def cx eval)
  next
    case (Some a)
    then show ?thesis using e
      by (simp add: rule_turn_def stamped_pass_def cx eval correlate_opt_wall admit_stamped split: prod.split option.split)
  qed
qed

lemma turns_wall:
  "set rs \<subseteq> set allRules \<Longrightarrow>
   fold (rule_turn cfg (at_wall w ev) h) rs (stamped_pass w ps) = stamped_pass w (fold (rule_turn cfg ev h) rs ps)"
  by (induction rs arbitrary: ps) (simp_all add: rule_turn_wall)

lemma Evaluate_wall:
  assumes "set (en_rules e) \<subseteq> set allRules"
  shows "Engine_Evaluate e (at_wall w ev) = map_prod id (map (stamped w)) (Engine_Evaluate e ev)"
proof -
  let ?start = "\<lparr>ps_args = ev_Args ev, ps_correlator = observe_opt ev (en_correlator e), ps_dedup = en_dedup e, ps_alerts = []\<rparr>"
  have obs: "observe_opt (at_wall w ev) c = observe_opt ev c" for c
    by (cases c) (simp_all add: observe_opt_def Correlator_Observe_def Correlator_learn_def)
  have rec: "Tracker_Record t (at_wall w ev) = Tracker_Record t ev" for t
    unfolding Tracker_Record_def Tracker_file_def filed_history_def entry_of_def at_wall_fields ..
  have start: "stamped_pass w ?start = ?start" by (simp add: stamped_pass_def)
  have turns: "fold (rule_turn cfg (at_wall w ev) h) (en_rules e) ?start =
      stamped_pass w (fold (rule_turn cfg ev h) (en_rules e) ?start)" for cfg h
    using turns_wall [OF assms, of cfg w ev h ?start] by (simp only: start)
  have res: "resolve m (stamped w a) = stamped w (resolve m a)" for m a
    by (simp add: resolve_def argsOf_def) (simp add: stamped_def)
  show ?thesis
    by (simp add: Engine_Evaluate_def obs rec turns Let_def split: prod.split) (simp add: stamped_pass_def res)
qed


section \<open>Recorded events\<close>

text \<open>A call that has not returned has no result: the kernel half leaves the field zero on entry.\<close>

definition entry_result :: "Event \<Rightarrow> bool" where
  "entry_result ev \<longleftrightarrow> ev_IsExit ev \<or> ev_ReturnValue ev = 0"

lemma recorded_wall: "entry_result ev \<Longrightarrow> recorded ev = at_wall (floor_ms (ev_Wall ev)) ev"
  by (cases ev) (auto simp: recorded_def at_wall_def entry_result_def)

definition to_ms :: "Alert \<Rightarrow> Alert" where
  "to_ms a = a\<lparr>al_Timestamp := floor_ms (al_Timestamp a)\<rparr>"

lemma Evaluate_timestamps:
  assumes "set (en_rules e) \<subseteq> set allRules" and "a \<in> set (snd (Engine_Evaluate e ev))"
  shows "al_Timestamp a = ev_Wall ev"
proof -
  have "Engine_Evaluate e ev = Engine_Evaluate e (at_wall (ev_Wall ev) ev)" by (simp add: at_wall_def)
  also have "\<dots> = map_prod id (map (stamped (ev_Wall ev))) (Engine_Evaluate e ev)" by (rule Evaluate_wall [OF assms(1)])
  finally have "snd (Engine_Evaluate e ev) = map (stamped (ev_Wall ev)) (snd (Engine_Evaluate e ev))"
    by (metis snd_map_prod)
  then have "a \<in> stamped (ev_Wall ev) ` set (snd (Engine_Evaluate e ev))" using assms(2) by (metis list.set_map)
  then show ?thesis by (auto simp: stamped_def)
qed

lemma Evaluate_recorded:
  assumes "set (en_rules e) \<subseteq> set allRules" and "entry_result ev"
  shows "Engine_Evaluate e (recorded ev) = map_prod id (map to_ms) (Engine_Evaluate e ev)"
proof -
  have "map (stamped (floor_ms (ev_Wall ev))) (snd (Engine_Evaluate e ev)) = map to_ms (snd (Engine_Evaluate e ev))"
    using Evaluate_timestamps [OF assms(1)] by (simp add: stamped_def to_ms_def)
  then show ?thesis unfolding recorded_wall [OF assms(2)] Evaluate_wall [OF assms(1)]
    by (cases "Engine_Evaluate e ev") simp
qed

end
