(* ===== verification/GoNumber.thy ===== *)
theory GoNumber
  imports Prelude Complex_Main
begin

text \<open>
  The readers of \<^verbatim>\<open>strconv\<close> and \<^verbatim>\<open>time\<close> behind the options of the command line: \<open>ParseInt(s, 0, 64)\<close> with its
  prefixes and underscores, \<open>ParseBool\<close> and \<open>time.ParseDuration\<close>.
\<close>

text \<open>A \<open>float64\<close> as a value: \<open>Infinite True\<close> is positive infinity.\<close>

datatype float64 = Finite real | Infinite bool | NaN

section \<open>Integers\<close>

datatype num_error = ErrSyntax | ErrRange

text \<open>\<open>c | 0x20\<close>, for comparisons with letters.\<close>

definition lower :: "char \<Rightarrow> nat" where
  "lower c = (let n = of_char c :: nat in if 65 \<le> n \<and> n \<le> 90 then n + 32 else n)"

definition go_digit :: "char \<Rightarrow> nat option" where
  "go_digit c =
     (let n = of_char c :: nat in
      if 48 \<le> n \<and> n \<le> 57 then Some (n - 48)
      else if 97 \<le> lower c \<and> lower c \<le> 122 then Some (lower c - 87)
      else None)"

text \<open>The digits, left to right: a bad one ends the loop, and so does a value beyond 64 bits.\<close>

fun uint_digits :: "nat \<Rightarrow> string \<Rightarrow> nat \<Rightarrow> num_error + nat" where
  "uint_digits b [] n = Inr n"
| "uint_digits b (c # cs) n =
     (if c = CHR ''_'' then uint_digits b cs n
      else case go_digit c of
        None \<Rightarrow> Inl ErrSyntax
      | Some d \<Rightarrow>
          if b \<le> d then Inl ErrSyntax
          else if 2 ^ 64 \<le> n * b + d then Inl ErrRange
          else uint_digits b cs (n * b + d))"

text \<open>An underscore stands between digits, the prefix counting as one.\<close>

datatype seen = SawStart | SawDigit | SawUnderscore | SawOther

fun underscore_run :: "bool \<Rightarrow> seen \<Rightarrow> string \<Rightarrow> bool" where
  "underscore_run hex saw [] = (saw \<noteq> SawUnderscore)"
| "underscore_run hex saw (c # cs) =
     (if 48 \<le> (of_char c :: nat) \<and> (of_char c :: nat) \<le> 57 \<or> hex \<and> 97 \<le> lower c \<and> lower c \<le> 102 then
        underscore_run hex SawDigit cs
      else if c = CHR ''_'' then saw = SawDigit \<and> underscore_run hex SawUnderscore cs
      else saw \<noteq> SawUnderscore \<and> underscore_run hex SawOther cs)"

definition is_letter :: "char \<Rightarrow> char \<Rightarrow> bool" where
  "is_letter l c \<longleftrightarrow> lower c = of_char l"

definition has_prefix_of :: "nat \<Rightarrow> char \<Rightarrow> string \<Rightarrow> bool" where
  "has_prefix_of least l s \<longleftrightarrow> least \<le> length s \<and> hd s = CHR ''0'' \<and> is_letter l (s ! 1)"

definition underscoreOK :: "string \<Rightarrow> bool" where
  "underscoreOK s =
     (if has_prefix_of 2 CHR ''b'' s \<or> has_prefix_of 2 CHR ''o'' s \<or> has_prefix_of 2 CHR ''x'' s
      then underscore_run (has_prefix_of 2 CHR ''x'' s) SawDigit (drop 2 s)
      else underscore_run False SawStart s)"

definition base_prefix :: "string \<Rightarrow> nat \<times> string" where
  "base_prefix s =
     (if hd s \<noteq> CHR ''0'' then (10, s)
      else if has_prefix_of 3 CHR ''b'' s then (2, drop 2 s)
      else if has_prefix_of 3 CHR ''o'' s then (8, drop 2 s)
      else if has_prefix_of 3 CHR ''x'' s then (16, drop 2 s)
      else (8, drop 1 s))"

definition ParseUint0 :: "string \<Rightarrow> num_error + nat" where
  "ParseUint0 s0 =
     (if s0 = [] then Inl ErrSyntax
      else case base_prefix s0 of (b, s) \<Rightarrow>
        (case uint_digits b s 0 of
           Inl e \<Rightarrow> Inl e
         | Inr n \<Rightarrow> if CHR ''_'' \<in> set s \<and> \<not> underscoreOK s0 then Inl ErrSyntax else Inr n))"

definition ParseInt0 :: "string \<Rightarrow> num_error + int" where
  "ParseInt0 s0 =
     (if s0 = [] then Inl ErrSyntax
      else
        let neg = (hd s0 = CHR ''-''); s = (if neg \<or> hd s0 = CHR ''+'' then tl s0 else s0) in
        case ParseUint0 s of
          Inl e \<Rightarrow> Inl e
        | Inr n \<Rightarrow>
            if \<not> neg \<and> 2 ^ 63 \<le> n then Inl ErrRange
            else if neg \<and> 2 ^ 63 < n then Inl ErrRange
            else Inr (if neg then - int n else int n))"

definition ParseBool :: "string \<Rightarrow> bool option" where
  "ParseBool s =
     (if s \<in> set [''1'', ''t'', ''T'', ''TRUE'', ''true'', ''True''] then Some True
      else if s \<in> set [''0'', ''f'', ''F'', ''FALSE'', ''false'', ''False''] then Some False
      else None)"

section \<open>Durations\<close>

definition is_digit :: "char \<Rightarrow> bool" where
  "is_digit c \<longleftrightarrow> 48 \<le> (of_char c :: nat) \<and> (of_char c :: nat) \<le> 57"

fun leadingInt :: "string \<Rightarrow> nat \<Rightarrow> (nat \<times> string) option" where
  "leadingInt [] x = Some (x, [])"
| "leadingInt (c # cs) x =
     (if \<not> is_digit c then Some (x, c # cs)
      else if 2 ^ 63 div 10 < x then None
      else let y = x * 10 + (of_char c - 48) in if 2 ^ 63 < y then None else leadingInt cs y)"

text \<open>The digits after the point and the power of ten they are divided by; digits that no longer fit are
  skipped.\<close>

fun leadingFraction :: "string \<Rightarrow> nat \<Rightarrow> nat \<Rightarrow> bool \<Rightarrow> nat \<times> nat \<times> string" where
  "leadingFraction [] x scale overflow = (x, scale, [])"
| "leadingFraction (c # cs) x scale overflow =
     (if \<not> is_digit c then (x, scale, c # cs)
      else if overflow then leadingFraction cs x scale True
      else if (2 ^ 63 - 1) div 10 < x then leadingFraction cs x scale True
      else let y = x * 10 + (of_char c - 48) in
        if 2 ^ 63 < y then leadingFraction cs x scale True
        else leadingFraction cs y (scale * 10) False)"

definition unitMap :: "(string \<times> nat) list" where
  "unitMap =
     [(''ns'', 1), (''us'', 1000), ([CHR 0xC2, CHR 0xB5, CHR ''s''], 1000), ([CHR 0xCE, CHR 0xBC, CHR ''s''], 1000),
      (''ms'', 1000000), (''s'', 1000000000), (''m'', 60000000000), (''h'', 3600000000000)]"

text \<open>One number with its unit: its nanoseconds and the text that follows.  \<open>rnd\<close> rounds to \<open>float64\<close>.\<close>

definition duration_part :: "(real \<Rightarrow> real) \<Rightarrow> string \<Rightarrow> (nat \<times> string) option" where
  "duration_part rnd s =
     (case leadingInt s 0 of
        None \<Rightarrow> None
      | Some (v, s1) \<Rightarrow>
          (let (f, scale, s2) = (if s1 \<noteq> [] \<and> hd s1 = CHR ''.'' then leadingFraction (tl s1) 0 1 False else (0, 1, s1));
               pre = (length s1 \<noteq> length s);
               post = (s1 \<noteq> [] \<and> hd s1 = CHR ''.'' \<and> length s2 \<noteq> length (tl s1));
               u = takeWhile (\<lambda>c. c \<noteq> CHR ''.'' \<and> \<not> is_digit c) s2
           in if \<not> pre \<and> \<not> post then None
              else if u = [] then None
              else case map_of unitMap u of
                None \<Rightarrow> None
              | Some unit \<Rightarrow>
                  if 2 ^ 63 div unit < v then None
                  else
                    let w = v * unit + (if 0 < f then nat \<lfloor>rnd (rnd (real f) * rnd (real unit / real scale))\<rfloor> else 0) in
                    if 0 < f \<and> 2 ^ 63 < w then None else Some (w, drop (length u) s2)))"

lemma leadingInt_length: "leadingInt s x = Some (y, r) \<Longrightarrow> length r \<le> length s"
  by (induction s x rule: leadingInt.induct) (auto simp: Let_def split: if_splits)

lemma leadingFraction_length: "leadingFraction s x k b = (y, z, r) \<Longrightarrow> length r \<le> length s"
  by (induction s x k b rule: leadingFraction.induct) (force simp: Let_def split: if_splits)+

lemma duration_part_length:
  assumes "duration_part rnd s = Some (w, r)" shows "length r < length s"
proof -
  obtain v s1 where s1: "leadingInt s 0 = Some (v, s1)"
    using assms by (auto simp: duration_part_def split: option.splits)
  obtain f scale s2 where s2: "(if s1 \<noteq> [] \<and> hd s1 = CHR ''.'' then leadingFraction (tl s1) 0 1 False else (0, 1, s1)) = (f, scale, s2)"
    by (rule prod_cases3)
  let ?u = "takeWhile (\<lambda>c. c \<noteq> CHR ''.'' \<and> \<not> is_digit c) s2"
  have "r = drop (length ?u) s2" and u: "?u \<noteq> []"
    using assms unfolding duration_part_def s1 by (auto simp: s2 Let_def split: if_splits option.splits)
  moreover have "s2 \<noteq> []" using u by auto
  ultimately have "length r < length s2" by (simp add: diff_less)
  also have "length s2 \<le> length s1" using s2 by (auto dest: leadingFraction_length split: if_splits)
  also have "length s1 \<le> length s" using s1 by (rule leadingInt_length)
  finally show ?thesis .
qed

function duration_parts :: "(real \<Rightarrow> real) \<Rightarrow> string \<Rightarrow> nat \<Rightarrow> nat option" where
  "duration_parts rnd s d =
     (if s = [] then Some d
      else if hd s \<noteq> CHR ''.'' \<and> \<not> is_digit (hd s) then None
      else case duration_part rnd s of
        None \<Rightarrow> None
      | Some (v, r) \<Rightarrow> let d = (d + v) mod 2 ^ 64 in if 2 ^ 63 < d then None else duration_parts rnd r d)"
  by pat_completeness auto
termination by (relation "measure (\<lambda>(rnd, s, d). length s)") (auto simp: duration_part_length)

declare duration_parts.simps [simp del]

text \<open>The sum of the parts is a 64-bit one.\<close>

definition ParseDuration :: "(real \<Rightarrow> real) \<Rightarrow> string \<Rightarrow> Duration option" where
  "ParseDuration rnd s0 =
     (let neg = (s0 \<noteq> [] \<and> hd s0 = CHR ''-'');
          s = (if s0 \<noteq> [] \<and> (hd s0 = CHR ''-'' \<or> hd s0 = CHR ''+'') then tl s0 else s0)
      in if s = ''0'' then Some 0
         else if s = [] then None
         else case duration_parts rnd s 0 of
           None \<Rightarrow> None
         | Some d \<Rightarrow>
             if neg then Some (- of_nat d)
             else if 2 ^ 63 - 1 < d then None
             else Some (of_nat d))"

section \<open>A decimal is read back\<close>

lemma digits_grow: "(n::nat) \<le> foldl (\<lambda>a c. a * 10 + digit_val c) n ds"
proof (induction ds arbitrary: n)
  case (Cons c ds)
  have "n \<le> n * 10 + digit_val c" by simp
  also have "\<dots> \<le> foldl (\<lambda>a c. a * 10 + digit_val c) (n * 10 + digit_val c) ds" by (rule Cons)
  finally show ?case by simp
qed simp

lemma go_digit_char: "d < 10 \<Longrightarrow> go_digit (digit_char d) = Some d \<and> digit_char d \<noteq> CHR ''_''"
  using less_16_cases [of d] by (auto simp: go_digit_def digit_char_def)

lemma uint_digits_dec:
  "list_all (\<lambda>c. c \<in> digit_char ` {..<10}) ds \<Longrightarrow> foldl (\<lambda>a c. a * 10 + digit_val c) n ds < 2 ^ 64 \<Longrightarrow>
   uint_digits 10 ds n = Inr (foldl (\<lambda>a c. a * 10 + digit_val c) n ds)"
proof (induction ds arbitrary: n)
  case (Cons c ds)
  then obtain d where d: "d < 10" "c = digit_char d" by auto
  have "n * 10 + d \<le> foldl (\<lambda>a c. a * 10 + digit_val c) (n * 10 + d) ds" by (rule digits_grow)
  then have "\<not> 2 ^ 64 \<le> n * 10 + d" using Cons.prems(2) d by simp
  then show ?case using Cons d go_digit_char [OF d(1)] by simp
qed simp

lemma nat_digits_head: "hd (nat_digits 10 n) = CHR ''0'' \<longleftrightarrow> n = 0"
proof (induction "10 :: nat" n rule: nat_digits.induct)
  case (1 n)
  show ?case
  proof (cases "n < 10")
    case True
    then show ?thesis using less_16_cases [of n] by (auto simp: nat_digits.simps [of 10 n] digit_char_def)
  next
    case False
    moreover have "nat_digits 10 (n div 10) \<noteq> []" by (simp add: nat_digits.simps [of 10 "n div 10"])
    ultimately show ?thesis using 1 by (simp add: nat_digits.simps [of 10 n] hd_append)
  qed
qed

lemma ParseUint_dec:
  assumes "n < 2 ^ 64" shows "ParseUint0 (dec n) = Inr n"
proof (cases "n = 0")
  case True
  then show ?thesis
    by (simp add: ParseUint0_def base_prefix_def has_prefix_of_def dec_def nat_digits.simps [of 10 0] digit_char_def)
next
  case False
  have digits: "list_all (\<lambda>c. c \<in> digit_char ` {..<10}) (dec n)"
    using set_nat_digits [of 10 n] by (auto simp: list_all_iff dec_def)
  have "uint_digits 10 (dec n) 0 = Inr (digits_val 10 (dec n))"
    unfolding digits_val_def by (rule uint_digits_dec [OF digits]) (use assms digits_val_dec [of n] in \<open>simp add: digits_val_def\<close>)
  moreover have "hd (dec n) \<noteq> CHR ''0''" using False by (simp add: dec_def nat_digits_head)
  moreover have "CHR ''_'' \<notin> set (dec n)" by (rule not_in_dec) simp
  ultimately show ?thesis by (simp add: ParseUint0_def base_prefix_def digits_val_dec)
qed

lemma ParseInt_dec:
  assumes "n < 2 ^ 63" shows "ParseInt0 (dec n) = Inr (int n)"
proof -
  have "hd (dec n) \<in> set (dec n)" by (rule hd_in_set) simp
  then have "hd (dec n) \<in> set ''0123456789''" using set_dec [of n] by blast
  then have "hd (dec n) \<noteq> CHR ''-''" "hd (dec n) \<noteq> CHR ''+''" by auto
  moreover have "n < 2 ^ 64" using assms by (rule less_trans) simp
  ultimately show ?thesis using assms by (simp add: ParseInt0_def ParseUint_dec Let_def)
qed

lemma ParseDuration_examples:
  "ParseDuration rnd ''2s'' = Some 2000000000" "ParseDuration rnd ''-1m30s'' = Some (- 90000000000)"
  "ParseDuration rnd ''10'' = None" "ParseDuration rnd ''0'' = Some 0" "ParseDuration rnd ''s'' = None"
  "ParseDuration id ''1.5h'' = Some 5400000000000"
  by (simp_all add: ParseDuration_def duration_parts.simps duration_part_def unitMap_def is_digit_def Let_def)

lemma ParseInt_examples:
  "ParseInt0 ''0x1F'' = Inr 31" "ParseInt0 ''-0b101'' = Inr (-5)" "ParseInt0 ''1_000'' = Inr 1000" "ParseInt0 ''017'' = Inr 15"
  "ParseInt0 ''1__0'' = Inl ErrSyntax" "ParseInt0 ''12a'' = Inl ErrSyntax" "ParseInt0 ''9223372036854775808'' = Inl ErrRange"
  "ParseInt0 ''0x_1'' = Inr 1" "ParseInt0 ''-'' = Inl ErrSyntax"
  by (simp_all add: ParseInt0_def ParseUint0_def base_prefix_def has_prefix_of_def is_letter_def lower_def go_digit_def
     underscoreOK_def Let_def)

end
