(* ===== verification/Agent.thy ===== *)
theory Agent
  imports DashboardState WallClock PidFilter Loader GoNumber
begin

text \<open>
  \<^verbatim>\<open>cmd/krnlsentry/main.go\<close>, the pieces: the options and the engine configuration made of them, the
  counters, what happens to one event, the metrics the dashboard reads and the texts of the summary.
  \<open>Pump\<close>, \<open>Replay\<close> and \<open>Startup\<close> put them together.
\<close>

section \<open>The values of the options\<close>

record config =
  cf_pid :: int
  cf_outputPath :: string
  cf_rules :: string
  cf_verbose :: bool
  cf_debugPath :: string
  cf_minSeverity :: string
  cf_window :: Duration
  cf_noColor :: bool
  cf_forceColor :: bool
  cf_ignoreLoop :: bool
  cf_ignoreSelf :: bool
  cf_statsInterval :: Duration
  cf_showVersion :: bool
  cf_listRules :: bool
  cf_replayPath :: string
  cf_replaySpeed :: float64
  cf_dashboard :: bool
  cf_dedupWindow :: Duration
  cf_noStoryline :: bool
  cf_chainThreshold :: int
  cf_chainWindow :: Duration

text \<open>What the options are when none is given.\<close>

definition parseFlags_defaults :: config where
  "parseFlags_defaults =
     \<lparr>cf_pid = 0, cf_outputPath = ''./alerts.jsonl'', cf_rules = [], cf_verbose = False,
      cf_debugPath = ''./debug.jsonl'', cf_minSeverity = ''LOW'', cf_window = 2000000000, cf_noColor = False,
      cf_forceColor = False, cf_ignoreLoop = False, cf_ignoreSelf = False, cf_statsInterval = 0,
      cf_showVersion = False, cf_listRules = False, cf_replayPath = [], cf_replaySpeed = Finite 0, cf_dashboard = False,
      cf_dedupWindow = 5000000000, cf_noStoryline = False, cf_chainThreshold = 3, cf_chainWindow = 600000000000\<rparr>"

definition replaying :: "config \<Rightarrow> bool" where
  "replaying cfg \<longleftrightarrow> cf_replayPath cfg \<noteq> []"

text \<open>\<open>base\<close> is \<open>DefaultConfig()\<close> on this host.\<close>

definition engine_config :: "config \<Rightarrow> readFile \<Rightarrow> Config \<Rightarrow> Config" where
  "engine_config cfg readFile base =
    (let c = base\<lparr>cfg_RevShellWindow := cf_window cfg, cfg_IgnoreLoopback := cf_ignoreLoop cfg,
               cfg_IgnoreSelfProc := cf_ignoreSelf cfg, cfg_DedupWindow := cf_dedupWindow cfg,
               cfg_Storyline := (cfg_Storyline base)\<lparr>sc_Enabled := \<not> cf_noStoryline cfg,
                 sc_Threshold := cf_chainThreshold cfg, sc_Window := cf_chainWindow cfg\<rparr>\<rparr>
     in if replaying cfg then c\<lparr>cfg_SelfPID := 0\<rparr>
        else c\<lparr>cfg_Storyline := (cfg_Storyline c)\<lparr>sc_Lookup := Some (lookupProc readFile)\<rparr>\<rparr>)"

fun split_parts :: "string list \<Rightarrow> string list" where
  "split_parts [] = []"
| "split_parts (p # ps) = (let p = TrimSpace p in if p \<noteq> [] then p # split_parts ps else split_parts ps)"

definition splitRules :: "string \<Rightarrow> string list" where
  "splitRules s = (if TrimSpace s = [] then [] else split_parts (split_on CHR '','' s))"

definition enabledRuleNames :: "Engine \<Rightarrow> string list" where
  "enabledRuleNames e =
     map rule_Name (en_rules e) @ (if Engine_Correlating e then [RuleNameAttackChain] else [])"

definition displayMode :: "config \<Rightarrow> string" where
  "displayMode cfg = (if cf_replayPath cfg \<noteq> [] then ''replay'' else ''live'')"

definition scopeLabel :: "int \<Rightarrow> string" where
  "scopeLabel pid = (if pid > 0 then ''PID '' @ dec (nat pid) @ '' + descendants'' else ''system-wide'')"

section \<open>Sinks of the agent\<close>

text \<open>The outside world the sinks write to.\<close>

record world =
  w_log :: log_host
  w_console :: console_host

text \<open>The console keeps what it has printed, the log file its content, the dashboard its counters.\<close>

datatype sink = LogSink log_file | ConsoleOut ConsoleSink string | DashOut Dashboard

definition sink_write :: "world \<Rightarrow> sink \<Rightarrow> Alert \<Rightarrow> sink \<times> goerror option" where
  "sink_write w s a =
     (case s of
        LogSink f \<Rightarrow> (case JSONL_Write (w_log w) f a of (f, err) \<Rightarrow> (LogSink f, err))
      | ConsoleOut c out \<Rightarrow> (case Console_Write (w_console w) c a of (t, err) \<Rightarrow> (ConsoleOut c (out @ t), err))
      | DashOut d \<Rightarrow> (case Dashboard_Write d (Some a) of (d, err) \<Rightarrow> (DashOut d, err)))"

section \<open>One event\<close>

record counters =
  ct_observed :: u64
  ct_alerts :: u64
  ct_queueDropped :: u64
  ct_writeErrors :: u64

record agent =
  ag_engine :: Engine
  ag_sinks :: "sink option list"
  ag_debug :: "log_file option"
  ag_filter :: "pidFilter option"
  ag_counters :: counters

definition bump_observed :: "agent \<Rightarrow> agent" where
  "bump_observed ag = ag\<lparr>ag_counters := (ag_counters ag)\<lparr>ct_observed := ct_observed (ag_counters ag) + 1\<rparr>\<rparr>"

definition bump_alerts :: "agent \<Rightarrow> agent" where
  "bump_alerts ag = ag\<lparr>ag_counters := (ag_counters ag)\<lparr>ct_alerts := ct_alerts (ag_counters ag) + 1\<rparr>\<rparr>"

definition bump_dropped :: "agent \<Rightarrow> agent" where
  "bump_dropped ag = ag\<lparr>ag_counters := (ag_counters ag)\<lparr>ct_queueDropped := ct_queueDropped (ag_counters ag) + 1\<rparr>\<rparr>"

text \<open>\<open>writeErrors.Add(1)\<close> on an error; the log line is not modelled.\<close>

definition count_error :: "goerror option \<Rightarrow> agent \<Rightarrow> agent" where
  "count_error err ag =
     (case err of
        None \<Rightarrow> ag
      | Some _ \<Rightarrow> ag\<lparr>ag_counters := (ag_counters ag)\<lparr>ct_writeErrors := ct_writeErrors (ag_counters ag) + 1\<rparr>\<rparr>)"

definition in_scope :: "agent \<Rightarrow> Event \<Rightarrow> agent \<times> bool" where
  "in_scope ag ev =
     (case ag_filter ag of
        None \<Rightarrow> (ag, True)
      | Some f \<Rightarrow> (case Allow f ev of (f, ok) \<Rightarrow> (ag\<lparr>ag_filter := Some f\<rparr>, ok)))"

definition write_debug :: "world \<Rightarrow> Event \<Rightarrow> agent \<Rightarrow> agent" where
  "write_debug w ev ag =
     (case ag_debug ag of
        None \<Rightarrow> ag
      | Some f \<Rightarrow> (case WriteEvent (w_log w) f ev of (f, err) \<Rightarrow> count_error err (ag\<lparr>ag_debug := Some f\<rparr>)))"

definition deliver :: "world \<Rightarrow> Alert \<Rightarrow> agent \<Rightarrow> agent" where
  "deliver w a ag =
     (case MultiSink_Write (sink_write w) (ag_sinks ag) a of
        (sinks, err) \<Rightarrow> count_error err ((bump_alerts ag)\<lparr>ag_sinks := sinks\<rparr>))"

definition process :: "world \<Rightarrow> agent \<Rightarrow> Event \<Rightarrow> agent" where
  "process w ag ev =
     (case in_scope ag ev of
        (ag, False) \<Rightarrow> ag
      | (ag, True) \<Rightarrow>
          let ag = write_debug w ev (bump_observed ag) in
          case Engine_Evaluate (ag_engine ag) ev of
            (e, alerts) \<Rightarrow> fold (deliver w) alerts (ag\<lparr>ag_engine := e\<rparr>))"

section \<open>Metrics\<close>

text \<open>\<open>kstats\<close> is what \<open>collector.Stats()\<close> answers, \<open>None\<close> without a collector.\<close>

definition metrics_refresh :: "bool \<Rightarrow> (Stats \<times> goerror option) option \<Rightarrow> real \<Rightarrow> agent \<Rightarrow> Metrics" where
  "metrics_refresh isReplay kstats progress ag =
    (let es = Engine_Stats (ag_engine ag); c = ag_counters ag;
         m = \<lparr>me_Observed = ct_observed c, me_QueueDropped = ct_queueDropped c, me_KernelEvents = 0,
              me_KernelDrops = 0, me_WriteErrors = ct_writeErrors c,
              me_TrackedProcs = Tracker_Len (en_tracker (ag_engine ag)), me_Storylines = es_Storylines es,
              me_AttackChains = es_AttackChains es, me_Suppressed = es_Suppressed es, me_Progress = -1\<rparr>;
         m = (if isReplay then m\<lparr>me_Progress := progress\<rparr> else m)
     in case kstats of
          Some (s, None) \<Rightarrow> m\<lparr>me_KernelEvents := sx_Events s, me_KernelDrops := sx_Dropped s\<rparr>
        | _ \<Rightarrow> m)"

text \<open>A snapshot is taken when the source is made, before a collector is attached.\<close>

definition newMetricsSource :: "bool \<Rightarrow> agent \<Rightarrow> Metrics" where
  "newMetricsSource isReplay ag = metrics_refresh isReplay None (-1) ag"

definition progressOf :: "(real \<Rightarrow> real) \<Rightarrow> int \<Rightarrow> int \<Rightarrow> real" where
  "progressOf rnd read whole =
     (if whole \<le> 0 then -1 else if read \<ge> whole then 1 else rnd (rnd (of_int read) / rnd (of_int whole)))"


section \<open>Reports\<close>

text \<open>The attributes of the periodic log line.\<close>

definition logStats :: "Stats \<times> goerror option \<Rightarrow> agent \<Rightarrow> (string \<times> nat) list" where
  "logStats kstats ag =
    (let c = ag_counters ag; e = ag_engine ag
     in [(''observed'', unat (ct_observed c)), (''alerts'', unat (ct_alerts c)),
         (''queue_dropped'', unat (ct_queueDropped c)), (''tracked_processes'', Tracker_Len (en_tracker e)),
         (''open_storylines'', es_Storylines (Engine_Stats e)), (''attack_chains'', unat (es_AttackChains (Engine_Stats e)))] @
        (case kstats of
           (s, None) \<Rightarrow> [(''kernel_events'', unat (sx_Events s)), (''kernel_dropped'', unat (sx_Dropped s))]
         | (s, Some _) \<Rightarrow> []))"

definition summary_top :: string where
  "summary_top = concat (replicate 2 hline) @ '' summary '' @ concat (replicate 29 hline)"

definition summary_end :: string where
  "summary_end = concat (replicate 40 hline)"

text \<open>The summary on standard error and the number of lost events the warning reports, \<open>None\<close> when there is
  no warning.  Without a collector there are no kernel figures.\<close>

definition printSummary :: "(Stats \<times> goerror option) option \<Rightarrow> agent \<Rightarrow> string \<times> u64 option" where
  "printSummary kstats ag =
    (let c = ag_counters ag; es = Engine_Stats (ag_engine ag);
         ks = (case kstats of Some (s, None) \<Rightarrow> Some s | _ \<Rightarrow> None);
         text =
           newline # line summary_top @
           line (''  events observed : '' @ FormatUint (ct_observed c)) @
           line (''  alerts raised   : '' @ FormatUint (ct_alerts c)) @
           line (''  rules enabled   : '' @ dec (length (en_rules (ag_engine ag)))) @
           (if es_Suppressed es > 0
            then line (''  alerts folded   : '' @ FormatUint (es_Suppressed es) @ ''  (duplicates within --dedup-window)'')
            else []) @
           (if Engine_Correlating (ag_engine ag)
            then line (''  attack chains   : '' @ FormatUint (es_AttackChains es)) else []) @
           (case ks of
              Some s \<Rightarrow>
                line (''  kernel events   : '' @ FormatUint (sx_Events s)) @
                (if sx_Dropped s > 0
                 then line (''  kernel drops    : '' @ FormatUint (sx_Dropped s) @ ''  (ring buffer full)'') else [])
            | None \<Rightarrow> []) @
           (if ct_queueDropped c > 0
            then line (''  queue drops     : '' @ FormatUint (ct_queueDropped c) @ ''  (detection engine fell behind)'')
            else []) @
           (if ct_writeErrors c > 0 then line (''  write errors    : '' @ FormatUint (ct_writeErrors c)) else []) @
           line summary_end;
         lost = ct_queueDropped c + (case ks of Some s \<Rightarrow> sx_Dropped s | None \<Rightarrow> 0)
     in (text, if lost > 0 then Some lost else None))"

definition rule_text :: "Rule \<Rightarrow> string" where
  "rule_text r =
     line (''  '' @ rule_Name r) @ line (''      '' @ rule_Description r) @
     concat (map (\<lambda>t. line (''      '' @ pad_right 12 (tech_ID t) @ '' '' @ tech_Name t)) (rule_Techniques r)) @
     [newline]"

definition printRules :: string where
  "printRules =
     line ''Available detection rules:'' @ [newline] @ concat (map rule_text AllRules) @
     line (''  '' @ RuleNameAttackChain) @
     line ''      Correlates alerts from one process tree; raised when they span'' @
     line ''      --chain-threshold distinct ATT&CK tactics (disable with --no-storyline)'' @
     concat (map (\<lambda>t. line (''      '' @ pad_right 12 (tac_ID t) @ '' '' @ tac_Name t)) panel_tactics) @
     [newline]"


section \<open>What happens to an event\<close>

definition written_all :: "world \<Rightarrow> Alert list \<Rightarrow> sink \<Rightarrow> sink" where
  "written_all w alerts s = fold (\<lambda>a s. fst (sink_write w s a)) alerts s"

lemma count_error_keeps [simp]:
  "ag_engine (count_error err ag) = ag_engine ag" "ag_sinks (count_error err ag) = ag_sinks ag"
  "ag_debug (count_error err ag) = ag_debug ag" "ag_filter (count_error err ag) = ag_filter ag"
  "ct_observed (ag_counters (count_error err ag)) = ct_observed (ag_counters ag)"
  "ct_alerts (ag_counters (count_error err ag)) = ct_alerts (ag_counters ag)"
  "ct_queueDropped (ag_counters (count_error err ag)) = ct_queueDropped (ag_counters ag)"
  by (simp_all add: count_error_def split: option.split)

lemma deliver_keeps [simp]:
  "ag_engine (deliver w a ag) = ag_engine ag" "ag_debug (deliver w a ag) = ag_debug ag"
  "ag_filter (deliver w a ag) = ag_filter ag"
  "ct_observed (ag_counters (deliver w a ag)) = ct_observed (ag_counters ag)"
  "ct_alerts (ag_counters (deliver w a ag)) = ct_alerts (ag_counters ag) + 1"
  "ct_queueDropped (ag_counters (deliver w a ag)) = ct_queueDropped (ag_counters ag)"
  "ag_sinks (deliver w a ag) = map (map_option (\<lambda>s. fst (sink_write w s a))) (ag_sinks ag)"
  by (simp_all add: deliver_def bump_alerts_def MultiSink_Write_def Multi_each_map)

lemma delivers_keep [simp]:
  "ag_engine (fold (deliver w) as ag) = ag_engine ag" "ag_debug (fold (deliver w) as ag) = ag_debug ag"
  "ag_filter (fold (deliver w) as ag) = ag_filter ag"
  "ct_observed (ag_counters (fold (deliver w) as ag)) = ct_observed (ag_counters ag)"
  "ct_alerts (ag_counters (fold (deliver w) as ag)) = ct_alerts (ag_counters ag) + of_nat (length as)"
  "ct_queueDropped (ag_counters (fold (deliver w) as ag)) = ct_queueDropped (ag_counters ag)"
  by (induction as arbitrary: ag) (simp_all add: algebra_simps)

lemma delivers_sinks [simp]:
  "ag_sinks (fold (deliver w) as ag) = map (map_option (written_all w as)) (ag_sinks ag)"
proof (induction as arbitrary: ag)
  case Nil
  have "written_all w [] = id" by (rule ext) (simp add: written_all_def)
  then have "map (map_option (written_all w [])) (ag_sinks ag) = ag_sinks ag" by (simp only: option.map_id0 list.map_id)
  then show ?case by simp
next
  case (Cons a as)
  have "map_option (written_all w as) \<circ> map_option (\<lambda>s. fst (sink_write w s a)) = map_option (written_all w (a # as))"
    by (rule ext, rename_tac x, case_tac x) (simp_all add: written_all_def)
  then show ?case by (simp add: Cons)
qed

lemma write_debug_keeps [simp]:
  "ag_engine (write_debug w ev ag) = ag_engine ag" "ag_sinks (write_debug w ev ag) = ag_sinks ag"
  "ag_filter (write_debug w ev ag) = ag_filter ag"
  "ct_observed (ag_counters (write_debug w ev ag)) = ct_observed (ag_counters ag)"
  "ct_alerts (ag_counters (write_debug w ev ag)) = ct_alerts (ag_counters ag)"
  "ct_queueDropped (ag_counters (write_debug w ev ag)) = ct_queueDropped (ag_counters ag)"
  by (simp_all add: write_debug_def split: option.split prod.split)

lemma bump_observed_keeps [simp]:
  "ag_engine (bump_observed ag) = ag_engine ag" "ag_sinks (bump_observed ag) = ag_sinks ag"
  "ag_filter (bump_observed ag) = ag_filter ag" "ag_debug (bump_observed ag) = ag_debug ag"
  "ct_observed (ag_counters (bump_observed ag)) = ct_observed (ag_counters ag) + 1"
  "ct_alerts (ag_counters (bump_observed ag)) = ct_alerts (ag_counters ag)"
  "ct_queueDropped (ag_counters (bump_observed ag)) = ct_queueDropped (ag_counters ag)"
  by (simp_all add: bump_observed_def)

lemma in_scope_keeps [simp]:
  "ag_engine (fst (in_scope ag ev)) = ag_engine ag" "ag_sinks (fst (in_scope ag ev)) = ag_sinks ag"
  "ag_debug (fst (in_scope ag ev)) = ag_debug ag" "ag_counters (fst (in_scope ag ev)) = ag_counters ag"
  by (simp_all add: in_scope_def split: option.split prod.split)

lemma process_cases:
  "process w ag ev =
     (if snd (in_scope ag ev) then
        fold (deliver w) (snd (Engine_Evaluate (ag_engine ag) ev))
          ((write_debug w ev (bump_observed (fst (in_scope ag ev))))\<lparr>ag_engine := fst (Engine_Evaluate (ag_engine ag) ev)\<rparr>)
      else fst (in_scope ag ev))"
proof (cases "in_scope ag ev")
  case (Pair ag1 ok)
  then have "ag_engine ag1 = ag_engine ag" using in_scope_keeps(1) [of ag ev] by simp
  then show ?thesis using Pair by (cases ok) (simp_all add: process_def Let_def split_def)
qed

lemma process_keeps_dropped [simp]:
  "ct_queueDropped (ag_counters (process w ag ev)) = ct_queueDropped (ag_counters ag)"
  by (simp add: process_cases)

text \<open>C13. An event in scope is evaluated exactly once, and every alert it raises reaches every sink, in the
  order it was raised and whatever the other sinks, the debug log and earlier writes made of theirs; the
  counters count the event and its alerts.  An event out of scope reaches nothing: not the engine, not
  a log, not a counter.\<close>

theorem process_delivers:
  "let e = Engine_Evaluate (ag_engine ag) ev; c = ag_counters ag; ag' = process w ag ev in
   if snd (in_scope ag ev) then
     ag_engine ag' = fst e \<and> ag_sinks ag' = map (map_option (written_all w (snd e))) (ag_sinks ag) \<and>
     ct_observed (ag_counters ag') = ct_observed c + 1 \<and>
     ct_alerts (ag_counters ag') = ct_alerts c + of_nat (length (snd e))
   else ag_engine ag' = ag_engine ag \<and> ag_sinks ag' = ag_sinks ag \<and> ag_debug ag' = ag_debug ag \<and> ag_counters ag' = c"
  by (simp add: process_cases Let_def)

end
