(* ===== verification/Pump.thy ===== *)
theory Pump
  imports Agent
begin

text \<open>
  \<open>pump\<close> of \<^verbatim>\<open>cmd/krnlsentry/main.go\<close>: the collector's goroutine fills a bounded channel and never blocks,
  the main loop drains it.  The interleavings are the runs of a step relation.  A state has the events
  the collector has still to hand over, the channel, what \<open>Run\<close> returns in the end (\<open>None\<close> while it never
  does), the agent, the metrics snapshot, the summary printed at the end and, for the statements, the
  events taken from the channel.  What \<open>collector.Stats()\<close> answers is any value.  The statistics line writes
  to the log only; closing the display is left to \<open>Startup\<close>, whose deferred close closes the same dashboard.
\<close>

definition eventQueueDepth :: nat where [simp]: "eventQueueDepth = 4096"

record pump =
  pu_source :: "Event list"
  pu_run :: "goerror option option"
  pu_queue :: "Event list"
  pu_open :: bool
  pu_agent :: agent
  pu_snap :: Metrics
  pu_taken :: "Event list"
  pu_summary :: "(string \<times> u64 option) option"
  pu_returned :: "goerror option option"

definition pump_start :: "run_state \<Rightarrow> agent \<Rightarrow> Metrics \<Rightarrow> pump" where
  "pump_start rn ag snap =
     \<lparr>pu_source = rn_handled rn, pu_run = rn_result rn, pu_queue = [], pu_open = True, pu_agent = ag,
      pu_snap = snap, pu_taken = [], pu_summary = None, pu_returned = None\<rparr>"

text \<open>The callback of the collector: a full channel drops the event and counts it.\<close>

definition hand_over :: "Event \<Rightarrow> pump \<Rightarrow> pump" where
  "hand_over ev s =
     (if length (pu_queue s) < eventQueueDepth then s\<lparr>pu_queue := pu_queue s @ [ev]\<rparr>
      else s\<lparr>pu_agent := bump_dropped (pu_agent s)\<rparr>)"

inductive pump_step :: "world \<Rightarrow> pump \<Rightarrow> pump \<Rightarrow> bool" for w where
  HandOver: "pu_source s = ev # rest \<Longrightarrow> pump_step w s (hand_over ev (s\<lparr>pu_source := rest\<rparr>))"
| CollectorEnds: "pu_source s = [] \<Longrightarrow> pu_run s \<noteq> None \<Longrightarrow> pu_open s \<Longrightarrow> pump_step w s (s\<lparr>pu_open := False\<rparr>)"
| Receive: "pu_returned s = None \<Longrightarrow> pu_queue s = ev # rest \<Longrightarrow>
    pump_step w s (s\<lparr>pu_queue := rest, pu_agent := process w (pu_agent s) ev, pu_taken := pu_taken s @ [ev]\<rparr>)"
| Refresh: "pu_returned s = None \<Longrightarrow>
    pump_step w s (s\<lparr>pu_snap := metrics_refresh False (Some kstats) (-1) (pu_agent s)\<rparr>)"
| Return: "pu_returned s = None \<Longrightarrow> pu_queue s = [] \<Longrightarrow> \<not> pu_open s \<Longrightarrow>
    pump_step w s (s\<lparr>pu_snap := metrics_refresh False (Some kstats) (-1) (pu_agent s),
      pu_summary := Some (printSummary (Some kstats') (pu_agent s)), pu_returned := pu_run s\<rparr>)"

text \<open>The same steps as a function of the choice a scheduler makes; a step that is not possible is \<open>None\<close>.\<close>

datatype choice = Hand | End | Take | Tick_refresh "Stats \<times> goerror option" | Leave "Stats \<times> goerror option" "Stats \<times> goerror option"

definition pump_do :: "world \<Rightarrow> choice \<Rightarrow> pump \<Rightarrow> pump option" where
  "pump_do w c s =
     (case c of
        Hand \<Rightarrow> (case pu_source s of [] \<Rightarrow> None | ev # rest \<Rightarrow> Some (hand_over ev (s\<lparr>pu_source := rest\<rparr>)))
      | End \<Rightarrow> (if pu_source s = [] \<and> pu_run s \<noteq> None \<and> pu_open s then Some (s\<lparr>pu_open := False\<rparr>) else None)
      | Take \<Rightarrow>
          (if pu_returned s \<noteq> None then None
           else case pu_queue s of
             [] \<Rightarrow> None
           | ev # rest \<Rightarrow> Some (s\<lparr>pu_queue := rest, pu_agent := process w (pu_agent s) ev, pu_taken := pu_taken s @ [ev]\<rparr>))
      | Tick_refresh kstats \<Rightarrow>
          (if pu_returned s \<noteq> None then None
           else Some (s\<lparr>pu_snap := metrics_refresh False (Some kstats) (-1) (pu_agent s)\<rparr>))
      | Leave kstats kstats' \<Rightarrow>
          (if pu_returned s \<noteq> None \<or> pu_queue s \<noteq> [] \<or> pu_open s then None
           else Some (s\<lparr>pu_snap := metrics_refresh False (Some kstats) (-1) (pu_agent s),
             pu_summary := Some (printSummary (Some kstats') (pu_agent s)), pu_returned := pu_run s\<rparr>)))"

fun pump_exec :: "world \<Rightarrow> choice list \<Rightarrow> pump \<Rightarrow> pump" where
  "pump_exec w [] s = s"
| "pump_exec w (c # cs) s = (case pump_do w c s of None \<Rightarrow> pump_exec w cs s | Some s' \<Rightarrow> pump_exec w cs s')"

inductive_cases pump_stepE: "pump_step w s s'"

inductive pump_reaches :: "world \<Rightarrow> pump \<Rightarrow> pump \<Rightarrow> bool" for w where
  Here: "pump_reaches w s s"
| Later: "pump_reaches w s s' \<Longrightarrow> pump_step w s' s'' \<Longrightarrow> pump_reaches w s s''"

section \<open>The function runs the relation\<close>

lemma pump_do_step: "pump_step w s s' \<longleftrightarrow> (\<exists>c. pump_do w c s = Some s')"
proof
  assume "pump_step w s s'"
  then show "\<exists>c. pump_do w c s = Some s'"
  proof cases
    case (HandOver ev rest)
    then show ?thesis by (intro exI [of _ Hand]) (simp add: pump_do_def)
  next
    case CollectorEnds
    then show ?thesis by (intro exI [of _ End]) (simp add: pump_do_def)
  next
    case (Receive ev rest)
    then show ?thesis by (intro exI [of _ Take]) (simp add: pump_do_def)
  next
    case (Refresh kstats)
    then show ?thesis by (intro exI [of _ "Tick_refresh kstats"]) (simp add: pump_do_def)
  next
    case (Return kstats' kstats)
    then show ?thesis by (intro exI [of _ "Leave kstats kstats'"]) (simp add: pump_do_def)
  qed
next
  assume "\<exists>c. pump_do w c s = Some s'"
  then obtain c where c: "pump_do w c s = Some s'" by blast
  show "pump_step w s s'"
  proof (cases c)
    case Hand
    with c show ?thesis by (auto simp: pump_do_def split: list.splits intro: HandOver)
  next
    case End
    with c show ?thesis by (auto simp: pump_do_def split: if_splits intro: CollectorEnds)
  next
    case Take
    with c show ?thesis by (auto simp: pump_do_def split: list.splits if_splits intro: Receive)
  next
    case (Tick_refresh kstats)
    with c show ?thesis by (auto simp: pump_do_def split: if_splits intro: Refresh)
  next
    case (Leave kstats kstats')
    with c show ?thesis by (auto simp: pump_do_def split: if_splits intro: Return)
  qed
qed

lemma pump_reaches_trans: "pump_reaches w s' s'' \<Longrightarrow> pump_reaches w s s' \<Longrightarrow> pump_reaches w s s''"
  by (induction rule: pump_reaches.induct) (auto intro: pump_reaches.intros)

lemma pump_exec_reaches: "pump_reaches w s (pump_exec w cs s)"
proof (induction cs arbitrary: s)
  case (Cons c cs)
  have "pump_reaches w s s'" if "pump_do w c s = Some s'" for s'
    using that pump_do_step Here Later by metis
  moreover have "pump_reaches w s' (pump_exec w cs s')" for s' by (rule Cons)
  ultimately have "pump_reaches w s (pump_exec w cs s')" if "pump_do w c s = Some s'" for s'
    using that pump_reaches_trans by blast
  then show ?case using Cons by (simp split: option.split)
qed (simp add: Here)

lemma pump_exec_append: "pump_exec w (cs @ cs') s = pump_exec w cs' (pump_exec w cs s)"
  by (induction cs arbitrary: s) (simp_all split: option.split)

lemma pump_reaches_exec: "pump_reaches w s s' \<Longrightarrow> \<exists>cs. pump_exec w cs s = s'"
proof (induction rule: pump_reaches.induct)
  case (Here s)
  show ?case by (rule exI [of _ "[]"]) simp
next
  case (Later s s' s'')
  then obtain cs c where "pump_exec w cs s = s'" "pump_do w c s' = Some s''" using pump_do_step by metis
  then show ?case by (intro exI [of _ "cs @ [c]"]) (simp add: pump_exec_append)
qed

section \<open>Counting a drop commutes with everything else\<close>

lemma dropped_fields [simp]:
  "ag_engine (bump_dropped ag) = ag_engine ag" "ag_sinks (bump_dropped ag) = ag_sinks ag"
  "ag_debug (bump_dropped ag) = ag_debug ag" "ag_filter (bump_dropped ag) = ag_filter ag"
  "ct_queueDropped (ag_counters (bump_dropped ag)) = ct_queueDropped (ag_counters ag) + 1"
  by (simp_all add: bump_dropped_def)

lemma count_error_dropped: "count_error err (bump_dropped ag) = bump_dropped (count_error err ag)"
  by (simp add: count_error_def bump_dropped_def split: option.split)

lemma deliver_dropped: "deliver w a (bump_dropped ag) = bump_dropped (deliver w a ag)"
proof -
  have "(bump_alerts (bump_dropped ag))\<lparr>ag_sinks := sinks\<rparr> = bump_dropped ((bump_alerts ag)\<lparr>ag_sinks := sinks\<rparr>)" for sinks
    by (simp add: bump_alerts_def bump_dropped_def)
  then show ?thesis by (simp add: deliver_def count_error_dropped split: prod.split)
qed

lemma process_dropped: "process w (bump_dropped ag) ev = bump_dropped (process w ag ev)"
proof -
  have scope: "fst (in_scope (bump_dropped ag) ev) = bump_dropped (fst (in_scope ag ev))"
    "snd (in_scope (bump_dropped ag) ev) = snd (in_scope ag ev)"
    by (simp_all add: in_scope_def split: option.split prod.split) (simp_all add: bump_dropped_def)
  have observed: "bump_observed (bump_dropped x) = bump_dropped (bump_observed x)" for x
    by (simp add: bump_observed_def bump_dropped_def)
  have debug: "write_debug w ev (bump_dropped x) = bump_dropped (write_debug w ev x)" for x
  proof -
    have "(bump_dropped x)\<lparr>ag_debug := f\<rparr> = bump_dropped (x\<lparr>ag_debug := f\<rparr>)" for f by (simp add: bump_dropped_def)
    then show ?thesis by (simp add: write_debug_def count_error_dropped split: option.split prod.split)
  qed
  have folds: "fold (deliver w) as (bump_dropped x) = bump_dropped (fold (deliver w) as x)" for as x
    by (induction as arbitrary: x) (simp_all add: deliver_dropped)
  have engine: "(bump_dropped x)\<lparr>ag_engine := e\<rparr> = bump_dropped (x\<lparr>ag_engine := e\<rparr>)" for x e
    by (simp add: bump_dropped_def)
  show ?thesis by (simp add: process_cases scope observed debug engine folds)
qed

definition processed :: "world \<Rightarrow> Event list \<Rightarrow> agent \<Rightarrow> agent" where
  "processed w evs ag = fold (\<lambda>ev ag. process w ag ev) evs ag"

lemma processed_snoc: "processed w (evs @ [ev]) ag = process w (processed w evs ag) ev"
  by (simp add: processed_def)

lemma process_drops: "process w ((bump_dropped ^^ d) ag) ev = (bump_dropped ^^ d) (process w ag ev)"
  by (induction d) (simp_all add: process_dropped)

section \<open>The invariant\<close>

text \<open>What has been handed over is what was taken, what waits in the channel and what was dropped.\<close>

definition pump_inv :: "world \<Rightarrow> agent \<Rightarrow> Event list \<Rightarrow> pump \<Rightarrow> bool" where
  "pump_inv w ag evs s \<longleftrightarrow>
     (\<exists>handed d. evs = handed @ pu_source s \<and> subseq (pu_taken s @ pu_queue s) handed \<and>
       length handed = length (pu_taken s) + length (pu_queue s) + d \<and> (0 < d \<longrightarrow> eventQueueDepth < length handed) \<and>
       length (pu_queue s) \<le> eventQueueDepth \<and>
       pu_agent s = (bump_dropped ^^ d) (processed w (pu_taken s) ag)) \<and>
     (pu_open s \<or> pu_source s = []) \<and>
     (pu_returned s = None \<or> pu_returned s = pu_run s \<and> pu_queue s = [] \<and> pu_source s = [])"

lemma pump_invI:
  assumes "evs = handed @ pu_source s" "subseq (pu_taken s @ pu_queue s) handed"
    "length handed = length (pu_taken s) + length (pu_queue s) + d" "0 < d \<longrightarrow> eventQueueDepth < length handed"
    "length (pu_queue s) \<le> eventQueueDepth" "pu_agent s = (bump_dropped ^^ d) (processed w (pu_taken s) ag)"
    "pu_open s \<or> pu_source s = []"
    "pu_returned s = None \<or> pu_returned s = pu_run s \<and> pu_queue s = [] \<and> pu_source s = []"
  shows "pump_inv w ag evs s"
  using assms unfolding pump_inv_def by blast

lemma pump_inv_step:
  assumes "pump_inv w ag evs s" and "pump_step w s s'" shows "pump_inv w ag evs s'"
proof -
  obtain handed d where h: "evs = handed @ pu_source s" "subseq (pu_taken s @ pu_queue s) handed"
    "length handed = length (pu_taken s) + length (pu_queue s) + d" "0 < d \<longrightarrow> eventQueueDepth < length handed"
    "length (pu_queue s) \<le> eventQueueDepth" "pu_agent s = (bump_dropped ^^ d) (processed w (pu_taken s) ag)"
    and o: "pu_open s \<or> pu_source s = []"
      "pu_returned s = None \<or> pu_returned s = pu_run s \<and> pu_queue s = [] \<and> pu_source s = []"
    using assms(1) unfolding pump_inv_def by blast
  from assms(2) show ?thesis
  proof cases
    case (HandOver ev rest)
    show ?thesis
    proof (cases "length (pu_queue s) < eventQueueDepth")
      case True
      have "subseq ((pu_taken s @ pu_queue s) @ [ev]) (handed @ [ev])" using h(2) by (rule list_emb_append_mono) simp
      then show ?thesis
        by (intro pump_invI [of _ "handed @ [ev]" _ d]) (use HandOver True h o in \<open>auto simp: hand_over_def\<close>)
    next
      case False
      have "subseq (pu_taken s @ pu_queue s) (handed @ [ev])" using h(2) by (rule list_emb_prefix)
      then show ?thesis
        by (intro pump_invI [of _ "handed @ [ev]" _ "Suc d"]) (use HandOver False h o in \<open>auto simp: hand_over_def\<close>)
    qed
  next
    case CollectorEnds
    then show ?thesis by (intro pump_invI [of _ handed _ d]) (use h o in auto)
  next
    case (Receive ev rest)
    then show ?thesis
      by (intro pump_invI [of _ handed _ d]) (use h o in \<open>auto simp: processed_snoc process_drops\<close>)
  next
    case Refresh
    then show ?thesis by (intro pump_invI [of _ handed _ d]) (use h o in auto)
  next
    case Return
    then show ?thesis by (intro pump_invI [of _ handed _ d]) (use h o in auto)
  qed
qed

lemma pump_inv_reaches:
  "pump_reaches w s s' \<Longrightarrow> pump_inv w ag evs s \<Longrightarrow> pump_inv w ag evs s'"
  by (induction rule: pump_reaches.induct) (auto intro: pump_inv_step)

lemma pump_inv_start: "pump_inv w ag (rn_handled rn) (pump_start rn ag snap)"
  by (rule pump_invI [of _ "[]" _ 0]) (simp_all add: pump_start_def processed_def)


lemma dropped_count: "ct_queueDropped (ag_counters ((bump_dropped ^^ d) ag)) = ct_queueDropped (ag_counters ag) + of_nat d"
  by (induction d) (simp_all add: algebra_simps)

lemma processed_keeps_dropped: "ct_queueDropped (ag_counters (processed w evs ag)) = ct_queueDropped (ag_counters ag)"
  by (induction evs rule: rev_induct) (simp_all add: processed_snoc, simp add: processed_def)

text \<open>C4. However the collector and the main loop interleave, an event is never lost in silence: in every
  reachable state the channel holds at most 4096 events, the events taken from it and waiting in it are
  the handed over ones in order, the missing ones are exactly those the drop counter has counted, none is
  missing while at most 4096 were handed over, and the agent has processed exactly the events taken.\<close>

theorem pump_accounts:
  assumes "pump_reaches w (pump_start rn ag snap) s"
  shows "\<exists>handed d. rn_handled rn = handed @ pu_source s \<and> length (pu_queue s) \<le> 4096 \<and>
    subseq (pu_taken s @ pu_queue s) handed \<and> length handed = length (pu_taken s) + length (pu_queue s) + d \<and>
    (d = 0 \<or> 4096 < length handed) \<and>
    pu_agent s = (bump_dropped ^^ d) (processed w (pu_taken s) ag) \<and>
    ct_queueDropped (ag_counters (pu_agent s)) = ct_queueDropped (ag_counters ag) + of_nat d"
proof -
  have "pump_inv w ag (rn_handled rn) s" by (rule pump_inv_reaches [OF assms pump_inv_start])
  then obtain handed d where "rn_handled rn = handed @ pu_source s" "subseq (pu_taken s @ pu_queue s) handed"
    "length handed = length (pu_taken s) + length (pu_queue s) + d" "0 < d \<longrightarrow> eventQueueDepth < length handed"
    "length (pu_queue s) \<le> eventQueueDepth" "pu_agent s = (bump_dropped ^^ d) (processed w (pu_taken s) ag)"
    unfolding pump_inv_def by blast
  then show ?thesis
    by (intro exI [of _ handed] exI [of _ d]) (auto simp: dropped_count processed_keeps_dropped)
qed

section \<open>Stopping\<close>

lemma pump_run_keeps: "pump_step w s s' \<Longrightarrow> pu_run s' = pu_run s"
  by (cases rule: pump_step.cases) (auto simp: hand_over_def)

lemma pump_reaches_run: "pump_reaches w s s' \<Longrightarrow> pu_run s' = pu_run s"
  by (induction rule: pump_reaches.induct) (simp_all add: pump_run_keeps)

text \<open>The work left; a refresh of the metrics does none.\<close>

definition pump_work :: "pump \<Rightarrow> nat" where
  "pump_work s =
     2 * length (pu_source s) + length (pu_queue s) + of_bool (pu_open s) + of_bool (pu_returned s = None)"

lemma pump_step_work:
  assumes "pump_step w s s'" and "pu_run s = Some r"
  shows "pump_work s' < pump_work s \<or> (pump_work s' = pump_work s \<and> s' = s\<lparr>pu_snap := pu_snap s'\<rparr>)"
  using assms by (cases rule: pump_step.cases) (auto simp: pump_work_def hand_over_def)

text \<open>As long as \<open>pump\<close> has not returned there is work to do.\<close>

lemma pump_progress:
  assumes "pu_run s = Some r" and "pu_open s \<or> pu_source s = []" and "pu_returned s = None"
  shows "\<exists>s'. pump_step w s s' \<and> pump_work s' < pump_work s"
proof (cases "pu_source s")
  case Cons
  show ?thesis by (rule exI, rule conjI, rule HandOver [OF Cons]) (simp add: pump_work_def hand_over_def Cons)
next
  case src: Nil
  show ?thesis
  proof (cases "pu_queue s")
    case Cons
    show ?thesis by (rule exI, rule conjI, rule Receive [OF assms(3) Cons]) (simp add: pump_work_def Cons)
  next
    case Nil
    show ?thesis
    proof (cases "pu_open s")
      case True
      show ?thesis
        by (rule exI, rule conjI, rule CollectorEnds [OF src _ True]) (simp_all add: assms(1) pump_work_def True)
    next
      case False
      show ?thesis
        by (rule exI, rule conjI, rule Return [OF assms(3) Nil False]) (simp add: pump_work_def assms(1,3))
    qed
  qed
qed

lemma pump_finishes:
  assumes "pump_reaches w (pump_start rn ag snap) s" and "rn_result rn = Some r"
  shows "\<exists>cs. pu_returned (pump_exec w cs s) = Some r"
  using assms(1)
proof (induction "pump_work s" arbitrary: s rule: less_induct)
  case less
  have inv: "pump_inv w ag (rn_handled rn) s" by (rule pump_inv_reaches [OF less.prems pump_inv_start])
  have run: "pu_run s = Some r" using pump_reaches_run [OF less.prems] assms(2) by (simp add: pump_start_def)
  show ?case
  proof (cases "pu_returned s")
    case None
    then obtain s' where step: "pump_step w s s'" and less_work: "pump_work s' < pump_work s"
      using pump_progress [OF run] inv unfolding pump_inv_def by blast
    obtain cs where cs: "pu_returned (pump_exec w cs s') = Some r"
      using less.hyps [OF less_work Later [OF less.prems step]] by blast
    obtain c where "pump_do w c s = Some s'" using step pump_do_step by metis
    with cs show ?thesis by (intro exI [of _ "c # cs"]) simp
  next
    case (Some x)
    then show ?thesis using inv run by (intro exI [of _ "[]"]) (simp add: pump_inv_def)
  qed
qed

text \<open>C16. When the collector's \<open>Run\<close> returns, so does \<open>pump\<close>, with its result: every step but a refresh
  uses up work, a state that has not returned always has such a step, from every reachable state some
  continuation returns, and in a state that has returned every event was taken or counted as dropped and nothing waits.\<close>

theorem pump_returns:
  assumes "pump_reaches w (pump_start rn ag snap) s" and "rn_result rn = Some r"
  shows "(\<forall>s'. pump_step w s s' \<longrightarrow> pump_work s' < pump_work s \<or> s' = s\<lparr>pu_snap := pu_snap s'\<rparr>) \<and>
    (\<exists>cs. pu_returned (pump_exec w cs s) = Some r) \<and>
    ((pu_returned s = None \<and> (\<exists>s'. pump_step w s s' \<and> pump_work s' < pump_work s)) \<or>
    (pu_returned s = Some r \<and> pu_source s = [] \<and> pu_queue s = [] \<and>
     (\<exists>d. length (rn_handled rn) = length (pu_taken s) + d \<and>
       pu_agent s = (bump_dropped ^^ d) (processed w (pu_taken s) ag))))"
proof -
  have inv: "pump_inv w ag (rn_handled rn) s" by (rule pump_inv_reaches [OF assms(1) pump_inv_start])
  have run: "pu_run s = Some r"
    using pump_reaches_run [OF assms(1)] assms(2) by (simp add: pump_start_def)
  have "(pu_returned s = None \<and> (\<exists>s'. pump_step w s s' \<and> pump_work s' < pump_work s)) \<or>
    (pu_returned s = Some r \<and> pu_source s = [] \<and> pu_queue s = [] \<and>
     (\<exists>d. length (rn_handled rn) = length (pu_taken s) + d \<and>
       pu_agent s = (bump_dropped ^^ d) (processed w (pu_taken s) ag)))"
  proof (cases "pu_returned s")
    case None
    have "\<exists>s'. pump_step w s s' \<and> pump_work s' < pump_work s"
      by (rule pump_progress [OF run _ None]) (use inv in \<open>simp add: pump_inv_def\<close>)
    with None show ?thesis by blast
  next
    case (Some x)
    then show ?thesis using inv run unfolding pump_inv_def by auto
  qed
  then show ?thesis using pump_step_work [OF _ run] pump_finishes [OF assms] by blast
qed


text \<open>A run over one event: handed over, the collector ends, taken, returned.\<close>

definition one_event :: run_state where
  "one_event = \<lparr>rn_handled = [open_event ''/etc/passwd''], rn_warnings = [], rn_result = Some None\<rparr>"

lemma one_event_runs:
  "\<exists>s. pump_reaches w (pump_start one_event ag snap) s \<and> pu_returned s = Some None \<and>
     pu_taken s = [open_event ''/etc/passwd'']"
proof -
  let ?s0 = "pump_start one_event ag snap"
  let ?ev = "open_event ''/etc/passwd''"
  let ?s1 = "?s0\<lparr>pu_source := [], pu_queue := [?ev]\<rparr>"
  let ?s2 = "?s1\<lparr>pu_open := False\<rparr>"
  let ?s3 = "?s2\<lparr>pu_queue := [], pu_agent := process w ag ?ev, pu_taken := [?ev]\<rparr>"
  let ?s4 = "?s3\<lparr>pu_snap := metrics_refresh False (Some ks) (-1) (pu_agent ?s3),
      pu_summary := Some (printSummary (Some ks) (pu_agent ?s3)), pu_returned := pu_run ?s3\<rparr>"
  have "pump_step w ?s0 ?s1" using HandOver [of ?s0 ?ev "[]" w] by (simp add: pump_start_def one_event_def hand_over_def)
  moreover have "pump_step w ?s1 ?s2" by (rule CollectorEnds) (simp_all add: pump_start_def one_event_def)
  moreover have "pump_step w ?s2 ?s3" using Receive [of ?s2 ?ev "[]" w] by (simp add: pump_start_def one_event_def)
  moreover have "pump_step w ?s3 ?s4" by (rule Return) (simp_all add: pump_start_def)
  ultimately have "pump_reaches w ?s0 ?s4" by (meson pump_reaches.intros)
  then show ?thesis by (intro exI [of _ ?s4]) (simp add: pump_start_def one_event_def)
qed

theorem pump_accounts_witness:
  "\<forall>w ag snap. \<exists>s d. pump_reaches w (pump_start one_event ag snap) s \<and> pu_taken s = [open_event ''/etc/passwd''] \<and>
     pu_agent s = (bump_dropped ^^ d) (processed w [open_event ''/etc/passwd''] ag)"
proof (intro allI)
  fix w ag snap
  obtain s where s: "pump_reaches w (pump_start one_event ag snap) s" "pu_taken s = [open_event ''/etc/passwd'']"
    using one_event_runs by blast
  from pump_accounts [OF s(1)] obtain d where
    "pu_agent s = (bump_dropped ^^ d) (processed w (pu_taken s) ag)" by blast
  with s show "\<exists>s d. pump_reaches w (pump_start one_event ag snap) s \<and> pu_taken s = [open_event ''/etc/passwd''] \<and>
     pu_agent s = (bump_dropped ^^ d) (processed w [open_event ''/etc/passwd''] ag)" by metis
qed

theorem pump_returns_witness:
  "\<forall>w ag snap. \<exists>s. pump_reaches w (pump_start one_event ag snap) s \<and> pu_returned s = Some None \<and> pu_queue s = []"
proof (intro allI)
  fix w ag snap
  obtain s where s: "pump_reaches w (pump_start one_event ag snap) s" "pu_returned s = Some None"
    using one_event_runs by blast
  have r: "rn_result one_event = Some None" by (simp add: one_event_def)
  from pump_returns [OF s(1) r] s show
    "\<exists>s. pump_reaches w (pump_start one_event ag snap) s \<and> pu_returned s = Some None \<and> pu_queue s = []" by auto
qed

end
