(* ===== verification/Portable.thy ===== *)
theory Portable
  imports WallClock
begin

text \<open>
  What detection takes from the host it runs on.  Two engines with the same rules and options, on two
  hosts, read the same stream of events.  The rules look at the host only through \<open>Stat\<close>, the engine
  through its own process id, and the correlator through the lookup of processes the stream has not
  described.  The rules' findings do not depend on the last of these at all; the storylines do not when
  the lookup is never answered.  The theorem about replays in \<open>Replay\<close> rests on both.
\<close>

section \<open>Rules\<close>

text \<open>Two configurations that an event cannot tell apart: the same options, and the same mode of the file
  it executes.\<close>

definition same_view :: "Config \<Rightarrow> Config \<Rightarrow> Event \<Rightarrow> bool" where
  "same_view cfg cfg' ev \<longleftrightarrow>
     cfg_RevShellWindow cfg' = cfg_RevShellWindow cfg \<and> cfg_DebuggerComms cfg' = cfg_DebuggerComms cfg \<and>
     cfg_IgnoreLoopback cfg' = cfg_IgnoreLoopback cfg \<and> cfg_IgnoreSelfProc cfg' = cfg_IgnoreSelfProc cfg \<and>
     cfg_IsPrint cfg' = cfg_IsPrint cfg \<and>
     (ev_SyscallID ev \<in> {SysExecve, SysExecveat} \<longrightarrow> cfg_Stat cfg' (ev_Path ev) = cfg_Stat cfg (ev_Path ev))"

lemma same_view_args [simp]: "same_view cfg cfg' (ev\<lparr>ev_Args := m\<rparr>) = same_view cfg cfg' ev"
  by (simp add: same_view_def)

locale portable_rule =
  fixes evl :: rule_eval
  assumes portable: "same_view (cx_Config c) cfg (cx_Event c) \<Longrightarrow> evl (c\<lparr>cx_Config := cfg\<rparr>) = evl c"
begin

lemma same_alert: "same_view (cx_Config c) cfg (cx_Event c) \<Longrightarrow> snd (evl (c\<lparr>cx_Config := cfg\<rparr>)) = snd (evl c)"
  by (simp add: portable)

end

interpretation pt_port: portable_rule evalPtraceInjection
  by unfold_locales (auto simp: evalPtraceInjection_def same_view_def Let_def split: option.split)

interpretation pe_port: portable_rule evalPrivilegeEscalation
proof
  fix c :: Context and cfg
  assume v: "same_view (cx_Config c) cfg (cx_Event c)"
  have opts: "cfg_IsPrint cfg = cfg_IsPrint (cx_Config c)"
    and stat: "ev_SyscallID (cx_Event c) = SysExecve \<or> ev_SyscallID (cx_Event c) = SysExecveat \<Longrightarrow>
      cfg_Stat cfg (ev_Path (cx_Event c)) = cfg_Stat (cx_Config c) (ev_Path (cx_Event c))"
    using v by (auto simp: same_view_def)
  have "evalSuidExec (c\<lparr>cx_Config := cfg\<rparr>) = evalSuidExec c"
    if "ev_SyscallID (cx_Event c) = SysExecve \<or> ev_SyscallID (cx_Event c) = SysExecveat"
    by (simp add: evalSuidExec_def opts stat [OF that] Let_def)
  then show "evalPrivilegeEscalation (c\<lparr>cx_Config := cfg\<rparr>) = evalPrivilegeEscalation c"
    by (simp add: evalPrivilegeEscalation_def opts Let_def)
qed

interpretation sf_port: portable_rule evalSensitiveFileAccess
proof
  fix c :: Context and cfg
  assume v: "same_view (cx_Config c) cfg (cx_Event c)"
  have opts: "cfg_IsPrint cfg = cfg_IsPrint (cx_Config c)" "cfg_IgnoreSelfProc cfg = cfg_IgnoreSelfProc (cx_Config c)"
    using v by (simp_all add: same_view_def)
  have report: "sensitive_report (c\<lparr>cx_Config := cfg\<rparr>) sp m = sensitive_report c sp m" for sp m
    by (simp add: sensitive_report_def opts Let_def)
  have "sensitive_scan (c\<lparr>cx_Config := cfg\<rparr>) p sps = sensitive_scan c p sps" for p sps
    by (induction sps) (simp_all add: report opts Let_def split: option.split)
  then show "evalSensitiveFileAccess (c\<lparr>cx_Config := cfg\<rparr>) = evalSensitiveFileAccess c"
    by (simp add: evalSensitiveFileAccess_def Let_def)
qed

interpretation rs_port: portable_rule evalReverseShell
  by unfold_locales (auto simp: evalReverseShell_def same_view_def Let_def split: option.split)

lemma registry_portable: "r \<in> set allRules \<Longrightarrow> portable_rule (rule_Eval r)"
  by (auto simp: allRules_def rulePtraceInjection_def rulePrivilegeEscalation_def ruleSensitiveFileAccess_def
      ruleReverseShell_def pt_port.portable_rule_axioms pe_port.portable_rule_axioms
      sf_port.portable_rule_axioms rs_port.portable_rule_axioms)

section \<open>Findings\<close>

text \<open>An alert of a rule without the story it was filed under.\<close>

definition finding :: "Alert \<Rightarrow> Alert" where
  "finding a = a\<lparr>al_Storyline := []\<rparr>"

definition findings :: "Alert list \<Rightarrow> Alert list" where
  "findings alerts = map finding (filter (\<lambda>a. al_Rule a \<noteq> RuleNameAttackChain) alerts)"

lemma findings_simps [simp]:
  "findings [] = []" "findings (as @ bs) = findings as @ findings bs"
  "findings [a] = (if al_Rule a = RuleNameAttackChain then [] else [finding a])"
  by (simp_all add: findings_def)

lemma rule_not_chain: "r \<in> set allRules \<Longrightarrow> rule_Name r \<noteq> RuleNameAttackChain"
  by (auto simp: allRules_def rule_name_defs RuleNameAttackChain_def)

lemma admit_storyline:
  "deduper_admit d m (a\<lparr>al_Storyline := i\<rparr>) now =
     (case deduper_admit d m a now of (d, a, ok) \<Rightarrow> (d, a\<lparr>al_Storyline := i\<rparr>, ok))"
proof -
  have "dedupKey m (a\<lparr>al_Storyline := i\<rparr>) = dedupKey m a" by (simp add: dedupKey_def argsOf_def)
  moreover have "a\<lparr>al_Storyline := i, al_Suppressed := n\<rparr> = a\<lparr>al_Suppressed := n, al_Storyline := i\<rparr>" for n by simp
  ultimately show ?thesis by (cases d) (simp_all add: deduper_admit_def admit_key_def split: option.split prod.split)
qed

lemma argsOf_storyline [simp]: "argsOf m (a\<lparr>al_Storyline := i\<rparr>) = argsOf m a"
  by (simp add: argsOf_def)

lemma findings_resolve:
  assumes "findings as = findings bs"
  shows "findings (map (resolve m) as) = findings (map (resolve m) bs)"
proof -
  have one: "finding (resolve m a) = resolve m (finding a)" "al_Rule (resolve m a) = al_Rule a" for a
    by (simp_all add: resolve_def finding_def argsOf_def)
  have "findings (map (resolve m) as) = map (resolve m) (findings as)" for as
    by (induction as) (simp_all add: findings_def one)
  with assms show ?thesis by simp
qed

text \<open>Two passes over the rules that agree in all but the correlator.\<close>

definition pass_alike :: "pass \<Rightarrow> pass \<Rightarrow> bool" where
  "pass_alike ps ps' \<longleftrightarrow>
     ps_args ps' = ps_args ps \<and> ps_dedup ps' = ps_dedup ps \<and> findings (ps_alerts ps') = findings (ps_alerts ps)"

lemma rule_eval_portable:
  assumes "r \<in> set allRules" and "same_view cfg cfg' ev"
  shows "rule_Eval r \<lparr>cx_Event = ev\<lparr>ev_Args := m\<rparr>, cx_History = h, cx_Config = cfg'\<rparr> =
    rule_Eval r \<lparr>cx_Event = ev\<lparr>ev_Args := m\<rparr>, cx_History = h, cx_Config = cfg\<rparr>"
  using portable_rule.portable [OF registry_portable [OF assms(1)],
      of "\<lparr>cx_Event = ev\<lparr>ev_Args := m\<rparr>, cx_History = h, cx_Config = cfg\<rparr>" cfg'] assms(2) by simp

lemma turn_alike:
  assumes "r \<in> set allRules" and "same_view cfg cfg' ev" and "pass_alike ps ps'"
  shows "pass_alike (rule_turn cfg ev h r ps) (rule_turn cfg' ev h r ps')"
proof -
  let ?c = "\<lparr>cx_Event = ev\<lparr>ev_Args := ps_args ps\<rparr>, cx_History = h, cx_Config = cfg\<rparr>"
  have args: "ps_args ps' = ps_args ps" "ps_dedup ps' = ps_dedup ps" using assms(3) by (simp_all add: pass_alike_def)
  note same = rule_eval_portable [OF assms(1,2), of "ps_args ps" h]
  obtain m found where e: "rule_Eval r ?c = (m, found)" by (rule prod.exhaust)
  show ?thesis
  proof (cases found)
    case None
    then show ?thesis using e assms(3) by (simp add: rule_turn_def args same pass_alike_def)
  next
    case (Some a)
    have found: "snd (rule_Eval r ?c) = Some a" using e Some by simp
    have name: "al_Rule a \<noteq> RuleNameAttackChain"
      using detection_rule.alert_identity [OF registry_contract [OF assms(1)] found] rule_not_chain [OF assms(1)] by simp
    obtain d b ok where ad: "deduper_admit (ps_dedup ps) m a (ev_Timestamp ev) = (d, b, ok)" by (metis prod_cases3)
    have b: "al_Rule b = al_Rule a" using admit_alert [OF ad] by auto
    have turn: "\<exists>i co tail. rule_turn cf ev h r qs = \<lparr>ps_args = m, ps_correlator = co, ps_dedup = d,
        ps_alerts = ps_alerts qs @ (if ok then [b\<lparr>al_Storyline := i\<rparr>] else []) @ tail\<rparr> \<and> findings tail = []"
      if "rule_Eval r \<lparr>cx_Event = ev\<lparr>ev_Args := ps_args qs\<rparr>, cx_History = h, cx_Config = cf\<rparr> = (m, Some a)"
        "ps_dedup qs = ps_dedup ps" for qs cf
    proof -
      obtain co a1 k where co: "correlate_opt (ps_correlator qs) m ev a = (co, a1, k)" by (metis prod_cases3)
      obtain i where a1: "a1 = a\<lparr>al_Storyline := i\<rparr>" using correlate_opt_alerts(1) [OF co] by blast
      have ad1: "deduper_admit (ps_dedup qs) m a1 (ev_Timestamp ev) = (d, b\<lparr>al_Storyline := i\<rparr>, ok)"
        by (simp add: a1 admit_storyline ad that(2))
      have "findings (case k of None \<Rightarrow> [] | Some x \<Rightarrow> [x]) = []"
        using correlate_opt_alerts(2) [OF co] by (auto simp: chainAlert_def Let_def split: option.split)
      then show ?thesis using turn_loud [OF that(1) co ad1] by blast
    qed
    have "rule_Eval r \<lparr>cx_Event = ev\<lparr>ev_Args := ps_args ps'\<rparr>, cx_History = h, cx_Config = cfg'\<rparr> = (m, Some a)"
      using e Some args(1) same by simp
    from turn [OF this args(2)] turn [of ps cfg, OF _ refl] e Some obtain i co tail j cp tail' where
      "rule_turn cfg' ev h r ps' = \<lparr>ps_args = m, ps_correlator = co, ps_dedup = d,
        ps_alerts = ps_alerts ps' @ (if ok then [b\<lparr>al_Storyline := i\<rparr>] else []) @ tail\<rparr>" "findings tail = []"
      "rule_turn cfg ev h r ps = \<lparr>ps_args = m, ps_correlator = cp, ps_dedup = d,
        ps_alerts = ps_alerts ps @ (if ok then [b\<lparr>al_Storyline := j\<rparr>] else []) @ tail'\<rparr>" "findings tail' = []" by blast
    then show ?thesis using assms(3) b name by (simp add: pass_alike_def finding_def)
  qed
qed

lemma turns_alike:
  "set rs \<subseteq> set allRules \<Longrightarrow> same_view cfg cfg' ev \<Longrightarrow> pass_alike ps ps' \<Longrightarrow>
   pass_alike (fold (rule_turn cfg ev h) rs ps) (fold (rule_turn cfg' ev h) rs ps')"
  by (induction rs arbitrary: ps ps') (simp_all add: turn_alike)

definition engine_alike :: "Engine \<Rightarrow> Engine \<Rightarrow> bool" where
  "engine_alike e e' \<longleftrightarrow> en_rules e' = en_rules e \<and> en_tracker e' = en_tracker e \<and> en_dedup e' = en_dedup e"

text \<open>An event that neither host's agent takes for its own, and that looks the same on both.\<close>

definition foreign :: "Config \<Rightarrow> Config \<Rightarrow> Event \<Rightarrow> bool" where
  "foreign cfg cfg' ev \<longleftrightarrow> ev_PID ev \<noteq> cfg_SelfPID cfg \<and> ev_PID ev \<noteq> cfg_SelfPID cfg' \<and> same_view cfg cfg' ev"

lemma Evaluate_alike:
  assumes "engine_alike e e'" and "set (en_rules e) \<subseteq> set allRules" and "foreign (en_cfg e) (en_cfg e') ev"
  shows "engine_alike (fst (Engine_Evaluate e ev)) (fst (Engine_Evaluate e' ev)) \<and>
    findings (snd (Engine_Evaluate e' ev)) = findings (snd (Engine_Evaluate e ev))"
proof -
  obtain t h where tr: "Tracker_Record (en_tracker e) ev = (t, h)" by (rule prod.exhaust)
  let ?start = "\<lambda>x. \<lparr>ps_args = ev_Args ev, ps_correlator = observe_opt ev (en_correlator x), ps_dedup = en_dedup x, ps_alerts = []\<rparr>"
  let ?ps = "\<lambda>x. fold (rule_turn (en_cfg x) ev h) (en_rules x) (?start x)"
  have same: "en_rules e' = en_rules e" "en_tracker e' = en_tracker e" "en_dedup e' = en_dedup e"
    using assms(1) by (simp_all add: engine_alike_def)
  have "pass_alike (?start e) (?start e')" by (simp add: pass_alike_def same)
  then have ps: "pass_alike (?ps e) (?ps e')"
    using turns_alike [OF assms(2)] assms(3) by (simp add: same foreign_def)
  then show ?thesis
    using assms(3) findings_resolve [of "ps_alerts (?ps e')" "ps_alerts (?ps e)"]
    by (simp add: Engine_Evaluate_def foreign_def Let_def same tr engine_alike_def pass_alike_def)
qed

text \<open>The alerts of a stream.\<close>

fun raised :: "Engine \<Rightarrow> Event list \<Rightarrow> Alert list" where
  "raised e [] = []"
| "raised e (ev # evs) = snd (Engine_Evaluate e ev) @ raised (fst (Engine_Evaluate e ev)) evs"

lemma raised_alike:
  "engine_alike e e' \<Longrightarrow> set (en_rules e) \<subseteq> set allRules \<Longrightarrow> list_all (foreign (en_cfg e) (en_cfg e')) evs \<Longrightarrow>
   findings (raised e' evs) = findings (raised e evs)"
proof (induction evs arbitrary: e e')
  case (Cons ev evs)
  note step = Evaluate_alike [OF Cons.prems(1,2), of ev]
  show ?case using Cons.IH [of "fst (Engine_Evaluate e ev)" "fst (Engine_Evaluate e' ev)"] Cons.prems step by (simp add: keep)
qed simp

end
