(* ===== verification/Unaided.thy ===== *)
theory Unaided
  imports Portable
begin

text \<open>
  The correlator without its lookup.  \<open>deaf\<close> takes the lookup away; every operation but the ancestry walk
  commutes with it, and the walk does as long as each process it asks for has been described by the
  stream or is unknown to the lookup too.  For a stream that describes its own parents the storylines and
  the attack-chain alerts are therefore those of the capture alone.
\<close>

section \<open>Operations that do not ask\<close>

definition deaf :: "Correlator \<Rightarrow> Correlator" where
  "deaf c = c\<lparr>co_cfg := (co_cfg c)\<lparr>sc_Lookup := None\<rparr>\<rparr>"

lemma deaf_fields [simp]:
  "co_lineage (deaf c) = co_lineage c" "co_byPID (deaf c) = co_byPID c" "co_heap (deaf c) = co_heap c"
  "co_seq (deaf c) = co_seq c" "co_lastSweep (deaf c) = co_lastSweep c" "co_chains (deaf c) = co_chains c"
  "sc_Window (co_cfg (deaf c)) = sc_Window (co_cfg c)" "sc_Threshold (co_cfg (deaf c)) = sc_Threshold (co_cfg c)"
  "sc_Lookup (co_cfg (deaf c)) = None"
  by (simp_all add: deaf_def)

lemma deaf_updates:
  "(deaf c)\<lparr>co_lineage := l\<rparr> = deaf (c\<lparr>co_lineage := l\<rparr>)" "(deaf c)\<lparr>co_byPID := b\<rparr> = deaf (c\<lparr>co_byPID := b\<rparr>)"
  "(deaf c)\<lparr>co_heap := hp\<rparr> = deaf (c\<lparr>co_heap := hp\<rparr>)" "(deaf c)\<lparr>co_seq := n\<rparr> = deaf (c\<lparr>co_seq := n\<rparr>)"
  "(deaf c)\<lparr>co_lastSweep := t\<rparr> = deaf (c\<lparr>co_lastSweep := t\<rparr>)" "(deaf c)\<lparr>co_chains := k\<rparr> = deaf (c\<lparr>co_chains := k\<rparr>)"
  by (simp_all add: deaf_def)

lemma deaf_expired [simp]: "story_expired (deaf c) = story_expired c"
  by (simp add: story_expired_def fun_eq_iff)

lemma deaf_sweep: "Correlator_maybeSweep now (deaf c) = deaf (Correlator_maybeSweep now c)"
proof -
  have "live_byPID (deaf c) now = live_byPID c now" by (simp add: live_byPID_def)
  then show ?thesis by (simp add: Correlator_maybeSweep_def node_stale_def deaf_updates Let_def cong: if_cong)
qed

lemma deaf_Observe: "Correlator_Observe ev (deaf c) = deaf (Correlator_Observe ev c)"
  by (simp add: Correlator_Observe_def Correlator_learn_def deaf_sweep deaf_updates)

lemma deaf_commOf [simp]: "commOf (deaf c) pid = commOf c pid"
  by (simp add: commOf_def)

lemma deaf_set_story: "set_story a s (deaf c) = deaf (set_story a s c)"
  by (simp add: set_story_def deaf_updates)

lemma deaf_claim: "claim_pids pids a (deaf c) = deaf (claim_pids pids a c)"
  by (simp add: claim_pids_def deaf_updates)

lemma deaf_merge: "Correlator_merge (deaf c) dst src = deaf (Correlator_merge c dst src)"
  by (simp add: Correlator_merge_def deaf_claim deaf_set_story)

lemma deaf_found: "found_stories (deaf c) now pids found = found_stories c now pids found"
  by (induction pids arbitrary: found) (simp_all split: option.split)

lemma deaf_absorb: "absorb_stories (deaf c) s others = map_prod deaf id (absorb_stories c s others)"
  by (induction others arbitrary: c s) (simp_all add: deaf_merge)

lemma deaf_pick: "pick_story (deaf c) chain now = map_prod deaf id (pick_story c chain now)"
  by (simp add: pick_story_def deaf_found deaf_absorb deaf_updates fresh_story_def Let_def split: list.split)

lemma deaf_storyFor: "storyFor (deaf c) chain now = map_prod deaf id (storyFor c chain now)"
  by (simp add: storyFor_def deaf_pick join_chain_def deaf_claim deaf_set_story Let_def split_def cong: if_cong)

section \<open>Operations that keep the lineage\<close>

lemma absorb_keeps:
  "co_cfg (fst (absorb_stories c s others)) = co_cfg c \<and> co_lineage (fst (absorb_stories c s others)) = co_lineage c"
  by (induction others arbitrary: c s) simp_all

lemma storyFor_keeps:
  "co_cfg (fst (storyFor c chain now)) = co_cfg c \<and> co_lineage (fst (storyFor c chain now)) = co_lineage c"
proof -
  have "co_cfg (fst (pick_story c chain now)) = co_cfg c \<and> co_lineage (fst (pick_story c chain now)) = co_lineage c"
    using absorb_keeps by (simp add: pick_story_def Let_def split: list.split)
  then show ?thesis by (simp add: storyFor_def join_chain_def Let_def split_def)
qed

section \<open>The ancestry walk\<close>

text \<open>A process the walk can deal with without an answer of the lookup: one it does not ask for, one of the
  lineage, or one the lookup does not know.\<close>

definition settled :: "Correlator \<Rightarrow> u32 \<Rightarrow> bool" where
  "settled c p \<longleftrightarrow> p \<le> 2 \<or> map_of (co_lineage c) p \<noteq> None \<or>
     (case sc_Lookup (co_cfg c) of None \<Rightarrow> True | Some lookup \<Rightarrow> lookup p = None)"

definition lineage_settled :: "Correlator \<Rightarrow> bool" where
  "lineage_settled c \<longleftrightarrow> (\<forall>p n. map_of (co_lineage c) p = Some n \<longrightarrow> settled c (pn_ppid n))"

lemma settled_node:
  assumes "settled c p" and "\<not> p \<le> 2"
  shows "Correlator_node c p now = (c, map_of (co_lineage c) p)"
    and "Correlator_node (deaf c) p now = (deaf c, map_of (co_lineage c) p)"
  using assms by (auto simp: settled_def Correlator_node_def split: option.splits)

lemma settled_loop:
  "settled c cur \<Longrightarrow> lineage_settled c \<Longrightarrow>
   fst (ancestry_loop now c chain cur) = c \<and>
   ancestry_loop now (deaf c) chain cur = map_prod deaf id (ancestry_loop now c chain cur)"
proof (induction now c chain cur rule: ancestry_loop.induct)
  case (1 now c chain cur)
  show ?case
  proof (cases "length chain < maxAncestry \<and> \<not> cur \<le> 2 \<and> cur \<notin> set chain")
    case False
    then show ?thesis by (simp add: ancestry_loop.simps [of now _ chain cur] del: maxAncestry_def)
  next
    case True
    note node = settled_node [OF 1(2), of now]
    show ?thesis
    proof (cases "map_of (co_lineage c) cur")
      case None
      then show ?thesis using True node by (simp add: ancestry_loop.simps [of now _ chain cur] del: maxAncestry_def)
    next
      case (Some n)
      then have "settled c (pn_ppid n)" using 1(3) by (simp add: lineage_settled_def)
      then show ?thesis
        using True node Some 1(1) [of c "Some n" n] 1(3)
        by (simp add: ancestry_loop.simps [of now _ chain cur] del: maxAncestry_def)
    qed
  qed
qed

lemma deaf_Correlate:
  assumes "settled c (ev_PPID ev)" and "lineage_settled c"
  shows "Correlate (deaf c) m ev a = (case Correlate c m ev a of (c, a, k) \<Rightarrow> (deaf c, a, k))"
    and "co_cfg (fst (Correlate c m ev a)) = co_cfg c \<and> co_lineage (fst (Correlate c m ev a)) = co_lineage c"
proof -
  obtain chain where anc: "ancestry c (ev_PID ev) (ev_PPID ev) (ev_Timestamp ev) = (c, chain)"
    "ancestry (deaf c) (ev_PID ev) (ev_PPID ev) (ev_Timestamp ev) = (deaf c, chain)"
    using settled_loop [OF assms, of "ev_Timestamp ev" "[ev_PID ev]"] unfolding ancestry_def
    by (metis id_apply map_prod_simp prod.collapse)
  obtain c1 p where st: "storyFor c chain (ev_Timestamp ev) = (c1, p)" by (rule prod.exhaust)
  show "Correlate (deaf c) m ev a = (case Correlate c m ev a of (c, a, k) \<Rightarrow> (deaf c, a, k))"
    by (simp add: Correlate_def anc st deaf_storyFor deaf_set_story deaf_updates Let_def split: prod.split)
  show "co_cfg (fst (Correlate c m ev a)) = co_cfg c \<and> co_lineage (fst (Correlate c m ev a)) = co_lineage c"
    using storyFor_keeps [of c chain "ev_Timestamp ev"]
    by (simp add: Correlate_def anc st Let_def split: prod.split)
qed

section \<open>The engine\<close>

text \<open>Whether a correlator, if there is one, has all it needs for the event.\<close>

definition ready :: "Event \<Rightarrow> Correlator option \<Rightarrow> bool" where
  "ready ev co \<longleftrightarrow> (case co of None \<Rightarrow> True | Some c \<Rightarrow> settled c (ev_PPID ev) \<and> lineage_settled c)"

definition deaf_pass :: "pass \<Rightarrow> pass" where
  "deaf_pass ps = ps\<lparr>ps_correlator := map_option deaf (ps_correlator ps)\<rparr>"

lemma deaf_pass_fields [simp]:
  "ps_args (deaf_pass ps) = ps_args ps" "ps_dedup (deaf_pass ps) = ps_dedup ps" "ps_alerts (deaf_pass ps) = ps_alerts ps"
  "ps_correlator (deaf_pass ps) = map_option deaf (ps_correlator ps)"
  by (simp_all add: deaf_pass_def)

definition same_lineage :: "Correlator option \<Rightarrow> Correlator option \<Rightarrow> bool" where
  "same_lineage co co' \<longleftrightarrow>
     (case (co, co') of
        (None, None) \<Rightarrow> True
      | (Some c, Some c') \<Rightarrow> co_cfg c' = co_cfg c \<and> co_lineage c' = co_lineage c
      | _ \<Rightarrow> False)"

lemma same_lineage_refl [simp]: "same_lineage co co"
  by (cases co) (simp_all add: same_lineage_def)

lemma same_lineage_trans: "same_lineage a b \<Longrightarrow> same_lineage b c \<Longrightarrow> same_lineage a c"
  by (auto simp: same_lineage_def split: option.splits)

lemma same_settled:
  assumes "co_cfg c' = co_cfg c" and "co_lineage c' = co_lineage c"
  shows "settled c' = settled c" and "lineage_settled c' = lineage_settled c"
proof -
  show "settled c' = settled c" using assms by (simp add: settled_def fun_eq_iff)
  then show "lineage_settled c' = lineage_settled c" using assms(2) by (simp add: lineage_settled_def)
qed

lemma same_lineage_ready: "same_lineage co co' \<Longrightarrow> ready ev co' = ready ev co"
proof (cases co; cases co')
  fix c c'
  assume s: "same_lineage co co'" "co = Some c" "co' = Some c'"
  then have "co_cfg c' = co_cfg c" "co_lineage c' = co_lineage c" by (simp_all add: same_lineage_def)
  then show "ready ev co' = ready ev co" using s(2,3) same_settled [of c' c] by (simp add: ready_def)
qed (simp_all add: same_lineage_def ready_def)

lemma deaf_correlate_opt:
  assumes "ready ev co"
  shows "correlate_opt (map_option deaf co) m ev a = (case correlate_opt co m ev a of (co, a, k) \<Rightarrow> (map_option deaf co, a, k))"
    and "same_lineage co (fst (correlate_opt co m ev a))"
proof -
  have "correlate_opt (map_option deaf co) m ev a = (case correlate_opt co m ev a of (co, a, k) \<Rightarrow> (map_option deaf co, a, k)) \<and>
      same_lineage co (fst (correlate_opt co m ev a))"
  proof (cases co)
    case (Some c)
    then have "settled c (ev_PPID ev)" "lineage_settled c" using assms by (simp_all add: ready_def)
    note deaf_Correlate [OF this, of m a]
    then show ?thesis using Some
      by (cases "Correlate c m ev a") (simp add: correlate_opt_def same_lineage_def split: prod.split)
  qed (simp add: correlate_opt_def)
  then show "correlate_opt (map_option deaf co) m ev a = (case correlate_opt co m ev a of (co, a, k) \<Rightarrow> (map_option deaf co, a, k))"
    and "same_lineage co (fst (correlate_opt co m ev a))" by blast+
qed

lemma turn_deaf:
  assumes "r \<in> set allRules" and "same_view cfg cfg' ev" and "ready ev (ps_correlator ps)"
  shows "rule_turn cfg' ev h r (deaf_pass ps) = deaf_pass (rule_turn cfg ev h r ps)"
    and "same_lineage (ps_correlator ps) (ps_correlator (rule_turn cfg ev h r ps))"
proof -
  let ?c = "\<lparr>cx_Event = ev\<lparr>ev_Args := ps_args ps\<rparr>, cx_History = h, cx_Config = cfg\<rparr>"
  note same = rule_eval_portable [OF assms(1,2), of "ps_args ps" h]
  obtain m found where e: "rule_Eval r ?c = (m, found)" by (rule prod.exhaust)
  have "rule_turn cfg' ev h r (deaf_pass ps) = deaf_pass (rule_turn cfg ev h r ps) \<and>
      same_lineage (ps_correlator ps) (ps_correlator (rule_turn cfg ev h r ps))"
  proof (cases found)
    case None
    then show ?thesis using e by (simp add: rule_turn_def same deaf_pass_def)
  next
    case (Some a)
    obtain co a1 k where co: "correlate_opt (ps_correlator ps) m ev a = (co, a1, k)" by (metis prod_cases3)
    obtain d b ok where ad: "deduper_admit (ps_dedup ps) m a1 (ev_Timestamp ev) = (d, b, ok)" by (metis prod_cases3)
    note deaf_co = deaf_correlate_opt [OF assms(3), of m a, unfolded co prod.case fst_conv]
    show ?thesis using e Some deaf_co(2) by (simp add: rule_turn_def same co ad deaf_co(1) deaf_pass_def)
  qed
  then show "rule_turn cfg' ev h r (deaf_pass ps) = deaf_pass (rule_turn cfg ev h r ps)"
    and "same_lineage (ps_correlator ps) (ps_correlator (rule_turn cfg ev h r ps))" by simp_all
qed

lemma turns_deaf:
  "set rs \<subseteq> set allRules \<Longrightarrow> same_view cfg cfg' ev \<Longrightarrow> ready ev (ps_correlator ps) \<Longrightarrow>
   fold (rule_turn cfg' ev h) rs (deaf_pass ps) = deaf_pass (fold (rule_turn cfg ev h) rs ps) \<and>
   same_lineage (ps_correlator ps) (ps_correlator (fold (rule_turn cfg ev h) rs ps))"
proof (induction rs arbitrary: ps)
  case (Cons r rs)
  have r: "r \<in> set allRules" "set rs \<subseteq> set allRules" using Cons.prems(1) by simp_all
  note turn = turn_deaf [OF r(1) Cons.prems(2,3), of h]
  have "ready ev (ps_correlator (rule_turn cfg ev h r ps))"
    using same_lineage_ready [OF turn(2)] Cons.prems(3) by simp
  from Cons.IH [OF r(2) Cons.prems(2) this] turn same_lineage_trans show ?case by auto
qed simp

text \<open>Two engines in the same state, but for the lookup.\<close>

definition deaf_twin :: "Engine \<Rightarrow> Engine \<Rightarrow> bool" where
  "deaf_twin e e' \<longleftrightarrow> en_rules e' = en_rules e \<and> en_tracker e' = en_tracker e \<and> en_dedup e' = en_dedup e \<and>
     en_correlator e' = map_option deaf (en_correlator e)"

lemma Evaluate_deaf:
  assumes "deaf_twin e e'" and "set (en_rules e) \<subseteq> set allRules" and "foreign (en_cfg e) (en_cfg e') ev"
    and "ready ev (observe_opt ev (en_correlator e))"
  shows "deaf_twin (fst (Engine_Evaluate e ev)) (fst (Engine_Evaluate e' ev)) \<and>
    snd (Engine_Evaluate e' ev) = snd (Engine_Evaluate e ev) \<and>
    same_lineage (observe_opt ev (en_correlator e)) (en_correlator (fst (Engine_Evaluate e ev)))"
proof -
  obtain t h where tr: "Tracker_Record (en_tracker e) ev = (t, h)" by (rule prod.exhaust)
  have same: "en_rules e' = en_rules e" "en_tracker e' = en_tracker e" "en_dedup e' = en_dedup e"
    "en_correlator e' = map_option deaf (en_correlator e)"
    using assms(1) by (simp_all add: deaf_twin_def)
  let ?start = "\<lparr>ps_args = ev_Args ev, ps_correlator = observe_opt ev (en_correlator e), ps_dedup = en_dedup e, ps_alerts = []\<rparr>"
  have obs: "observe_opt ev (map_option deaf co) = map_option deaf (observe_opt ev co)" for co
    by (cases co) (simp_all add: observe_opt_def deaf_Observe)
  have start: "\<lparr>ps_args = ev_Args ev, ps_correlator = map_option deaf (observe_opt ev (en_correlator e)),
      ps_dedup = en_dedup e, ps_alerts = []\<rparr> = deaf_pass ?start"
    by (simp add: deaf_pass_def)
  have "fold (rule_turn (en_cfg e') ev h) (en_rules e) (deaf_pass ?start) =
      deaf_pass (fold (rule_turn (en_cfg e) ev h) (en_rules e) ?start) \<and>
      same_lineage (ps_correlator ?start) (ps_correlator (fold (rule_turn (en_cfg e) ev h) (en_rules e) ?start))"
    by (rule turns_deaf [OF assms(2)]) (use assms(3,4) in \<open>simp_all add: foreign_def\<close>)
  then show ?thesis
    using assms(3) by (simp add: Engine_Evaluate_def foreign_def Let_def same tr obs start deaf_twin_def)
qed

section \<open>A stream that describes its parents\<close>

text \<open>Every parent is one of the processes the walk does not ask for, has an event up to this one, or is unknown
  to the lookup.\<close>

fun parents_known :: "(u32 \<Rightarrow> bool) \<Rightarrow> u32 set \<Rightarrow> Event list \<Rightarrow> bool" where
  "parents_known unknown K [] \<longleftrightarrow> True"
| "parents_known unknown K (ev # evs) \<longleftrightarrow>
     (ev_PPID ev \<le> 2 \<or> ev_PPID ev \<in> insert (ev_PID ev) K \<or> unknown (ev_PPID ev)) \<and>
     parents_known unknown (insert (ev_PID ev) K) evs"

text \<open>A stream the correlator does not forget: it is no longer than the window, and of fewer processes than the
  lineage holds.\<close>

definition remembered :: "Duration \<Rightarrow> Event set \<Rightarrow> bool" where
  "remembered window S \<longleftrightarrow>
     (\<forall>e \<in> S. \<forall>e' \<in> S. ev_Timestamp e - ev_Timestamp e' \<le> window \<or> ev_Timestamp e \<le> ev_Timestamp e') \<and>
     card (ev_PID ` S) < maxLineage"

text \<open>What holds of the correlator along such a stream: the lineage is that of the processes seen.\<close>

definition lineage_of :: "Event set \<Rightarrow> u32 set \<Rightarrow> Correlator \<Rightarrow> bool" where
  "lineage_of S K c \<longleftrightarrow>
     distinct_keys (co_lineage c) \<and> fst ` set (co_lineage c) = K \<and> K \<subseteq> ev_PID ` S \<and>
     (\<forall>e \<in> set (co_lineage c). pn_lastSeen (snd e) \<in> ev_Timestamp ` S) \<and> lineage_settled c"

definition unknown_to :: "Correlator \<Rightarrow> u32 \<Rightarrow> bool" where
  "unknown_to c p \<longleftrightarrow> (case sc_Lookup (co_cfg c) of None \<Rightarrow> True | Some lookup \<Rightarrow> lookup p = None)"

lemma settled_iff: "settled c p \<longleftrightarrow> p \<le> 2 \<or> p \<in> fst ` set (co_lineage c) \<or> unknown_to c p"
  by (simp add: settled_def unknown_to_def map_of_eq_None_iff)

lemma sweep_remembers:
  assumes "lineage_of S K c" and "finite S" and "ev \<in> S" and "remembered (sc_Window (co_cfg c)) S"
  shows "co_lineage (Correlator_maybeSweep (ev_Timestamp ev) c) = co_lineage c"
proof -
  have fresh: "\<not> node_stale (ev_Timestamp ev) c e" if e: "e \<in> set (co_lineage c)" for e
  proof -
    obtain x where "x \<in> S" "pn_lastSeen (snd e) = ev_Timestamp x" using assms(1) e by (auto simp: lineage_of_def)
    then show ?thesis using assms(3,4) by (auto simp: node_stale_def remembered_def not_less)
  qed
  have "length (co_lineage c) = card K"
    using assms(1) distinct_card [of "map fst (co_lineage c)"] by (simp add: lineage_of_def)
  also have "\<dots> \<le> card (ev_PID ` S)" using assms(1,2) by (intro card_mono) (auto simp: lineage_of_def)
  finally have "length (co_lineage c) < maxLineage" using assms(4) by (simp add: remembered_def)
  moreover have "filter (\<lambda>e. \<not> node_stale (ev_Timestamp ev) c e) (co_lineage c) = co_lineage c"
    using fresh by (simp add: filter_id_conv)
  ultimately show ?thesis by (simp add: Correlator_maybeSweep_def Let_def)
qed

lemma sweep_cfg [simp]: "co_cfg (Correlator_maybeSweep now c) = co_cfg c"
  by (simp add: Correlator_maybeSweep_def Let_def)

lemma Observe_settles:
  assumes "lineage_of S K c" and "finite S" and "ev \<in> S" and "remembered (sc_Window (co_cfg c)) S"
    and "ev_PID ev \<noteq> 0" and "ev_PPID ev \<le> 2 \<or> ev_PPID ev \<in> insert (ev_PID ev) K \<or> unknown_to c (ev_PPID ev)"
  shows "lineage_of S (insert (ev_PID ev) K) (Correlator_Observe ev c)"
    and "settled (Correlator_Observe ev c) (ev_PPID ev)" and "co_cfg (Correlator_Observe ev c) = co_cfg c"
proof -
  let ?n = "\<lparr>pn_ppid = ev_PPID ev, pn_comm = ev_Comm ev, pn_lastSeen = ev_Timestamp ev\<rparr>"
  let ?c = "Correlator_Observe ev c"
  have lin: "co_lineage ?c = mapset (ev_PID ev) ?n (co_lineage c)" and cfg: "co_cfg ?c = co_cfg c"
    using sweep_remembers [OF assms(1-4)] assms(5) by (simp_all add: Correlator_Observe_def Correlator_learn_def)
  have keys: "fst ` set (co_lineage ?c) = insert (ev_PID ev) K"
    using assms(1) by (simp add: lin dom_update lineage_of_def)
  have settled: "settled ?c p \<longleftrightarrow> p \<le> 2 \<or> p \<in> insert (ev_PID ev) K \<or> unknown_to c p" for p
    unfolding settled_iff keys by (simp add: unknown_to_def cfg)
  show "settled ?c (ev_PPID ev)" using assms(6) settled by simp
  have "lineage_settled ?c"
    unfolding lineage_settled_def settled
  proof (intro allI impI)
    fix p n
    assume "map_of (co_lineage ?c) p = Some n"
    then consider "n = ?n" | "map_of (co_lineage c) p = Some n"
      unfolding lin map_of_mapset by (cases "p = ev_PID ev") simp_all
    then show "pn_ppid n \<le> 2 \<or> pn_ppid n \<in> insert (ev_PID ev) K \<or> unknown_to c (pn_ppid n)"
    proof cases
      case 1
      then show ?thesis using assms(6) by simp
    next
      case 2
      then have "settled c (pn_ppid n)" using assms(1) by (simp add: lineage_of_def lineage_settled_def)
      then show ?thesis using assms(1) by (simp add: settled_iff lineage_of_def) blast
    qed
  qed
  moreover have "pn_lastSeen (snd e) \<in> ev_Timestamp ` S" if "e \<in> set (co_lineage ?c)" for e
  proof -
    have "e \<in> insert (ev_PID ev, ?n) (set (co_lineage c))"
      using that assms(1) unfolding lin by (simp add: set_mapset lineage_of_def) blast
    then show ?thesis using assms(1,3) by (auto simp: lineage_of_def)
  qed
  ultimately show "lineage_of S (insert (ev_PID ev) K) ?c"
    using assms(1,3) keys by (simp add: lineage_of_def lin distinct_update)
  show "co_cfg ?c = co_cfg c" by (rule cfg)
qed

lemma raised_deaf_from:
  assumes "finite S" and "0 \<notin> ev_PID ` S"
  shows "deaf_twin e e' \<Longrightarrow> set (en_rules e) \<subseteq> set allRules \<Longrightarrow> list_all (foreign (en_cfg e) (en_cfg e')) evs \<Longrightarrow>
    set evs \<subseteq> S \<Longrightarrow>
    (\<forall>c. en_correlator e = Some c \<longrightarrow>
      lineage_of S K c \<and> parents_known (unknown_to c) K evs \<and> remembered (sc_Window (co_cfg c)) S) \<Longrightarrow>
    raised e' evs = raised e evs"
proof (induction evs arbitrary: e e' K)
  case (Cons ev evs)
  let ?co = "observe_opt ev (en_correlator e)" and ?e = "fst (Engine_Evaluate e ev)"
  have ev: "ev \<in> S" "ev_PID ev \<noteq> 0" "foreign (en_cfg e) (en_cfg e') ev" "set evs \<subseteq> S"
    using Cons.prems(3,4) assms(2) by auto
  have known: "lineage_of S (insert (ev_PID ev) K) c' \<and> settled c' (ev_PPID ev) \<and> co_cfg c' = co_cfg c \<and>
      parents_known (unknown_to c) (insert (ev_PID ev) K) evs \<and> remembered (sc_Window (co_cfg c)) S"
    if "en_correlator e = Some c" "c' = Correlator_Observe ev c" for c c'
    using Observe_settles [of S K c ev] Cons.prems(5) that assms(1) ev(1,2) by simp
  have "ready ev ?co"
    using known by (auto simp: ready_def observe_opt_def lineage_of_def split: option.split)
  note step = Evaluate_deaf [OF Cons.prems(1,2) ev(3) this]
  have next_ok: "lineage_of S (insert (ev_PID ev) K) c \<and> parents_known (unknown_to c) (insert (ev_PID ev) K) evs \<and>
      remembered (sc_Window (co_cfg c)) S" if c: "en_correlator ?e = Some c" for c
  proof -
    have "same_lineage ?co (Some c)" using step c by simp
    then obtain b where b: "en_correlator e = Some b" "co_cfg c = co_cfg (Correlator_Observe ev b)"
      "co_lineage c = co_lineage (Correlator_Observe ev b)"
      by (cases "en_correlator e") (auto simp: same_lineage_def observe_opt_def)
    then have "unknown_to c = unknown_to b" "lineage_of S L c = lineage_of S L (Correlator_Observe ev b)" for L
      using known [OF b(1) refl]
      by (simp_all add: unknown_to_def fun_eq_iff lineage_of_def same_settled(2) [OF b(2,3)])
    then show ?thesis using known [OF b(1) refl] b(2) by simp
  qed
  have "raised (fst (Engine_Evaluate e' ev)) evs = raised ?e evs"
    by (rule Cons.IH) (use step next_ok Cons.prems(2,3) ev(4) in \<open>auto simp: keep\<close>)
  then show ?case using step by simp
qed simp

text \<open>From the start: two new engines with the same rules and options, on two hosts, the second without a
  lookup.\<close>

definition same_options :: "Config \<Rightarrow> Config \<Rightarrow> bool" where
  "same_options cfg cfg' \<longleftrightarrow>
     cfg_DedupWindow cfg' = cfg_DedupWindow cfg \<and> cfg_RevShellWindow cfg' = cfg_RevShellWindow cfg \<and>
     cfg_Storyline cfg' = (cfg_Storyline cfg)\<lparr>sc_Lookup := None\<rparr>"

lemma NewCorrelator_deaf: "NewCorrelator (sc\<lparr>sc_Lookup := None\<rparr>) = map_option deaf (NewCorrelator sc)"
  by (cases sc) (simp add: NewCorrelator_def deaf_def Let_def)

lemma NewEngine_twin:
  assumes "NewEngine cfg enabled = Inr e" and "NewEngine cfg' enabled = Inr e'" and "same_options cfg cfg'"
  shows "deaf_twin e e'"
proof -
  have "en_rules e' = en_rules e" using assms(1,2) by (auto simp: NewEngine_def Let_def split: if_splits prod.splits)
  then show ?thesis
    using assms unfolding deaf_twin_def same_options_def
    by (auto simp: NewEngine_def Let_def NewCorrelator_deaf split: if_splits prod.splits)
qed

lemma twin_alike: "deaf_twin e e' \<Longrightarrow> engine_alike e e'"
  by (simp add: deaf_twin_def engine_alike_def)

text \<open>A stream whose lineage the live engine has no need to look up.\<close>

definition described :: "Engine \<Rightarrow> Event list \<Rightarrow> bool" where
  "described e evs \<longleftrightarrow>
     (case en_correlator e of
        None \<Rightarrow> True
      | Some c \<Rightarrow> parents_known (unknown_to c) {} evs \<and> remembered (sc_Window (co_cfg c)) (set evs))"

lemma NewCorrelator_lineage: "NewCorrelator sc = Some c \<Longrightarrow> lineage_of S {} c"
  by (auto simp: NewCorrelator_def lineage_of_def lineage_settled_def Let_def split: if_splits)

lemma NewEngine_correlator: "NewEngine cfg enabled = Inr e \<Longrightarrow> en_correlator e = NewCorrelator (cfg_Storyline cfg)"
  by (auto simp: NewEngine_def Let_def split: if_splits prod.splits)

lemma raised_deaf:
  assumes "NewEngine cfg enabled = Inr e" and "deaf_twin e e'" and "list_all (foreign (en_cfg e) (en_cfg e')) evs"
    and "0 \<notin> ev_PID ` set evs" and "described e evs"
  shows "raised e' evs = raised e evs"
proof (rule raised_deaf_from [OF _ assms(4,2)])
  show "set (en_rules e) \<subseteq> set allRules" using NewEngine_registry [OF assms(1)] .
  show "\<forall>c. en_correlator e = Some c \<longrightarrow>
      lineage_of (set evs) {} c \<and> parents_known (unknown_to c) {} evs \<and> remembered (sc_Window (co_cfg c)) (set evs)"
    using NewCorrelator_lineage NewEngine_correlator [OF assms(1)] assms(5) by (auto simp: described_def)
qed (use assms(3) in simp_all)

end
