(* ===== verification/Replay.thy ===== *)
theory Replay
  imports Pump Unaided
begin

text \<open>
  The offline half of \<^verbatim>\<open>cmd/krnlsentry/main.go\<close>: pacing a capture against its own clock and driving it
  through the pipeline of the live agent.  The file, the progress of its reader and the cancellation of
  the context are a \<open>capture_host\<close>; a wait is an upper bound on the time it sleeps.
\<close>

section \<open>Pacing\<close>

record pacer =
  pc_speed :: float64
  pc_prev :: u64
  pc_first :: bool

definition newPacer :: "float64 \<Rightarrow> pacer" where
  "newPacer speed = \<lparr>pc_speed = speed, pc_prev = 0, pc_first = True\<rparr>"

definition maxPacedGap :: int where [simp]: "maxPacedGap = 2000000000"

definition errInterrupted :: goerror where
  "errInterrupted = \<lparr>er_msg = ''interrupted'', er_chain = [ErrInterrupted]\<rparr>"

text \<open>Floating point: \<open>fl_round\<close> rounds to \<open>float64\<close>; \<open>fl_overflow\<close> and \<open>fl_NaN\<close> are what the conversion to \<open>int64\<close>
  makes of a value out of range and of no number, which the language leaves to the machine.\<close>

record float_unit =
  fl_round :: "real \<Rightarrow> real"
  fl_overflow :: "real \<Rightarrow> int"
  fl_NaN :: int

definition float_to_int64 :: "float_unit \<Rightarrow> real \<Rightarrow> int" where
  "float_to_int64 fl x =
     (let n = (if x < 0 then \<lceil>x\<rceil> else \<lfloor>x\<rfloor>) in if - (2 ^ 63) \<le> n \<and> n < 2 ^ 63 then n else fl_overflow fl x)"

text \<open>A comparison with no number is false.\<close>

definition unpaced :: "float64 \<Rightarrow> bool" where
  "unpaced speed = (case speed of Finite x \<Rightarrow> x \<le> 0 | Infinite pos \<Rightarrow> \<not> pos | NaN \<Rightarrow> False)"

text \<open>\<open>time.Duration(float64(d) / speed)\<close>.\<close>

definition scaled_gap :: "float_unit \<Rightarrow> u64 \<Rightarrow> float64 \<Rightarrow> int" where
  "scaled_gap fl d speed =
     (case speed of
        Finite x \<Rightarrow> float_to_int64 fl (fl_round fl (fl_round fl (real (unat d)) / x))
      | Infinite _ \<Rightarrow> 0
      | NaN \<Rightarrow> fl_NaN fl)"

text \<open>The pair says whether the context is done before the wait, and whether the sleep ends by the context and
  not by the timer; \<open>slept\<close> is then the bound on the sleep.\<close>

definition pacer_wait :: "float_unit \<Rightarrow> bool \<times> bool \<Rightarrow> pacer \<Rightarrow> u64 \<Rightarrow> pacer \<times> int \<times> goerror option" where
  "pacer_wait fl ctx p t =
     (if fst ctx then (p, 0, Some errInterrupted)
      else if unpaced (pc_speed p) then (p, 0, None)
      else if pc_first p then (p\<lparr>pc_first := False, pc_prev := t\<rparr>, 0, None)
      else if t > pc_prev p then
        let gap = scaled_gap fl (t - pc_prev p) (pc_speed p);
            gap = (if gap > maxPacedGap then maxPacedGap else gap);
            slept = (if gap < 0 then 0 else gap)
        in if snd ctx then (p, slept, Some errInterrupted) else (p\<lparr>pc_prev := t\<rparr>, slept, None)
      else (p\<lparr>pc_prev := t\<rparr>, 0, None))"

section \<open>Replay\<close>

record capture_host =
  cp_open :: "goerror + (string \<times> goerror option)"
  cp_size :: "int option"
  cp_read :: "nat \<Rightarrow> int"
  cp_done :: "nat \<Rightarrow> bool \<times> bool"
  cp_float :: float_unit

text \<open>\<open>cp_open\<close> gives the content and the error that ends it, \<open>cp_size\<close> the size of a regular file; \<open>cp_read\<close>
  is how far the reader is, and \<open>cp_done\<close> whether the context is done, at the \<open>n\<close>-th event.\<close>

record replay_state =
  rp_agent :: agent
  rp_pacer :: pacer
  rp_snap :: Metrics
  rp_seen :: nat
  rp_slept :: int

definition capture_size :: "capture_host \<Rightarrow> int" where
  "capture_size h = (case cp_size h of Some n \<Rightarrow> n | None \<Rightarrow> 0)"

text \<open>The callback of \<open>ReadRecords\<close>.\<close>

definition replay_event ::
  "world \<Rightarrow> capture_host \<Rightarrow> replay_state \<Rightarrow> Event \<Rightarrow> replay_state \<times> goerror option"
where
  "replay_event w h st ev =
     (case pacer_wait (cp_float h) (cp_done h (rp_seen st)) (rp_pacer st) (ev_Timestamp ev) of
        (p, slept, Some e) \<Rightarrow>
          (st\<lparr>rp_pacer := p, rp_seen := Suc (rp_seen st), rp_slept := rp_slept st + slept\<rparr>, Some e)
      | (p, slept, None) \<Rightarrow>
          let ag = process w (rp_agent st) ev;
              progress = progressOf (fl_round (cp_float h)) (cp_read h (rp_seen st)) (capture_size h)
          in (\<lparr>rp_agent = ag, rp_pacer = p, rp_snap = metrics_refresh True None progress ag,
               rp_seen = Suc (rp_seen st), rp_slept = rp_slept st + slept\<rparr>, None))"

text \<open>The screen of the last frame.\<close>

record screen =
  sr_terminal :: terminal
  sr_out :: "string \<Rightarrow> goerror option"
  sr_views :: "nat \<Rightarrow> Dashboard \<times> moment"

text \<open>\<open>dash.Close()\<close>, for the sink that is the dashboard; \<open>None\<close> when it never returns.\<close>

definition finish_sink :: "screen \<Rightarrow> sink option \<Rightarrow> sink option option" where
  "finish_sink sr s =
     (case s of
        Some (DashOut d) \<Rightarrow>
          (case Dashboard_Close (sr_terminal sr) (sr_out sr) (sr_views sr) d of
             Blocked _ \<Rightarrow> None
           | Closed d _ _ \<Rightarrow> Some (Some (DashOut d)))
      | _ \<Rightarrow> Some s)"

definition finishDisplay :: "screen \<Rightarrow> agent \<Rightarrow> agent option" where
  "finishDisplay sr ag = map_option (\<lambda>ss. ag\<lparr>ag_sinks := ss\<rparr>) (those (map (finish_sink sr) (ag_sinks ag)))"

datatype notice = ReplayInterrupted | NothingReplayed

record replay_end =
  re_agent :: agent
  re_snap :: Metrics
  re_summary :: "string \<times> u64 option"
  re_notice :: "notice option"
  re_err :: "goerror option"

text \<open>\<open>Inl\<close> is the error of opening the capture; \<open>None\<close> a display that never closes.\<close>

definition replay ::
  "world \<Rightarrow> capture_host \<Rightarrow> reader \<Rightarrow> screen \<Rightarrow> string \<Rightarrow> float64 \<Rightarrow> agent \<Rightarrow> Metrics \<Rightarrow> (goerror + replay_end) option"
where
  "replay w h rd sr path speed ag snap =
     (case cp_open h of
        Inl e \<Rightarrow> Some (Inl (errorf ''opening capture: '' e))
      | Inr r \<Rightarrow>
          (case ReadRecords rd r (replay_event w h)
             \<lparr>rp_agent = ag, rp_pacer = newPacer speed, rp_snap = snap, rp_seen = 0, rp_slept = 0\<rparr> of
           (st, err) \<Rightarrow>
             (let interrupted = (case err of Some e \<Rightarrow> errors_Is e ErrInterrupted | None \<Rightarrow> False);
                  snap = (if \<not> interrupted \<and> err = None then metrics_refresh True None 1 (rp_agent st) else rp_snap st)
              in case finishDisplay sr (rp_agent st) of
                   None \<Rightarrow> None
                 | Some ag \<Rightarrow> Some (Inr
                     \<lparr>re_agent = ag, re_snap = snap, re_summary = printSummary None ag,
                      re_notice =
                        (if interrupted then Some ReplayInterrupted
                         else if err = None \<and> ct_observed (ag_counters ag) = 0 then Some NothingReplayed else None),
                      re_err =
                        (if interrupted then None
                         else case err of Some e \<Rightarrow> Some (errorf (''replaying '' @ path @ '': '') e) | None \<Rightarrow> None)\<rparr>))))"

section \<open>Pacing is bounded\<close>

text \<open>C38. A pause is short and can be interrupted.  For every event of a replay, whatever its timestamp, the
  speed and the floating-point unit: the replay sleeps at most two seconds, and only when it is paced,
  has seen an event before and the clock of the capture has advanced.  When the context is done before
  the wait, or ends a sleep, the callback returns \<open>errInterrupted\<close> and neither the event nor the pacer is
  touched; in every other case the event is processed, after a sleep or none, and the next gap is
  measured from it.\<close>

theorem pacer_bounded:
  "let p = rp_pacer st; ctx = cp_done h (rp_seen st); t = ev_Timestamp ev;
       sleeps = (\<not> unpaced (pc_speed p) \<and> \<not> pc_first p \<and> pc_prev p < t);
       stopped = (fst ctx \<or> sleeps \<and> snd ctx);
       (st', err) = replay_event w h st ev; slept = rp_slept st' - rp_slept st
   in 0 \<le> slept \<and> slept \<le> 2000000000 \<and> (slept = 0 \<or> sleeps \<and> \<not> fst ctx) \<and>
      err = (if stopped then Some errInterrupted else None) \<and>
      rp_agent st' = (if stopped then rp_agent st else process w (rp_agent st) ev) \<and>
      rp_pacer st' = (if stopped \<or> unpaced (pc_speed p) then p else p\<lparr>pc_first := False, pc_prev := t\<rparr>)"
  by (cases "cp_done h (rp_seen st)"; cases "rp_pacer st")
    (auto simp: replay_event_def pacer_wait_def Let_def)


section \<open>A replay finds what the live agent found\<close>

text \<open>The events a scope lets through.\<close>

fun scoped :: "pidFilter option \<Rightarrow> Event list \<Rightarrow> Event list" where
  "scoped f [] = []"
| "scoped None (ev # evs) = ev # scoped None evs"
| "scoped (Some f) (ev # evs) =
     (case Allow f ev of (f, ok) \<Rightarrow> (if ok then ev # scoped (Some f) evs else scoped (Some f) evs))"

lemma process_filter:
  "ag_filter (process w ag ev) = (case ag_filter ag of None \<Rightarrow> None | Some f \<Rightarrow> Some (fst (Allow f ev)))"
  by (simp add: process_cases in_scope_def split: option.split prod.split)

lemma in_scope_iff: "snd (in_scope ag ev) = (case ag_filter ag of None \<Rightarrow> True | Some f \<Rightarrow> snd (Allow f ev))"
  by (simp add: in_scope_def split: option.split prod.split)

lemma written_all_append: "written_all w (as @ bs) s = written_all w bs (written_all w as s)"
  by (simp add: written_all_def)

lemma written_all_Nil: "map (map_option (written_all w [])) ss = ss"
proof -
  have "written_all w [] = id" by (rule ext) (simp add: written_all_def)
  then show ?thesis by (simp only: option.map_id0 list.map_id)
qed

lemma written_all_twice:
  "map (map_option (written_all w bs)) (map (map_option (written_all w as)) ss) = map (map_option (written_all w (as @ bs))) ss"
proof -
  have "map_option (written_all w bs) (map_option (written_all w as) s) = map_option (written_all w (as @ bs)) s" for s
    by (cases s) (simp_all add: written_all_append)
  then show ?thesis by simp
qed

lemma scoped_Cons:
  "scoped f (ev # evs) =
     (if (case f of None \<Rightarrow> True | Some f \<Rightarrow> snd (Allow f ev)) then [ev] else []) @
     scoped (case f of None \<Rightarrow> None | Some f \<Rightarrow> Some (fst (Allow f ev))) evs"
  by (cases f) (simp_all split: prod.split)

lemma processed_agent:
  "ag_engine (processed w evs ag) = fold (\<lambda>ev e. fst (Engine_Evaluate e ev)) (scoped (ag_filter ag) evs) (ag_engine ag) \<and>
   ag_sinks (processed w evs ag) =
     map (map_option (written_all w (raised (ag_engine ag) (scoped (ag_filter ag) evs)))) (ag_sinks ag)"
proof (induction evs arbitrary: ag)
  case Nil
  then show ?case by (simp add: processed_def written_all_Nil)
next
  case (Cons ev evs)
  have step: "processed w (ev # evs) ag = processed w evs (process w ag ev)" by (simp add: processed_def)
  show ?case
  proof (cases "snd (in_scope ag ev)")
    case True
    then have "ag_engine (process w ag ev) = fst (Engine_Evaluate (ag_engine ag) ev)"
      "ag_sinks (process w ag ev) = map (map_option (written_all w (snd (Engine_Evaluate (ag_engine ag) ev)))) (ag_sinks ag)"
      by (simp_all add: process_cases)
    then show ?thesis using True Cons [of "process w ag ev"] unfolding step in_scope_iff process_filter scoped_Cons
      by (simp only: if_True append_Cons append_Nil raised.simps fold_simps written_all_twice)
  next
    case False
    then have "ag_engine (process w ag ev) = ag_engine ag" "ag_sinks (process w ag ev) = ag_sinks ag"
      by (simp_all add: process_cases)
    then show ?thesis using False Cons [of "process w ag ev"] unfolding step in_scope_iff process_filter scoped_Cons
      by (simp only: if_False append_Nil)
  qed
qed

lemma scoped_None [simp]: "scoped None evs = evs"
  by (induction evs) simp_all

lemma raised_recorded:
  "set (en_rules e) \<subseteq> set allRules \<Longrightarrow> list_all entry_result evs \<Longrightarrow>
   raised e (map recorded evs) = map to_ms (raised e evs) \<and>
   fold (\<lambda>ev e. fst (Engine_Evaluate e ev)) (map recorded evs) e = fold (\<lambda>ev e. fst (Engine_Evaluate e ev)) evs e"
  by (induction evs arbitrary: e) (simp_all add: Evaluate_recorded keep)


text \<open>An event the debug log can hold and a replay can read back: a call with a name, with no result before it
  returns; an encoding that is one line, not blank, below the limit of the reader, and that \<open>encoding/json\<close>
  reads back as the record it was made of (invalid UTF-8 in a text, say, does not survive).\<close>

definition capture_line :: "log_host \<Rightarrow> Event \<Rightarrow> string" where
  "capture_line h ev = (case lh_record h (NewRecord ev) of Inl _ \<Rightarrow> [] | Inr text \<Rightarrow> text)"

definition capturable :: "log_host \<Rightarrow> reader \<Rightarrow> Event \<Rightarrow> bool" where
  "capturable h rd ev \<longleftrightarrow>
     recordable ev \<and> entry_result ev \<and> lh_record h (NewRecord ev) = Inr (capture_line h ev) \<and>
     rd_unmarshal rd (capture_line h ev) = Inr (NewRecord ev) \<and> \<not> blank (capture_line h ev) \<and>
     newline \<notin> set (capture_line h ev) \<and> length (capture_line h ev) < maxRecordLine \<and>
     last (capture_line h ev) \<noteq> CHR 0x0D"

definition capture_text :: "log_host \<Rightarrow> Event list \<Rightarrow> string" where
  "capture_text h evs = concat (map (\<lambda>ev. capture_line h ev @ [newline]) evs)"

definition disk_writes :: "log_host \<Rightarrow> bool" where
  "disk_writes h \<longleftrightarrow> (\<forall>content data. lh_write h content data = Wrote)"

text \<open>The debug log of a live run.\<close>

lemma process_debug:
  "ag_debug (process w ag ev) = (if snd (in_scope ag ev) then ag_debug (write_debug w ev ag) else ag_debug ag)"
proof -
  have "ag_debug (write_debug w ev (bump_observed (fst (in_scope ag ev)))) = ag_debug (write_debug w ev ag)"
    by (simp add: write_debug_def split: option.split prod.split)
  then show ?thesis by (simp add: process_cases)
qed

lemma debug_line:
  assumes "ag_debug ag = Some f" and "lf_open f" and "lf_err f = None" and "disk_writes (w_log w)"
    and "lh_record (w_log w) (NewRecord ev) = Inr (capture_line (w_log w) ev)"
  shows "ag_debug (write_debug w ev ag) = Some (f\<lparr>lf_content := lf_content f @ capture_line (w_log w) ev @ [newline]\<rparr>)"
  using assms by (simp add: write_debug_def WriteEvent_def Encode_def disk_writes_def Let_def)

lemma debug_log:
  "ag_debug ag = Some f \<Longrightarrow> lf_open f \<Longrightarrow> lf_err f = None \<Longrightarrow> disk_writes (w_log w) \<Longrightarrow>
   list_all (capturable (w_log w) rd) (scoped (ag_filter ag) evs) \<Longrightarrow>
   ag_debug (processed w evs ag) =
     Some (f\<lparr>lf_content := lf_content f @ capture_text (w_log w) (scoped (ag_filter ag) evs)\<rparr>)"
proof (induction evs arbitrary: ag f)
  case Nil
  then show ?case by (simp add: processed_def capture_text_def)
next
  case (Cons ev evs)
  have step: "processed w (ev # evs) ag = processed w evs (process w ag ev)" by (simp add: processed_def)
  let ?in = "snd (in_scope ag ev)"
  let ?f = "if ?in then f\<lparr>lf_content := lf_content f @ capture_line (w_log w) ev @ [newline]\<rparr> else f"
  have here: "scoped (ag_filter ag) (ev # evs) = (if ?in then [ev] else []) @ scoped (ag_filter (process w ag ev)) evs"
    unfolding scoped_Cons in_scope_iff process_filter ..
  have "lh_record (w_log w) (NewRecord ev) = Inr (capture_line (w_log w) ev)" if ?in
    using Cons.prems(5) that unfolding here by (simp add: capturable_def)
  then have "ag_debug (process w ag ev) = Some ?f"
    using Cons.prems(1) debug_line [OF Cons.prems(1-4)] unfolding process_debug by simp
  from Cons.IH [OF this] Cons.prems(2-5) show ?case
    unfolding here step by (cases ?in) (simp_all add: capture_text_def)
qed

lemma capture_lines:
  "list_all (capturable h rd) evs \<Longrightarrow> scan_lines (capture_text h evs) = (map (capture_line h) evs, False)"
proof -
  assume c: "list_all (capturable h rd) evs"
  have "split_on newline (capture_text h evs) = map (capture_line h) evs @ [[]]"
    using c by (induction evs) (simp_all add: capture_text_def capturable_def split_on_append del: newline_def)
  moreover have "scan_pieces (map (capture_line h) evs @ [[]]) = (map (capture_line h) evs, False)"
    using c by (induction evs) (simp_all add: capturable_def dropCR_def)
  ultimately show ?thesis by (simp add: scan_lines_def)
qed

lemma replay_event_calm:
  assumes "cp_done h (rp_seen st) = (False, False)"
  shows "\<exists>st'. replay_event w h st ev = (st', None) \<and> rp_agent st' = process w (rp_agent st) ev \<and> rp_seen st' = Suc (rp_seen st)"
  using assms by (auto simp: replay_event_def pacer_wait_def Let_def split: prod.splits)

lemma replay_lines:
  assumes "\<And>n. cp_done h n = (False, False)" and "list_all (capturable lh rd) evs"
  shows "\<exists>st'. records_loop rd (replay_event w h) (map (capture_line lh) evs) n None st = (st', None) \<and>
    rp_agent st' = processed w (map recorded evs) (rp_agent st)"
  using assms(2)
proof (induction evs arbitrary: n st)
  case Nil
  then show ?case by (simp add: processed_def)
next
  case (Cons ev evs)
  obtain st' where st': "replay_event w h st (recorded ev) = (st', None)"
    "rp_agent st' = process w (rp_agent st) (recorded ev)"
    using replay_event_calm [OF assms(1)] by blast
  have "records_loop rd (replay_event w h) (map (capture_line lh) (ev # evs)) n None st =
      records_loop rd (replay_event w h) (map (capture_line lh) evs) (n + 1) None st'"
    using Cons.prems st' by (simp add: capturable_def blank_def Record_Event_NewRecord)
  then show ?case using Cons.IH [of "n + 1" st'] Cons.prems st'(2) by (simp add: processed_def)
qed


section \<open>Live run and replay\<close>

text \<open>The options of two runs that detection reads.\<close>

definition same_detection :: "config \<Rightarrow> config \<Rightarrow> bool" where
  "same_detection cfg rcfg \<longleftrightarrow>
     cf_rules rcfg = cf_rules cfg \<and> cf_window rcfg = cf_window cfg \<and> cf_ignoreLoop rcfg = cf_ignoreLoop cfg \<and>
     cf_ignoreSelf rcfg = cf_ignoreSelf cfg \<and> cf_dedupWindow rcfg = cf_dedupWindow cfg \<and>
     cf_noStoryline rcfg = cf_noStoryline cfg \<and> cf_chainThreshold rcfg = cf_chainThreshold cfg \<and>
     cf_chainWindow rcfg = cf_chainWindow cfg"

definition run_engine :: "config \<Rightarrow> readFile \<Rightarrow> (string \<Rightarrow> FileMode option) \<Rightarrow> u32 \<Rightarrow> (nat \<Rightarrow> bool) \<Rightarrow> string + Engine" where
  "run_engine cfg proc stat pid isPrint =
     NewEngine (engine_config cfg proc (DefaultConfig stat pid isPrint)) (splitRules (cf_rules cfg))"

text \<open>An event that is not the live agent's own (nor of process 0, which a replay takes for its own), and
  whose executed file has the mode on the replaying host that it had on the captured one.\<close>

definition transferable :: "(string \<Rightarrow> FileMode option) \<Rightarrow> u32 \<Rightarrow> (string \<Rightarrow> FileMode option) \<Rightarrow> Event \<Rightarrow> bool" where
  "transferable stat pid stat' ev \<longleftrightarrow>
     ev_PID ev \<noteq> pid \<and> ev_PID ev \<noteq> 0 \<and>
     (ev_SyscallID ev \<in> {SysExecve, SysExecveat} \<longrightarrow> stat' (ev_Path ev) = stat (ev_Path ev))"

lemma NewEngine_cfg:
  "NewEngine cfg enabled = Inr e \<Longrightarrow>
   en_cfg e = (if sint (cfg_RevShellWindow cfg) \<le> 0 then cfg\<lparr>cfg_RevShellWindow := 2000000000\<rparr> else cfg)"
  by (auto simp: NewEngine_def Let_def split: if_splits prod.splits)

lemma run_engines:
  assumes "run_engine cfg proc stat pid isPrint = Inr e" and "run_engine rcfg proc' stat' pid' isPrint = Inr e'"
    and "\<not> replaying cfg" and "replaying rcfg" and "same_detection cfg rcfg"
  shows "deaf_twin e e'" and "transferable stat pid stat' ev \<Longrightarrow> foreign (en_cfg e) (en_cfg e') ev"
proof -
  let ?c = "engine_config cfg proc (DefaultConfig stat pid isPrint)"
  let ?c' = "engine_config rcfg proc' (DefaultConfig stat' pid' isPrint)"
  have opts: "same_options ?c ?c'"
    using assms(3-5) by (simp add: same_options_def engine_config_def same_detection_def DefaultConfig_def
        DefaultStorylineConfig_def Let_def)
  have rules: "splitRules (cf_rules rcfg) = splitRules (cf_rules cfg)" using assms(5) by (simp add: same_detection_def)
  show "deaf_twin e e'"
    by (rule NewEngine_twin [OF _ _ opts]) (use assms(1,2) rules in \<open>simp_all add: run_engine_def\<close>)
  have "en_cfg e = (if sint (cfg_RevShellWindow ?c) \<le> 0 then ?c\<lparr>cfg_RevShellWindow := 2000000000\<rparr> else ?c)"
    "en_cfg e' = (if sint (cfg_RevShellWindow ?c') \<le> 0 then ?c'\<lparr>cfg_RevShellWindow := 2000000000\<rparr> else ?c')"
    by (rule NewEngine_cfg [OF assms(1) [unfolded run_engine_def]], rule NewEngine_cfg [OF assms(2) [unfolded run_engine_def]])
  then show "transferable stat pid stat' ev \<Longrightarrow> foreign (en_cfg e) (en_cfg e') ev"
    using assms(3-5) by (simp add: foreign_def same_view_def transferable_def engine_config_def same_detection_def
        DefaultConfig_def Let_def)
qed

lemma findings_ms: "findings (map to_ms as) = map to_ms (findings as)"
proof -
  have "finding (to_ms a) = to_ms (finding a)" "al_Rule (to_ms a) = al_Rule a" for a
    by (simp_all add: finding_def to_ms_def)
  then show ?thesis by (induction as) (simp_all add: findings_def)
qed

text \<open>The alerts of a capture, on a host that can transfer its events.\<close>

lemma replayed_alerts:
  assumes "run_engine cfg proc stat pid isPrint = Inr e" and "run_engine rcfg proc' stat' pid' isPrint = Inr e'"
    and "\<not> replaying cfg" and "replaying rcfg" and "same_detection cfg rcfg"
    and "list_all entry_result evs" and "list_all (transferable stat pid stat') evs"
  shows "findings (raised e' (map recorded evs)) = map to_ms (findings (raised e evs))"
    and "described e evs \<Longrightarrow> raised e' (map recorded evs) = map to_ms (raised e evs)"
proof -
  note twin = run_engines(1) [OF assms(1-5)]
  have reg: "set (en_rules e) \<subseteq> set allRules" "set (en_rules e') \<subseteq> set allRules"
    using assms(1,2) NewEngine_registry unfolding run_engine_def by blast+
  have fr: "list_all (foreign (en_cfg e) (en_cfg e')) evs"
    using assms(7) run_engines(2) [OF assms(1-5)] by (auto simp: list_all_iff)
  have cut: "raised e' (map recorded evs) = map to_ms (raised e' evs)"
    using raised_recorded [OF reg(2) assms(6)] by simp
  show "findings (raised e' (map recorded evs)) = map to_ms (findings (raised e evs))"
    unfolding cut findings_ms raised_alike [OF twin_alike [OF twin] reg(1) fr] ..
  have zero: "0 \<notin> ev_PID ` set evs" using assms(7) by (auto simp: list_all_iff transferable_def)
  show "described e evs \<Longrightarrow> raised e' (map recorded evs) = map to_ms (raised e evs)"
    unfolding cut using raised_deaf [OF assms(1) [unfolded run_engine_def] twin fr zero] by simp
qed

text \<open>C3. A capture replays to the findings of the live run.  A live agent writes the debug log to an empty file
  on a disk that takes every write; another run with the same detection options, on the same or another
  host and at any speed, replays that file to its end, without a scope of its own.  For every event in the
  live scope: it is \<open>capturable\<close> (its line reads back as its record, see there), not of the agent or process
  0, and the file it executes has the same mode on the replaying host.  Then both runs give every sink the
  alerts of their engines in order, and the alerts of the rules are the same, with timestamps cut to the
  millisecond, but for the id of the story they are filed under.  Story ids and attack-chain alerts are the
  same too when correlation is off or the capture is \<open>described\<close>: within the chain window and the
  lineage's capacity, every parent has an event of its own before, or is unknown to \<open>/proc\<close> in the live
  run.\<close>

theorem replay_reproduces:
  assumes "run_engine cfg proc stat pid isPrint = Inr (ag_engine ag)" and "\<not> replaying cfg"
    and "run_engine rcfg proc' stat' pid' isPrint = Inr (ag_engine rag)" and "replaying rcfg"
    and "same_detection cfg rcfg" and "ag_filter rag = None"
    and "NewEventSink (w_log w) path = Inr f" and "lf_content f = []" and "ag_debug ag = Some f"
    and "disk_writes (w_log w)"
    and "list_all (\<lambda>ev. capturable (w_log w) rd ev \<and> transferable stat pid stat' ev) (scoped (ag_filter ag) evs)"
    and "ag_debug (processed w evs ag) = Some capture" and "cp_open h = Inr (lf_content capture, None)"
    and "\<And>n. cp_done h n = (False, False)"
  shows "let seen = scoped (ag_filter ag) evs; alerts = raised (ag_engine ag) seen;
             alerts' = raised (ag_engine rag) (map recorded seen)
    in ag_sinks (processed w evs ag) = map (map_option (written_all w alerts)) (ag_sinks ag) \<and>
      (\<exists>rag'. ag_sinks rag' = map (map_option (written_all w' alerts')) (ag_sinks rag) \<and>
        (case replay w' h rd sr (cf_replayPath rcfg) (cf_replaySpeed rcfg) rag snap of
           None \<Rightarrow> finishDisplay sr rag' = None
         | Some (Inl e) \<Rightarrow> False
         | Some (Inr r) \<Rightarrow> finishDisplay sr rag' = Some (re_agent r) \<and> re_err r = None)) \<and>
      findings alerts' = map to_ms (findings alerts) \<and>
      (described (ag_engine ag) seen \<longrightarrow> alerts' = map to_ms alerts)"
proof -
  let ?seen = "scoped (ag_filter ag) evs"
  let ?st = "\<lparr>rp_agent = rag, rp_pacer = newPacer (cf_replaySpeed rcfg), rp_snap = snap, rp_seen = 0, rp_slept = 0\<rparr>"
  let ?rag = "processed w' (map recorded ?seen) rag"
  have seen: "list_all (capturable (w_log w) rd) ?seen" "list_all (transferable stat pid stat') ?seen"
    using assms(11) by (simp_all add: list_all_iff)
  then have er: "list_all entry_result ?seen" by (simp add: list_all_iff capturable_def)
  have fresh: "lf_open f" "lf_err f = None" using assms(7) by (auto simp: NewEventSink_def open_log_def split: sum.splits)
  have capture: "lf_content capture = capture_text (w_log w) ?seen"
    using debug_log [OF assms(9) fresh assms(10) seen(1)] assms(8,12) by auto
  obtain st where st: "records_loop rd (replay_event w' h) (map (capture_line (w_log w)) ?seen) 0 None ?st = (st, None)"
    "rp_agent st = ?rag"
    using replay_lines [OF assms(14) seen(1), of w' 0 ?st] by auto
  have "ReadRecords rd (capture_text (w_log w) ?seen, None) (replay_event w' h) ?st = (st, None)"
    by (simp add: ReadRecords_def capture_lines [OF seen(1)] st(1))
  then have "case replay w' h rd sr (cf_replayPath rcfg) (cf_replaySpeed rcfg) rag snap of
         None \<Rightarrow> finishDisplay sr ?rag = None
       | Some (Inl e) \<Rightarrow> False
       | Some (Inr r) \<Rightarrow> finishDisplay sr ?rag = Some (re_agent r) \<and> re_err r = None"
    by (simp add: replay_def assms(13) capture st(2) Let_def split: option.split)
  moreover have "ag_sinks ?rag = map (map_option (written_all w' (raised (ag_engine rag) (map recorded ?seen)))) (ag_sinks rag)"
    using processed_agent [of w' "map recorded ?seen" rag] assms(6) by simp
  ultimately show ?thesis
    using processed_agent [of w evs ag] replayed_alerts [OF assms(1,3,2,4,5) er seen(2)] unfolding Let_def by blast
qed

text \<open>Two events of a live run on a host with nothing in \<open>/proc\<close>, the log that encodes them as two different
  lines, and a reader that tells the lines apart.\<close>

definition sample_event :: Event where
  "sample_event = Decode sample_raw 0"

definition sample_return :: Event where
  "sample_return = Decode (sample_raw\<lparr>r_Flags := 1, r_Ret := -13, r_Timestamp := 1000500000\<rparr>) 0"

definition sample_reader :: reader where
  "sample_reader =
     \<lparr>rd_isPrint = (\<lambda>_. True), rd_parse = (\<lambda>_. Inl (errors_New ''parse'')),
      rd_unmarshal = (\<lambda>line. if line = ''connect'' then Inr (NewRecord sample_event)
        else if line = ''connect: -13'' then Inr (NewRecord sample_return) else Inl (errors_New ''unmarshal''))\<rparr>"

definition sample_disk :: log_host where
  "sample_disk = (disk False)\<lparr>lh_record := (\<lambda>r.
     Inr (if rc_Exit r then rc_Syscall r @ '': '' @ FormatInt (rc_Ret r) else rc_Syscall r))\<rparr>"

definition sample_capture :: capture_host where
  "sample_capture =
     \<lparr>cp_open = Inr (capture_text sample_disk [sample_event, sample_return], None), cp_size = None, cp_read = (\<lambda>_. 0),
      cp_done = (\<lambda>_. (False, False)), cp_float = \<lparr>fl_round = (\<lambda>x. x), fl_overflow = (\<lambda>_. 0), fl_NaN = 0\<rparr>\<rparr>"

definition sample_agent :: "Engine \<Rightarrow> agent" where
  "sample_agent e =
     \<lparr>ag_engine = e, ag_sinks = [None, Some (ConsoleOut all_sink [])], ag_debug = Some sample_log, ag_filter = None,
      ag_counters = \<lparr>ct_observed = 0, ct_alerts = 0, ct_queueDropped = 0, ct_writeErrors = 0\<rparr>\<rparr>"

lemma sample_lines:
  "ev_IsExit sample_event = False" "ev_IsExit sample_return = True" "ev_ReturnValue sample_return = -13"
  "ev_ReturnValue sample_event = 0" "ev_Syscall sample_event = ''connect''" "ev_Syscall sample_return = ''connect''"
  "ev_PID sample_event = 1000" "ev_PID sample_return = 1000" "ev_PPID sample_event = 900" "ev_PPID sample_return = 900"
  "ev_SyscallID sample_event = SysConnect" "ev_SyscallID sample_return = SysConnect"
  "ev_Timestamp sample_event = 1000000000" "ev_Timestamp sample_return = 1000500000"
  by (simp_all add: sample_event_def sample_return_def Decode_def decode_base_def sample_raw_def Raw_IsExit_def
      decodeArgs_def decodeConnect_def Syscall_String_def syscallNames_def Let_def)

lemma sample_capturable: "list_all (capturable sample_disk sample_reader) [sample_event, sample_return]"
proof -
  have "recordable sample_event" unfolding sample_event_def
    by (rule Decode_recordable)
      (simp_all add: sample_raw_def syscallNames_def four_digit_year_def epoch_day_def day_of_def days_before_def)
  moreover have "recordable sample_return" unfolding sample_return_def
    by (rule Decode_recordable)
      (simp_all add: sample_raw_def syscallNames_def four_digit_year_def epoch_day_def day_of_def days_before_def)
  moreover have "FormatInt (-13 :: i64) = ''-13''" by (simp add: FormatInt_def dec_def nat_digits.simps digit_char_def)
  moreover have "TrimSpace ''connect'' = ''connect''" "TrimSpace ''connect: -13'' = ''connect: -13''"
    by (rule TrimSpace_firm; simp add: firm_def is_space_def)+
  ultimately show ?thesis
    by (simp add: capturable_def capture_line_def sample_disk_def sample_reader_def blank_def entry_result_def sample_lines)
qed

definition sample_run :: config where
  "sample_run = parseFlags_defaults\<lparr>cf_verbose := True\<rparr>"

definition sample_replay :: config where
  "sample_replay = parseFlags_defaults\<lparr>cf_replayPath := ''debug.jsonl''\<rparr>"

lemma default_engine: "\<exists>e. run_engine (parseFlags_defaults\<lparr>cf_verbose := v, cf_replayPath := p\<rparr>) proc stat pid isPrint = Inr e"
  by (simp add: run_engine_def parseFlags_defaults_def splitRules_def NewEngine_def Let_def)

lemma sample_described:
  assumes "run_engine sample_run (\<lambda>_. None) stat pid isPrint = Inr e"
  shows "described e [sample_event, sample_return]"
proof -
  have "en_correlator e = NewCorrelator (cfg_Storyline (engine_config sample_run (\<lambda>_. None) (DefaultConfig stat pid isPrint)))"
    using assms unfolding run_engine_def by (rule NewEngine_correlator)
  then show ?thesis
    by (simp add: described_def NewCorrelator_def engine_config_def sample_run_def parseFlags_defaults_def replaying_def
        DefaultConfig_def DefaultStorylineConfig_def unknown_to_def lookupProc_def readPPID_def remembered_def sample_lines Let_def)
qed

lemma console_keeps: "\<exists>out'. written_all w as (ConsoleOut c out) = ConsoleOut c out'"
proof (induction as arbitrary: out)
  case (Cons a as)
  have "fst (sink_write w (ConsoleOut c out) a) = ConsoleOut c (out @ fst (Console_Write (w_console w) c a))"
    by (simp add: sink_write_def split: prod.split)
  then show ?case using Cons by (simp add: written_all_def)
qed (simp add: written_all_def)

theorem replay_reproduces_witness:
  "\<forall>con w' sr snap. \<exists>e e' r.
     run_engine sample_run (\<lambda>_. None) quiet_host 1 (\<lambda>_. True) = Inr e \<and>
     run_engine sample_replay (\<lambda>_. None) quiet_host 2 (\<lambda>_. True) = Inr e' \<and>
     ag_debug (processed \<lparr>w_log = sample_disk, w_console = con\<rparr> [sample_event, sample_return] (sample_agent e)) =
       Some (sample_log\<lparr>lf_content := capture_text sample_disk [sample_event, sample_return]\<rparr>) \<and>
     replay w' sample_capture sample_reader sr ''debug.jsonl'' (Finite 0) (sample_agent e') snap = Some (Inr r) \<and>
     re_err r = None \<and>
     raised e' (map recorded [sample_event, sample_return]) = map to_ms (raised e [sample_event, sample_return])"
proof (intro allI)
  fix con w' sr snap
  let ?w = "\<lparr>w_log = sample_disk, w_console = con\<rparr>" and ?evs = "[sample_event, sample_return]"
  obtain e where e: "run_engine sample_run (\<lambda>_. None) quiet_host 1 (\<lambda>_. True) = Inr e"
    using default_engine [of "[]" True "\<lambda>_. None" quiet_host 1 "\<lambda>_. True"]
    by (auto simp: sample_run_def parseFlags_defaults_def)
  obtain e' where e': "run_engine sample_replay (\<lambda>_. None) quiet_host 2 (\<lambda>_. True) = Inr e'"
    using default_engine [of "''debug.jsonl''" False "\<lambda>_. None" quiet_host 2 "\<lambda>_. True"]
    by (auto simp: sample_replay_def parseFlags_defaults_def)
  have disk: "disk_writes (w_log ?w)" and sink: "NewEventSink (w_log ?w) ''a'' = Inr sample_log"
    by (simp_all add: disk_writes_def sample_disk_def disk_def NewEventSink_def open_log_def sample_log_def)
  have log: "lf_open sample_log" "lf_err sample_log = None" "lf_content sample_log = []" by (simp_all add: sample_log_def)
  have ag: "run_engine sample_run (\<lambda>_. None) quiet_host 1 (\<lambda>_. True) = Inr (ag_engine (sample_agent e))"
    "run_engine sample_replay (\<lambda>_. None) quiet_host 2 (\<lambda>_. True) = Inr (ag_engine (sample_agent e'))"
    "ag_filter (sample_agent x) = None" "ag_debug (sample_agent x) = Some sample_log" for x
    using e e' by (simp_all add: sample_agent_def)
  have cfg: "\<not> replaying sample_run" "replaying sample_replay" "same_detection sample_run sample_replay"
    "cf_replayPath sample_replay = ''debug.jsonl''" "cf_replaySpeed sample_replay = Finite 0"
    by (simp_all add: replaying_def sample_run_def sample_replay_def parseFlags_defaults_def same_detection_def)
  have evs: "list_all (\<lambda>ev. capturable (w_log ?w) sample_reader ev \<and> transferable quiet_host 1 quiet_host ev)
      (scoped (ag_filter (sample_agent e)) ?evs)"
    using sample_capturable by (simp add: ag(3) transferable_def sample_lines)
  have capture: "ag_debug (processed ?w ?evs (sample_agent e)) =
      Some (sample_log\<lparr>lf_content := capture_text sample_disk ?evs\<rparr>)"
    using debug_log [OF ag(4) [of e] log(1,2) disk, of sample_reader ?evs] evs log(3) by (simp add: ag(3) list_all_iff)
  have host: "cp_open sample_capture = Inr (lf_content (sample_log\<lparr>lf_content := capture_text sample_disk ?evs\<rparr>), None)"
    "\<And>n. cp_done sample_capture n = (False, False)"
    by (simp_all add: sample_capture_def)
  note main = replay_reproduces [OF ag(1) cfg(1) ag(2) cfg(2,3) ag(3) sink log(3) ag(4) disk evs capture host,
      of w' sr snap, unfolded Let_def ag(3) scoped_None cfg(4,5)]
  then obtain rag where rag: "ag_sinks rag = map (map_option (written_all w'
        (raised (ag_engine (sample_agent e')) (map recorded ?evs)))) (ag_sinks (sample_agent e'))"
    and r: "case replay w' sample_capture sample_reader sr ''debug.jsonl'' (Finite 0) (sample_agent e') snap of
         None \<Rightarrow> finishDisplay sr rag = None
       | Some (Inl e) \<Rightarrow> False
       | Some (Inr r) \<Rightarrow> finishDisplay sr rag = Some (re_agent r) \<and> re_err r = None" by blast
  obtain out where "ag_sinks rag = [None, Some (ConsoleOut all_sink out)]"
    using rag console_keeps by (fastforce simp: sample_agent_def)
  then have "finishDisplay sr rag \<noteq> None" by (simp add: finishDisplay_def finish_sink_def)
  with r obtain r' where "replay w' sample_capture sample_reader sr ''debug.jsonl'' (Finite 0) (sample_agent e') snap = Some (Inr r')"
    "re_err r' = None"
    by (auto split: option.splits sum.splits)
  moreover have "raised e' (map recorded ?evs) = map to_ms (raised e ?evs)"
    using main sample_described [OF e] by (simp add: sample_agent_def)
  ultimately show "\<exists>e e' r.
     run_engine sample_run (\<lambda>_. None) quiet_host 1 (\<lambda>_. True) = Inr e \<and>
     run_engine sample_replay (\<lambda>_. None) quiet_host 2 (\<lambda>_. True) = Inr e' \<and>
     ag_debug (processed ?w ?evs (sample_agent e)) =
       Some (sample_log\<lparr>lf_content := capture_text sample_disk ?evs\<rparr>) \<and>
     replay w' sample_capture sample_reader sr ''debug.jsonl'' (Finite 0) (sample_agent e') snap = Some (Inr r) \<and>
     re_err r = None \<and> raised e' (map recorded ?evs) = map to_ms (raised e ?evs)"
    using e e' capture by blast
qed

end
