(* ===== verification/Terminal.thy ===== *)
theory Terminal
  imports Dashboard
begin

text \<open>
  \<^verbatim>\<open>output/term_unix.go\<close> and \<^verbatim>\<open>term_other.go\<close>: what the program makes of the answers of the operating system
  about its output.  A writer is as in \<open>Console\<close>: \<open>None\<close> for one that is no file, \<open>Some None\<close> when \<open>Stat\<close> fails,
  and otherwise whether the file is a character device.  The window size is what the \<open>ioctl\<close> answers,
  \<open>None\<close> for an error.
\<close>

definition terminalSize_unix :: "bool option option \<Rightarrow> (u16 \<times> u16) option \<Rightarrow> int \<times> int" where
  "terminalSize_unix f ws =
     (case f of
        None \<Rightarrow> (0, 0)
      | Some _ \<Rightarrow> (case ws of None \<Rightarrow> (0, 0) | Some (c, r) \<Rightarrow> (int (unat c), int (unat r))))"

definition terminalSize_other :: "bool option option \<Rightarrow> int \<times> int" where
  "terminalSize_other f = (0, 0)"

definition isTerminal_unix :: "bool option option \<Rightarrow> bool" where
  "isTerminal_unix f = (case f of None \<Rightarrow> False | Some None \<Rightarrow> False | Some (Some device) \<Rightarrow> device)"

definition isTerminal_other :: "bool option option \<Rightarrow> bool" where
  "isTerminal_other f = (case f of None \<Rightarrow> False | Some None \<Rightarrow> False | Some (Some device) \<Rightarrow> device)"

text \<open>The build tag decides which file is compiled.\<close>

definition terminalSize :: "bool \<Rightarrow> bool option option \<Rightarrow> (u16 \<times> u16) option \<Rightarrow> int \<times> int" where
  "terminalSize unix f ws = (if unix then terminalSize_unix f ws else terminalSize_other f)"

definition DashboardUsable :: "bool \<Rightarrow> bool option option \<Rightarrow> bool" where
  "DashboardUsable unix f = (if unix then isTerminal_unix f else isTerminal_other f)"

text \<open>The terminal a dashboard sees.\<close>

definition terminal_of :: "bool \<Rightarrow> bool option option \<Rightarrow> (u16 \<times> u16) option \<Rightarrow> string \<Rightarrow> string \<Rightarrow> terminal" where
  "terminal_of unix f ws columns lins =
     \<lparr>tm_cols = fst (terminalSize unix f ws), tm_rows = snd (terminalSize unix f ws),
      tm_COLUMNS = columns, tm_LINES = lins\<rparr>"

lemma DashboardUsable_iff [simp]: "DashboardUsable unix f \<longleftrightarrow> f = Some (Some True)"
  by (auto simp: DashboardUsable_def isTerminal_unix_def isTerminal_other_def split: option.splits)

text \<open>Both builds size a frame alike except that only the unix one asks the terminal: its answer wins over the
  environment, and without an answer both fall back to the environment and then to 100 by 30.\<close>

lemma terminal_dimensions:
  "terminalWidth (terminal_of True (Some d) (Some (c, r)) columns lins) =
     (if c = 0 then terminalWidth (terminal_of False (Some d) None columns lins) else int (unat c))"
  "terminalHeight (terminal_of True (Some d) (Some (c, r)) columns lins) =
     (if r = 0 then terminalHeight (terminal_of False (Some d) None columns lins) else int (unat r))"
  "terminal_of True f None columns lins = terminal_of False f ws columns lins"
proof -
  have "0 < uint w \<longleftrightarrow> w \<noteq> 0" for w :: u16 by (metis less_le uint_0_iff uint_ge_0)
  then show
    "terminalWidth (terminal_of True (Some d) (Some (c, r)) columns lins) =
       (if c = 0 then terminalWidth (terminal_of False (Some d) None columns lins) else int (unat c))"
    "terminalHeight (terminal_of True (Some d) (Some (c, r)) columns lins) =
       (if r = 0 then terminalHeight (terminal_of False (Some d) None columns lins) else int (unat r))"
    by (simp_all add: terminal_of_def terminalSize_def terminalSize_unix_def terminalSize_other_def terminalWidth_def
      terminalHeight_def split: option.splits)
qed (simp add: terminal_of_def terminalSize_def terminalSize_unix_def terminalSize_other_def split: option.splits)

lemma dimensions_positive: "terminalWidth t > 0" "terminalHeight t > 0"
  by (auto simp: terminalWidth_def terminalHeight_def split: option.splits)

end
