(* ===== verification/Flags.thy ===== *)
theory Flags
  imports Agent GoNumber
begin

text \<open>
  \<open>parseFlags\<close> of \<^verbatim>\<open>cmd/krnlsentry/main.go\<close>: the options with their usage texts and defaults, the flag set of
  package \<^verbatim>\<open>flag\<close> that reads them from the arguments, and the text of \<open>Usage\<close>.  What reads a floating-point
  number and which runes are printable are a \<open>flag_host\<close>; a number it reads is finite.
\<close>

section \<open>Options\<close>

datatype flag_var =
    IntVar "int \<Rightarrow> config \<Rightarrow> config" int
  | StringVar "string \<Rightarrow> config \<Rightarrow> config" string
  | BoolVar "bool \<Rightarrow> config \<Rightarrow> config" bool
  | DurationVar "Duration \<Rightarrow> config \<Rightarrow> config" Duration
  | Float64Var "float64 \<Rightarrow> config \<Rightarrow> config"

text \<open>A variable is how it is assigned and its default; the one floating-point option has the default 0.\<close>

record flag =
  fg_name :: string
  fg_var :: flag_var
  fg_usage :: string

definition option_flag :: "string \<Rightarrow> flag_var \<Rightarrow> string \<Rightarrow> flag" where
  "option_flag name var usage = \<lparr>fg_name = name, fg_var = var, fg_usage = usage\<rparr>"

definition option_flags :: "flag list" where
  "option_flags =
     [option_flag ''pid'' (IntVar (\<lambda>v c. c\<lparr>cf_pid := v\<rparr>) 0)
        ''monitor only this PID and its descendants (default: system-wide)'',
      option_flag ''output'' (StringVar (\<lambda>v c. c\<lparr>cf_outputPath := v\<rparr>) ''./alerts.jsonl'')
        ''path to the JSONL alert log'',
      option_flag ''rules'' (StringVar (\<lambda>v c. c\<lparr>cf_rules := v\<rparr>) [])
        ''comma-separated subset of rules to enable (default: all)'',
      option_flag ''verbose'' (BoolVar (\<lambda>v c. c\<lparr>cf_verbose := v\<rparr>) False)
        ''log every observed syscall to a separate debug log'',
      option_flag ''debug-output'' (StringVar (\<lambda>v c. c\<lparr>cf_debugPath := v\<rparr>) ''./debug.jsonl'')
        ''path to the verbose event log (used with --verbose)'',
      option_flag ''min-severity'' (StringVar (\<lambda>v c. c\<lparr>cf_minSeverity := v\<rparr>) ''LOW'')
        ''minimum severity to print to the console: LOW, MEDIUM, HIGH, CRITICAL'',
      option_flag ''window'' (DurationVar (\<lambda>v c. c\<lparr>cf_window := v\<rparr>) 2000000000)
        ''time window for the reverse-shell syscall chain'',
      option_flag ''no-color'' (BoolVar (\<lambda>v c. c\<lparr>cf_noColor := v\<rparr>) False)
        ''disable coloured console output'',
      option_flag ''color'' (BoolVar (\<lambda>v c. c\<lparr>cf_forceColor := v\<rparr>) False)
        ''force coloured output even when stdout is not a terminal'',
      option_flag ''ignore-loopback'' (BoolVar (\<lambda>v c. c\<lparr>cf_ignoreLoop := v\<rparr>) False)
        ''suppress reverse-shell alerts for connections to 127.0.0.0/8'',
      option_flag ''ignore-self-proc'' (BoolVar (\<lambda>v c. c\<lparr>cf_ignoreSelf := v\<rparr>) False)
        ''suppress sensitive-file alerts when a process reads its own /proc entry'',
      option_flag ''stats-interval'' (DurationVar (\<lambda>v c. c\<lparr>cf_statsInterval := v\<rparr>) 0)
        ''periodically log throughput statistics (0 disables)'',
      option_flag ''replay'' (StringVar (\<lambda>v c. c\<lparr>cf_replayPath := v\<rparr>) [])
        ''run the rules over a --verbose capture instead of the live kernel (no root, any OS)'',
      option_flag ''replay-speed'' (Float64Var (\<lambda>v c. c\<lparr>cf_replaySpeed := v\<rparr>))
        (''pace a --replay against the capture'' @ [CHR 0x27] @
          ''s own clock: 1 = real time, 2 = twice as fast, 0 = as fast as possible''),
      option_flag ''dashboard'' (BoolVar (\<lambda>v c. c\<lparr>cf_dashboard := v\<rparr>) False)
        ''replace the scrolling alert stream with a live full-screen dashboard (needs a terminal)'',
      option_flag ''dedup-window'' (DurationVar (\<lambda>v c. c\<lparr>cf_dedupWindow := v\<rparr>) 5000000000)
        ''fold identical alerts into one per window (0 disables)'',
      option_flag ''no-storyline'' (BoolVar (\<lambda>v c. c\<lparr>cf_noStoryline := v\<rparr>) False)
        ''disable cross-process storyline correlation and attack-chain alerts'',
      option_flag ''chain-threshold'' (IntVar (\<lambda>v c. c\<lparr>cf_chainThreshold := v\<rparr>) 3)
        ''distinct ATT&CK tactics in one process tree that raise an attack-chain alert'',
      option_flag ''chain-window'' (DurationVar (\<lambda>v c. c\<lparr>cf_chainWindow := v\<rparr>) 600000000000)
        ''how long a storyline stays open after its last alert'',
      option_flag ''version'' (BoolVar (\<lambda>v c. c\<lparr>cf_showVersion := v\<rparr>) False) ''print version and exit'',
      option_flag ''list-rules'' (BoolVar (\<lambda>v c. c\<lparr>cf_listRules := v\<rparr>) False)
        ''list available detection rules and exit'']"

text \<open>\<open>&config{}\<close>.\<close>

definition zero_config :: config where
  "zero_config =
     \<lparr>cf_pid = 0, cf_outputPath = [], cf_rules = [], cf_verbose = False, cf_debugPath = [], cf_minSeverity = [],
      cf_window = 0, cf_noColor = False, cf_forceColor = False, cf_ignoreLoop = False, cf_ignoreSelf = False,
      cf_statsInterval = 0, cf_showVersion = False, cf_listRules = False, cf_replayPath = [], cf_replaySpeed = Finite 0,
      cf_dashboard = False, cf_dedupWindow = 0, cf_noStoryline = False, cf_chainThreshold = 0, cf_chainWindow = 0\<rparr>"

text \<open>Declaring a flag assigns its default.\<close>

primrec assign_default :: "flag_var \<Rightarrow> config \<Rightarrow> config" where
  "assign_default (IntVar assign d) c = assign d c"
| "assign_default (StringVar assign d) c = assign d c"
| "assign_default (BoolVar assign d) c = assign d c"
| "assign_default (DurationVar assign d) c = assign d c"
| "assign_default (Float64Var assign) c = assign (Finite 0) c"

definition declared :: config where
  "declared = fold (\<lambda>fg. assign_default (fg_var fg)) option_flags zero_config"

section \<open>Reading the arguments\<close>

record flag_host =
  fh_isPrint :: "nat \<Rightarrow> bool"
  fh_ParseFloat :: "string \<Rightarrow> num_error + float64"
  fh_round :: "real \<Rightarrow> real"

primrec num_error_text :: "num_error \<Rightarrow> string" where
  "num_error_text ErrSyntax = ''parse error''"
| "num_error_text ErrRange = ''value out of range''"

text \<open>\<open>Set\<close>: the error, or the assignment.\<close>

primrec flag_set :: "flag_host \<Rightarrow> flag_var \<Rightarrow> string \<Rightarrow> string + (config \<Rightarrow> config)" where
  "flag_set h (IntVar assign d) s = (case ParseInt0 s of Inl e \<Rightarrow> Inl (num_error_text e) | Inr n \<Rightarrow> Inr (assign n))"
| "flag_set h (StringVar assign d) s = Inr (assign s)"
| "flag_set h (BoolVar assign d) s = (case ParseBool s of None \<Rightarrow> Inl ''parse error'' | Some b \<Rightarrow> Inr (assign b))"
| "flag_set h (DurationVar assign d) s =
     (case ParseDuration (fh_round h) s of None \<Rightarrow> Inl ''parse error'' | Some x \<Rightarrow> Inr (assign x))"
| "flag_set h (Float64Var assign) s =
     (case fh_ParseFloat h s of Inl e \<Rightarrow> Inl (num_error_text e) | Inr x \<Rightarrow> Inr (assign x))"

definition lookup_flag :: "string \<Rightarrow> flag option" where
  "lookup_flag name = List.find (\<lambda>fg. fg_name fg = name) option_flags"

primrec is_bool_flag :: "flag_var \<Rightarrow> bool" where
  "is_bool_flag (IntVar assign d) = False"
| "is_bool_flag (StringVar assign d) = False"
| "is_bool_flag (BoolVar assign d) = True"
| "is_bool_flag (DurationVar assign d) = False"
| "is_bool_flag (Float64Var assign) = False"

text \<open>The name of an option and the value behind its equals sign, which is not the first character.\<close>

definition name_value :: "string \<Rightarrow> string \<times> string option" where
  "name_value s =
     (case s of
        [] \<Rightarrow> ([], None)
      | c # cs \<Rightarrow>
          let n = takeWhile (\<lambda>x. x \<noteq> CHR ''='') cs
          in if length n = length cs then (s, None) else (c # n, Some (drop (Suc (length n)) cs)))"

text \<open>\<open>Parse\<close>, until the first argument that is no option: the options assigned so far, or the message that is
  printed before the usage text (none for a request for help).\<close>

fun parse_args :: "flag_host \<Rightarrow> config \<Rightarrow> string list \<Rightarrow> string + config" where
  "parse_args h cfg [] = Inr cfg"
| "parse_args h cfg (s # rest) =
     (if length s < 2 \<or> hd s \<noteq> CHR ''-'' \<or> s = ''--'' then Inr cfg
      else
        let body = drop (if s ! 1 = CHR ''-'' then 2 else 1) s in
        if hd body = CHR ''-'' \<or> hd body = CHR ''='' then Inl (line (''bad flag syntax: '' @ s))
        else case name_value body of (name, value) \<Rightarrow>
          (case lookup_flag name of
             None \<Rightarrow>
               if name = ''help'' \<or> name = ''h'' then Inl []
               else Inl (line (''flag provided but not defined: -'' @ name))
           | Some fg \<Rightarrow>
               if is_bool_flag (fg_var fg) then
                 (let v = (case value of None \<Rightarrow> ''true'' | Some v \<Rightarrow> v) in
                  case flag_set h (fg_var fg) v of
                    Inl e \<Rightarrow> Inl (line (''invalid boolean value '' @ Quote (fh_isPrint h) v @ '' for -'' @ name @ '': '' @ e))
                  | Inr assign \<Rightarrow> parse_args h (assign cfg) rest)
               else
                 (case value of
                    Some v \<Rightarrow>
                      (case flag_set h (fg_var fg) v of
                         Inl e \<Rightarrow> Inl (line (''invalid value '' @ Quote (fh_isPrint h) v @ '' for flag -'' @ name @ '': '' @ e))
                       | Inr assign \<Rightarrow> parse_args h (assign cfg) rest)
                  | None \<Rightarrow>
                      (case rest of
                         [] \<Rightarrow> Inl (line (''flag needs an argument: -'' @ name))
                       | v # rest \<Rightarrow>
                           (case flag_set h (fg_var fg) v of
                              Inl e \<Rightarrow> Inl (line (''invalid value '' @ Quote (fh_isPrint h) v @ '' for flag -'' @ name @ '': '' @ e))
                            | Inr assign \<Rightarrow> parse_args h (assign cfg) rest)))))"

declare parse_args.simps(2) [simp del]

section \<open>The usage text\<close>

text \<open>The name of the value's type, the default as it is written, and whether it is the zero value.\<close>

definition int_text :: "int \<Rightarrow> string" where
  "int_text n = (if n < 0 then CHR ''-'' # dec (nat (- n)) else dec (nat n))"

primrec type_text :: "flag_var \<Rightarrow> string" where
  "type_text (IntVar assign d) = '' int''"
| "type_text (StringVar assign d) = '' string''"
| "type_text (BoolVar assign d) = []"
| "type_text (DurationVar assign d) = '' duration''"
| "type_text (Float64Var assign) = '' float''"

primrec default_text :: "flag_host \<Rightarrow> flag_var \<Rightarrow> string" where
  "default_text h (IntVar assign d) = (if d = 0 then [] else '' (default '' @ int_text d @ '')'')"
| "default_text h (StringVar assign d) = (if d = [] then [] else '' (default '' @ Quote (fh_isPrint h) d @ '')'')"
| "default_text h (BoolVar assign d) = (if d then '' (default true)'' else [])"
| "default_text h (DurationVar assign d) = (if d = 0 then [] else '' (default '' @ Duration_String d @ '')'')"
| "default_text h (Float64Var assign) = []"

text \<open>No name of an option is a single letter and no usage text has a line break or a quoted name.\<close>

definition flag_lines :: "flag_host \<Rightarrow> flag \<Rightarrow> string" where
  "flag_lines h fg =
     line (''  -'' @ fg_name fg @ type_text (fg_var fg)) @
     line (''    '' @ [CHR 0x09] @ fg_usage fg @ default_text h (fg_var fg))"

definition PrintDefaults :: "flag_host \<Rightarrow> string" where
  "PrintDefaults h = concat (map (flag_lines h) (sort_key fg_name option_flags))"

definition Usage :: "flag_host \<Rightarrow> string" where
  "Usage h =
     line (''krnlsentry '' @ em_dash @ '' eBPF syscall monitoring and threat detection'') @ [newline] @
     line ''Usage:'' @ line ''  krnlsentry [flags]'' @ [newline] @ line ''Flags:'' @
     PrintDefaults h @
     [newline] @ line ''Rules:'' @
     concat (map (\<lambda>r. line (''  '' @ pad_right 24 (rule_Name r) @ '' '' @ rule_Description r)) AllRules) @
     line (''  '' @ pad_right 24 RuleNameAttackChain @
       '' Correlates alerts across a process tree into an ATT&CK kill chain'') @
     [newline] @ line ''Live monitoring requires root, or CAP_BPF and CAP_PERFMON.''"

definition errSilent :: goerror where
  "errSilent = errors_New []"

text \<open>What is printed on standard error, and the options or \<open>errSilent\<close>.\<close>

definition parseFlags :: "flag_host \<Rightarrow> string list \<Rightarrow> string \<times> (goerror + config)" where
  "parseFlags h args =
     (case parse_args h declared args of
        Inl msg \<Rightarrow> (msg @ Usage h, Inl errSilent)
      | Inr cfg \<Rightarrow> ([], Inr cfg))"

section \<open>What the options are\<close>

lemma declared_defaults: "declared = parseFlags_defaults"
  by (simp add: declared_def option_flags_def option_flag_def zero_config_def parseFlags_defaults_def)

section \<open>Options are read as they are written\<close>

text \<open>The ways to write an option, with one dash or two: the value behind an equals sign or as the next
  argument, or nothing for a switch.\<close>

datatype spelling = Joined bool string string | Apart bool string string | Bare bool string

definition dashes :: "bool \<Rightarrow> string" where
  "dashes two = (if two then ''--'' else ''-'')"

primrec spell :: "spelling \<Rightarrow> string list" where
  "spell (Joined two n v) = [dashes two @ n @ ''='' @ v]"
| "spell (Apart two n v) = [dashes two @ n, v]"
| "spell (Bare two n) = [dashes two @ n]"

text \<open>What a spelling assigns, if it is one of an option.\<close>

definition assignment :: "flag_host \<Rightarrow> (flag_var \<Rightarrow> bool) \<Rightarrow> string \<Rightarrow> string \<Rightarrow> (config \<Rightarrow> config) option" where
  "assignment h ok n v =
     (case lookup_flag n of
        None \<Rightarrow> None
      | Some fg \<Rightarrow> if ok (fg_var fg) then (case flag_set h (fg_var fg) v of Inl e \<Rightarrow> None | Inr f \<Rightarrow> Some f) else None)"

primrec meaning :: "flag_host \<Rightarrow> spelling \<Rightarrow> (config \<Rightarrow> config) option" where
  "meaning h (Joined two n v) = assignment h (\<lambda>_. True) n v"
| "meaning h (Apart two n v) = assignment h (\<lambda>var. \<not> is_bool_flag var) n v"
| "meaning h (Bare two n) = assignment h is_bool_flag n ''true''"

lemma option_names:
  "list_all (\<lambda>fg. fg_name fg \<noteq> [] \<and> hd (fg_name fg) \<noteq> CHR ''-'' \<and> CHR ''='' \<notin> set (fg_name fg)) option_flags"
  by (simp add: option_flags_def option_flag_def)

lemma lookup_flag_name:
  assumes "lookup_flag n = Some fg"
  shows "n \<noteq> []" "hd n \<noteq> CHR ''-''" "CHR ''='' \<notin> set n" "hd n \<noteq> CHR ''=''"
proof -
  have "fg \<in> set option_flags" "fg_name fg = n"
    using assms by (auto simp: lookup_flag_def find_Some_iff)
  then show n: "n \<noteq> []" "hd n \<noteq> CHR ''-''" "CHR ''='' \<notin> set n" using option_names by (auto simp: list_all_iff)
  then show "hd n \<noteq> CHR ''=''" using hd_in_set by metis
qed

lemma name_value_bare: "CHR ''='' \<notin> set n \<Longrightarrow> name_value n = (n, None)"
proof (cases n)
  case (Cons c cs)
  moreover assume "CHR ''='' \<notin> set n"
  ultimately have "takeWhile (\<lambda>x. x \<noteq> CHR ''='') cs = cs" unfolding takeWhile_eq_all_conv by auto
  then show ?thesis unfolding Cons name_value_def list.case Let_def by (simp only: if_True refl simp_thms)
qed (simp add: name_value_def)

lemma name_value_joined:
  assumes "CHR ''='' \<notin> set n" and "n \<noteq> []" shows "name_value (n @ ''='' @ v) = (n, Some v)"
proof (cases n)
  case (Cons c cs)
  then have "takeWhile (\<lambda>x. x \<noteq> CHR ''='') (cs @ CHR ''='' # v) = cs"
    using assms(1) by (auto simp: takeWhile_append)
  with Cons show ?thesis by (simp add: name_value_def)
qed (use assms in simp)

text \<open>The dashes are stripped.\<close>

lemma strip_dashes:
  assumes "n \<noteq> []" and "hd n \<noteq> CHR ''-''"
  shows "length (dashes two @ n @ t) \<ge> 2" "hd (dashes two @ n @ t) = CHR ''-''" "dashes two @ n @ t \<noteq> ''--''"
    "drop (if (dashes two @ n @ t) ! 1 = CHR ''-'' then 2 else 1) (dashes two @ n @ t) = n @ t"
  using assms by (cases n; cases two; simp add: dashes_def)+

lemma parse_option:
  assumes "2 \<le> length s" "hd s = CHR ''-''" "s \<noteq> ''--''" "drop (if s ! 1 = CHR ''-'' then 2 else 1) s = body"
    "hd body \<noteq> CHR ''-''" "hd body \<noteq> CHR ''=''" "name_value body = (n, value)" "lookup_flag n = Some fg"
  shows "value = Some v \<Longrightarrow> flag_set h (fg_var fg) v = Inr f \<Longrightarrow> parse_args h cfg (s # rest) = parse_args h (f cfg) rest"
    and "value = None \<Longrightarrow> is_bool_flag (fg_var fg) \<Longrightarrow> flag_set h (fg_var fg) ''true'' = Inr f \<Longrightarrow>
      parse_args h cfg (s # rest) = parse_args h (f cfg) rest"
    and "value = None \<Longrightarrow> \<not> is_bool_flag (fg_var fg) \<Longrightarrow> flag_set h (fg_var fg) v = Inr f \<Longrightarrow>
      parse_args h cfg (s # v # rest) = parse_args h (f cfg) rest"
  unfolding parse_args.simps(2) [of h cfg s] assms(4) using assms by (simp_all add: Let_def)

lemma parse_spelling:
  assumes "meaning h sp = Some f"
  shows "parse_args h cfg (spell sp @ rest) = parse_args h (f cfg) rest"
proof (cases sp)
  case (Joined two n v)
  then obtain fg where fg: "lookup_flag n = Some fg" and f: "flag_set h (fg_var fg) v = Inr f"
    using assms by (auto simp: assignment_def split: option.splits sum.splits)
  note n = lookup_flag_name [OF fg]
  have body: "hd (n @ ''='' @ v) = hd n" using n(1) by (rule hd_append2)
  have "parse_args h cfg ((dashes two @ n @ ''='' @ v) # rest) = parse_args h (f cfg) rest"
    by (rule parse_option(1) [OF strip_dashes [OF n(1,2)] _ _ name_value_joined [OF n(3,1)] fg refl f])
      (simp_all only: body n not_False_eq_True)
  then show ?thesis by (simp add: Joined)
next
  case (Apart two n v)
  then obtain fg where fg: "lookup_flag n = Some fg" "\<not> is_bool_flag (fg_var fg)" and f: "flag_set h (fg_var fg) v = Inr f"
    using assms by (auto simp: assignment_def split: option.splits sum.splits if_splits)
  note n = lookup_flag_name [OF fg(1)]
  have "parse_args h cfg ((dashes two @ n @ []) # v # rest) = parse_args h (f cfg) rest"
    by (rule parse_option(3) [OF strip_dashes [OF n(1,2)] _ _ _ fg(1) refl fg(2) f])
      (simp_all add: n name_value_bare)
  then show ?thesis by (simp add: Apart)
next
  case (Bare two n)
  then obtain fg where fg: "lookup_flag n = Some fg" "is_bool_flag (fg_var fg)" and f: "flag_set h (fg_var fg) ''true'' = Inr f"
    using assms by (auto simp: assignment_def split: option.splits sum.splits if_splits)
  note n = lookup_flag_name [OF fg(1)]
  have "parse_args h cfg ((dashes two @ n @ []) # rest) = parse_args h (f cfg) rest"
    by (rule parse_option(2) [OF strip_dashes [OF n(1,2)] _ _ _ fg(1) refl fg(2) f])
      (simp_all add: n name_value_bare)
  then show ?thesis by (simp add: Bare)
qed

lemma parse_spellings:
  "list_all (\<lambda>sp. meaning h sp \<noteq> None) sps \<Longrightarrow>
   parse_args h cfg (concat (map spell sps) @ rest) = parse_args h (fold (\<lambda>sp. the (meaning h sp)) sps cfg) rest"
  by (induction sps arbitrary: cfg) (auto simp: parse_spelling)

lemma parse_options:
  assumes "list_all (\<lambda>sp. meaning h sp \<noteq> None) sps"
    and "rest = [] \<or> length (hd rest) < 2 \<or> hd (hd rest) \<noteq> CHR ''-'' \<or> hd rest = ''--''"
  shows "parseFlags h (concat (map spell sps) @ rest) =
    ([], Inr (fold (\<lambda>sp. the (meaning h sp)) sps parseFlags_defaults))"
proof -
  have "parse_args h cfg rest = Inr cfg" for cfg
    using assms(2) by (cases rest) (auto simp: parse_args.simps(2))
  then show ?thesis by (simp add: parseFlags_def declared_defaults parse_spellings [OF assms(1)])
qed

text \<open>C10. Options mean what they say: every list of well-formed options, in whichever spelling, is read as the
  defaults overwritten by the options from left to right, a later one winning; and the first argument
  that is no option ends the reading, so that it and everything after it, options included, is ignored
  without a word.\<close>

theorem options_are_read:
  assumes "list_all (\<lambda>sp. meaning h sp \<noteq> None) sps"
    and "rest = [] \<or> length (hd rest) < 2 \<or> hd (hd rest) \<noteq> CHR ''-'' \<or> hd rest = ''--''"
  shows "parseFlags h (concat (map spell sps) @ rest) =
    ([], Inr (fold (\<lambda>sp. the (meaning h sp)) sps parseFlags_defaults))"
  by (rule parse_options [OF assms])

definition plain_flags :: flag_host where
  "plain_flags = \<lparr>fh_isPrint = (\<lambda>_. True), fh_ParseFloat = (\<lambda>_. Inl ErrSyntax), fh_round = id\<rparr>"

lemma parse_nothing: "parseFlags h [] = ([], Inr parseFlags_defaults)"
  using parse_options [of h "[]" "[]"] by simp

lemma parse_dashboard: "parseFlags h [''--dashboard''] = ([], Inr (parseFlags_defaults\<lparr>cf_dashboard := True\<rparr>))"
proof -
  have "meaning h (Bare True ''dashboard'') = Some (\<lambda>c. c\<lparr>cf_dashboard := True\<rparr>)"
    by (simp add: assignment_def lookup_flag_def option_flags_def option_flag_def ParseBool_def)
  then show ?thesis using parse_options [of h "[Bare True ''dashboard'']" "[]"] by (simp add: dashes_def)
qed

theorem options_are_read_witness:
  "parseFlags plain_flags [''--pid'', ''12'', ''-verbose'', ''--pid=7'', ''1234'', ''--dashboard''] =
    ([], Inr (parseFlags_defaults\<lparr>cf_pid := 7, cf_verbose := True\<rparr>))"
proof -
  let ?sps = "[Apart True ''pid'' ''12'', Bare False ''verbose'', Joined True ''pid'' ''7'']"
  have int: "ParseInt0 ''12'' = Inr 12" "ParseInt0 ''7'' = Inr 7"
    by (simp_all add: ParseInt0_def ParseUint0_def base_prefix_def go_digit_def)
  have m: "map (meaning plain_flags) ?sps =
      [Some (\<lambda>c. c\<lparr>cf_pid := 12\<rparr>), Some (\<lambda>c. c\<lparr>cf_verbose := True\<rparr>), Some (\<lambda>c. c\<lparr>cf_pid := 7\<rparr>)]"
    by (simp add: assignment_def lookup_flag_def option_flags_def option_flag_def int ParseBool_def)
  then show ?thesis
    using options_are_read [of plain_flags ?sps "[''1234'', ''--dashboard'']"]
    by (simp add: dashes_def parseFlags_defaults_def)
qed

end
