(* ===== verification/Startup.thy ===== *)
theory Startup
  imports Replay Terminal Flags
begin

text \<open>
  \<open>run\<close> of \<^verbatim>\<open>cmd/krnlsentry/main.go\<close>: the checks, the construction of the sinks, the choice between
  replay and live monitoring, and the deferred closing that every return after the sinks exist goes
  through.  What the operating system answers is an \<open>environment\<close>.
\<close>

record environment =
  nv_args :: "string list"
  nv_flags :: flag_host
  nv_world :: world
  nv_base :: Config
  nv_readFile :: readFile
  nv_readDir :: readDir
  nv_order :: range_order
  nv_unix :: bool
  nv_now :: int
  nv_host :: host
  nv_capture :: capture_host
  nv_reader :: reader
  nv_screen :: screen
  nv_reads :: "read_result list"
  nv_schedule :: "choice list"

text \<open>\<open>nv_unix\<close> is the build tag, \<open>nv_args\<close> the arguments, \<open>nv_reads\<close> is what the ring buffer delivers and
  \<open>nv_schedule\<close> how the collector and the main loop take turns.  The screen is that of the last frame.\<close>

text \<open>\<open>run\<close> returns an error or none, after it printed a text of its own on standard output, with the agent and
  its sinks as they are then, if there are any; or it blocks for ever; or it is still monitoring when the
  schedule ends.\<close>

datatype outcome = Exits string "agent option" "goerror option" | Hangs | Monitoring

text \<open>The build metadata, as they are without \<^verbatim>\<open>-ldflags\<close>.\<close>

definition build_version :: string where "build_version = ''dev''"
definition build_commit :: string where "build_commit = ''unknown''"
definition build_date :: string where "build_date = ''unknown''"

definition version_line :: string where
  "version_line = line (''krnlsentry '' @ build_version @ '' (commit '' @ build_commit @ '', built '' @ build_date @ '')'')"

definition use_dashboard :: "environment \<Rightarrow> config \<Rightarrow> bool" where
  "use_dashboard nv cfg \<longleftrightarrow> cf_dashboard cfg \<and> \<not> (\<not> DashboardUsable (nv_unix nv) (ch_file (w_console (nv_world nv))) \<and> \<not> cf_forceColor cfg)"

definition dashboard_options :: "config \<Rightarrow> Engine \<Rightarrow> string \<Rightarrow> Severity \<Rightarrow> string \<Rightarrow> DashboardOptions" where
  "dashboard_options cfg e alertPath minSeverity version =
     \<lparr>do_Version = version, do_Mode = displayMode cfg, do_Scope = scopeLabel (cf_pid cfg), do_Source = cf_replayPath cfg,
      do_AlertPath = alertPath, do_Rules = enabledRuleNames e, do_MinSeverity = minSeverity,
      do_Color = \<not> cf_noColor cfg, do_Width = 0, do_Height = 0, do_Refresh = 0\<rparr>"

text \<open>\<open>--no-color\<close> sets \<^verbatim>\<open>NO_COLOR\<close> before the console looks at it.\<close>

definition display_sink :: "environment \<Rightarrow> config \<Rightarrow> Engine \<Rightarrow> log_file \<Rightarrow> Severity \<Rightarrow> sink" where
  "display_sink nv cfg e logf minSeverity =
    (let console = w_console (nv_world nv) in
     if use_dashboard nv cfg then
       DashOut (NewDashboard (dashboard_options cfg e (lf_path logf) minSeverity build_version) (nv_now nv))
     else
       ConsoleOut (NewConsoleSink (console\<lparr>ch_NO_COLOR := ch_NO_COLOR console \<or> cf_noColor cfg\<rparr>)
         (cf_forceColor cfg \<and> \<not> cf_noColor cfg) minSeverity) [])"

definition start_sink :: "sink option \<Rightarrow> sink option" where
  "start_sink s = (case s of Some (DashOut d) \<Rightarrow> Some (DashOut (fst (Dashboard_Start d []))) | _ \<Rightarrow> s)"

text \<open>\<open>dash.Start()\<close>.\<close>

definition start_display :: "agent \<Rightarrow> agent" where
  "start_display ag = ag\<lparr>ag_sinks := map start_sink (ag_sinks ag)\<rparr>"

text \<open>The deferred \<open>sinks.Close()\<close> and \<open>dash.Close()\<close>: closing a log or the console changes nothing that is kept.\<close>

definition sinks_close :: "environment \<Rightarrow> string \<Rightarrow> agent \<Rightarrow> goerror option \<Rightarrow> outcome" where
  "sinks_close nv out ag err = (case finishDisplay (nv_screen nv) ag of None \<Rightarrow> Hangs | Some ag \<Rightarrow> Exits out (Some ag) err)"

text \<open>What is printed where the dashboard is not used.\<close>

definition start_banner :: "environment \<Rightarrow> config \<Rightarrow> log_file \<Rightarrow> Engine \<Rightarrow> string" where
  "start_banner nv cfg logf e =
     (if use_dashboard nv cfg then []
      else Banner (\<not> cf_noColor cfg) build_version (enabledRuleNames e) (lf_path logf) (cf_pid cfg) @
        (if replaying cfg then line (''  replay  : '' @ cf_replayPath cfg) @ [newline] else []))"

definition pid_scope :: "environment \<Rightarrow> config \<Rightarrow> pidFilter option" where
  "pid_scope nv cfg =
     (if cf_pid cfg > 0 then
        let root = of_int (cf_pid cfg) in
        if replaying cfg then Some \<lparr>pf_root = root, pf_tracked = [root]\<rparr>
        else Some (newPIDFilter (nv_order nv) (nv_readDir nv) (nv_readFile nv) root)
      else None)"

definition zero_counters :: counters where
  "zero_counters = \<lparr>ct_observed = 0, ct_alerts = 0, ct_queueDropped = 0, ct_writeErrors = 0\<rparr>"

text \<open>The live branch once the collector exists: the display, the scope and the pump.\<close>

definition monitor :: "environment \<Rightarrow> config \<Rightarrow> Collector \<Rightarrow> agent \<Rightarrow> pump" where
  "monitor nv cfg col ag =
    (let ag = start_display (ag\<lparr>ag_filter := pid_scope nv cfg\<rparr>) in
     pump_exec (nv_world nv) (nv_schedule nv)
       (pump_start (Collector_Run (cl_bootTime col) (nv_reads nv)) ag (newMetricsSource False ag)))"

text \<open>\<open>run\<close> after the sinks are built.\<close>

definition run_monitor :: "environment \<Rightarrow> config \<Rightarrow> log_file \<Rightarrow> agent \<Rightarrow> outcome" where
  "run_monitor nv cfg logf ag =
    (let banner = start_banner nv cfg logf (ag_engine ag) in
      if replaying cfg then
        let ag = start_display (ag\<lparr>ag_filter := pid_scope nv cfg\<rparr>) in
        case replay (nv_world nv) (nv_capture nv) (nv_reader nv) (nv_screen nv) (cf_replayPath cfg) (cf_replaySpeed cfg)
               ag (newMetricsSource True ag) of
          None \<Rightarrow> Hangs
        | Some (Inl e) \<Rightarrow> sinks_close nv banner ag (Some e)
        | Some (Inr r) \<Rightarrow> sinks_close nv banner (re_agent r) (re_err r)
      else case fst (NewCollector (nv_host nv)) of
        Inl e \<Rightarrow> sinks_close nv [] ag (Some e)
      | Inr col \<Rightarrow>
          (let s = monitor nv cfg col ag in
           case pu_returned s of
             None \<Rightarrow> Monitoring
           | Some err \<Rightarrow> sinks_close nv banner (pu_agent s) err))"

text \<open>\<open>run\<close> after the options are read.\<close>

definition run_config :: "environment \<Rightarrow> config \<Rightarrow> outcome" where
  "run_config nv cfg =
     (if cf_showVersion cfg then Exits version_line None None
      else if cf_listRules cfg then Exits printRules None None
      else case ParseSeverity_in severityNames (ToUpper (cf_minSeverity cfg)) of
        None \<Rightarrow> Exits [] None (Some (errors_New (''invalid --min-severity '' @
          Quote (lh_isPrint (w_log (nv_world nv))) (cf_minSeverity cfg) @ '' (want LOW, MEDIUM, HIGH or CRITICAL)'')))
      | Some minSeverity \<Rightarrow>
          (case NewEngine (engine_config cfg (nv_readFile nv) (nv_base nv)) (splitRules (cf_rules cfg)) of
             Inl msg \<Rightarrow> Exits [] None (Some (errors_New msg))
           | Inr e \<Rightarrow>
               (case NewJSONLSink (w_log (nv_world nv)) (cf_outputPath cfg) of
                  Inl err \<Rightarrow> Exits [] None (Some err)
                | Inr logf \<Rightarrow>
                    let sinks = [Some (LogSink logf), Some (display_sink nv cfg e logf minSeverity)];
                        ag = \<lparr>ag_engine = e, ag_sinks = sinks, ag_debug = None, ag_filter = None, ag_counters = zero_counters\<rparr>
                    in if cf_verbose cfg then
                         case NewEventSink (w_log (nv_world nv)) (cf_debugPath cfg) of
                           Inl err \<Rightarrow> sinks_close nv [] ag (Some err)
                         | Inr f \<Rightarrow> run_monitor nv cfg logf (ag\<lparr>ag_debug := Some f\<rparr>)
                       else run_monitor nv cfg logf ag)))"


text \<open>\<open>run\<close>, with what reading the options printed on standard error.\<close>

definition run :: "environment \<Rightarrow> string \<times> outcome" where
  "run nv =
     (case parseFlags (nv_flags nv) (nv_args nv) of
        (text, Inl e) \<Rightarrow> (text, Exits [] None (Some e))
      | (text, Inr cfg) \<Rightarrow> (text, run_config nv cfg))"

text \<open>\<open>main\<close>: the exit status, what is printed on standard output and on standard error.  The console's lines are
  in the sink, the summary is that of \<open>printSummary\<close>.\<close>

definition main_exit :: "environment \<Rightarrow> (nat \<times> string \<times> string) option" where
  "main_exit nv =
     (case run nv of
        (text, Hangs) \<Rightarrow> None
      | (text, Monitoring) \<Rightarrow> None
      | (text, Exits out _ None) \<Rightarrow> Some (0, out, text)
      | (text, Exits out _ (Some e)) \<Rightarrow> Some (1, out, text @ line (''krnlsentry: '' @ er_msg e)))"


section \<open>When the display blocks the exit\<close>

lemma fresh_display_blocks:
  "sinks_close nv out (ag\<lparr>ag_sinks := [Some (LogSink f), Some (DashOut (NewDashboard opts now))]\<rparr>) err = Hangs"
proof -
  have "finish_sink sr (Some (DashOut (NewDashboard opts now))) = None" for sr
    using conjunct2 [OF Close_blocks, of "sr_terminal sr" "sr_out sr" "sr_views sr" opts now] by (simp add: finish_sink_def)
  then show ?thesis by (simp add: sinks_close_def finishDisplay_def finish_sink_def)
qed

text \<open>Without the dashboard nothing blocks.\<close>

definition no_dashboard :: "agent \<Rightarrow> bool" where
  "no_dashboard ag \<longleftrightarrow> list_all (\<lambda>s. case s of Some (DashOut _) \<Rightarrow> False | _ \<Rightarrow> True) (ag_sinks ag)"

lemma no_dashboard_returns: "no_dashboard ag \<Longrightarrow> finishDisplay sr ag = Some ag"
proof -
  assume "no_dashboard ag"
  then have "map (finish_sink sr) (ag_sinks ag) = map Some (ag_sinks ag)"
    by (auto simp: no_dashboard_def list_all_iff finish_sink_def split: option.splits sink.splits)
  moreover have "those (map Some ss) = Some ss" for ss :: "sink option list" by (induction ss) simp_all
  ultimately have "those (map (finish_sink sr) (ag_sinks ag)) = Some (ag_sinks ag)" by (simp only:)
  then show ?thesis by (simp add: finishDisplay_def)
qed

text \<open>What stops a live start after the sinks exist: the debug log, then the probes.\<close>

definition start_error :: "environment \<Rightarrow> config \<Rightarrow> goerror option" where
  "start_error nv cfg =
     (let probes = (case fst (NewCollector (nv_host nv)) of Inl e \<Rightarrow> Some e | Inr _ \<Rightarrow> None) in
      if cf_verbose cfg then
        (case NewEventSink (w_log (nv_world nv)) (cf_debugPath cfg) of Inl e \<Rightarrow> Some e | Inr _ \<Rightarrow> probes)
      else probes)"

lemma failed_start:
  assumes "\<not> cf_showVersion cfg" and "\<not> cf_listRules cfg" and "\<not> replaying cfg"
    and "ParseSeverity_in severityNames (ToUpper (cf_minSeverity cfg)) = Some sev"
    and "NewEngine (engine_config cfg (nv_readFile nv) (nv_base nv)) (splitRules (cf_rules cfg)) = Inr e"
    and "NewJSONLSink (w_log (nv_world nv)) (cf_outputPath cfg) = Inr logf"
    and "start_error nv cfg = Some err"
  shows "if use_dashboard nv cfg then run_config nv cfg = Hangs else \<exists>ag. run_config nv cfg = Exits [] ag (Some err)"
proof -
  define sinks where "sinks = [Some (LogSink logf), Some (display_sink nv cfg e logf sev)]"
  have run: "\<exists>ag. ag_sinks ag = sinks \<and> run_config nv cfg = sinks_close nv [] ag (Some err)"
  proof (cases "cf_verbose cfg")
    case True
    then show ?thesis using assms unfolding run_config_def start_error_def sinks_def
      by (cases "NewEventSink (w_log (nv_world nv)) (cf_debugPath cfg)")
        (auto simp: run_monitor_def Let_def split: sum.splits intro!: exI)
  next
    case False
    then show ?thesis using assms unfolding run_config_def start_error_def sinks_def
      by (auto simp: run_monitor_def Let_def split: sum.splits intro!: exI)
  qed
  then obtain ag where ag: "ag_sinks ag = sinks" and run: "run_config nv cfg = sinks_close nv [] ag (Some err)" by blast
  show ?thesis
  proof (cases "use_dashboard nv cfg")
    case True
    then have "ag = ag\<lparr>ag_sinks := [Some (LogSink logf),
        Some (DashOut (NewDashboard (dashboard_options cfg e (lf_path logf) sev build_version) (nv_now nv)))]\<rparr>"
      using ag by (cases ag) (simp add: sinks_def display_sink_def Let_def)
    then show ?thesis unfolding run using fresh_display_blocks True by metis
  next
    case False
    then have "no_dashboard ag" using ag by (simp add: sinks_def no_dashboard_def display_sink_def Let_def)
    then show ?thesis unfolding run using False no_dashboard_returns by (simp add: sinks_close_def)
  qed
qed

text \<open>C9. With the dashboard in use (\<open>--dashboard\<close> at a terminal, or with \<open>--color\<close>) the agent cannot report why it
  failed to start: when the eBPF programs do not
  load (no privileges, an old kernel) or, before that, the debug log does not open, \<open>run\<close> never returns,
  because the deferred close of the sinks waits for a repaint loop that was never started; without the
  dashboard it returns the error in both cases, and \<open>main\<close> prints it and exits with status 1.\<close>

theorem failed_start_hangs:
  assumes "parseFlags (nv_flags nv) (nv_args nv) = ([], Inr cfg)"
    and "\<not> cf_showVersion cfg" and "\<not> cf_listRules cfg" and "\<not> replaying cfg"
    and "ParseSeverity_in severityNames (ToUpper (cf_minSeverity cfg)) = Some sev"
    and "NewEngine (engine_config cfg (nv_readFile nv) (nv_base nv)) (splitRules (cf_rules cfg)) = Inr e"
    and "NewJSONLSink (w_log (nv_world nv)) (cf_outputPath cfg) = Inr logf"
    and "start_error nv cfg = Some err"
  shows "(if use_dashboard nv cfg then run nv = ([], Hangs) else \<exists>ag. run nv = ([], Exits [] ag (Some err))) \<and>
    main_exit nv = (if use_dashboard nv cfg then None else Some (1, [], ''krnlsentry: '' @ er_msg err @ [newline]))"
proof -
  have "if use_dashboard nv cfg then run_config nv cfg = Hangs else \<exists>ag. run_config nv cfg = Exits [] ag (Some err)"
    by (rule failed_start [OF assms(2-8)])
  then show ?thesis using assms(1) by (auto simp: run_def main_exit_def split: if_splits)
qed



text \<open>A host without the privilege to load eBPF programs, at a terminal.\<close>

definition unprivileged :: host where
  "unprivileged =
     \<lparr>h_RemoveMemlock = Some \<lparr>er_msg = ''operation not permitted'', er_chain = [EPERM]\<rparr>, h_LoadObjects = None,
      h_PutConfig = None, h_program = (\<lambda>_. True), h_Tracepoint = (\<lambda>_. None), h_NewReader = None,
      h_ClockGettime = Inr (0, 0), h_Now = 0, h_Getpid = 1, h_CloseReader = None, h_CloseLink = (\<lambda>_. None),
      h_CloseObjs = None, h_StatsMap = (\<lambda>_. Inr [])\<rparr>"

definition plain_screen :: screen where
  "plain_screen =
     \<lparr>sr_terminal = no_terminal, sr_out = (\<lambda>_. None), sr_views = (\<lambda>_. (NewDashboard no_options 0, plain_moment))\<rparr>"

definition desk :: environment where
  "desk =
     \<lparr>nv_args = [''--dashboard''], nv_flags = plain_flags,
      nv_world = \<lparr>w_log = disk False, w_console = plain_console\<lparr>ch_file := Some (Some True)\<rparr>\<rparr>, nv_base = sample_config, nv_readFile = (\<lambda>_. None),
      nv_readDir = (\<lambda>_. None), nv_order = (\<lambda>_ m. m), nv_unix = True, nv_now = 0, nv_host = unprivileged,
      nv_capture = sample_capture, nv_reader = sample_reader, nv_screen = plain_screen, nv_reads = [], nv_schedule = []\<rparr>"

lemma defaults_start:
  fixes nv b defines "cfg \<equiv> parseFlags_defaults\<lparr>cf_dashboard := b\<rparr>"
  shows "\<exists>e. NewEngine (engine_config cfg (nv_readFile nv) (nv_base nv)) (splitRules (cf_rules cfg)) = Inr e"
    and "ParseSeverity_in severityNames (ToUpper (cf_minSeverity cfg)) = Some SeverityLow"
    and "w_log (nv_world nv) = disk False \<Longrightarrow> \<exists>f. NewJSONLSink (w_log (nv_world nv)) (cf_outputPath cfg) = Inr f"
    and "\<not> cf_showVersion cfg" "\<not> cf_listRules cfg" "\<not> replaying cfg"
proof -
  have rules: "splitRules (cf_rules cfg) = []"
    by (simp add: cfg_def parseFlags_defaults_def splitRules_def)
  show "\<exists>e. NewEngine (engine_config cfg (nv_readFile nv) (nv_base nv)) (splitRules (cf_rules cfg)) = Inr e"
    unfolding rules by (simp add: NewEngine_def Let_def)
  show "ParseSeverity_in severityNames (ToUpper (cf_minSeverity cfg)) = Some SeverityLow"
    by (simp add: cfg_def parseFlags_defaults_def upper_char_def severityNames_def Let_def)
  show "\<exists>f. NewJSONLSink (w_log (nv_world nv)) (cf_outputPath cfg) = Inr f" if "w_log (nv_world nv) = disk False"
    unfolding that by (simp add: NewJSONLSink_def open_log_def disk_def)
qed (simp_all add: cfg_def parseFlags_defaults_def replaying_def)

theorem failed_start_hangs_witness:
  "run desk = ([], Hangs) \<and> main_exit desk = None \<and>
   main_exit (desk\<lparr>nv_args := []\<rparr>) =
     Some (1, [], ''krnlsentry: '' @ er_msg (errorf ''raising RLIMIT_MEMLOCK: '' \<lparr>er_msg = ''operation not permitted'', er_chain = [EPERM]\<rparr>) @ [newline])"
proof -
  let ?err = "errorf ''raising RLIMIT_MEMLOCK: '' \<lparr>er_msg = ''operation not permitted'', er_chain = [EPERM]\<rparr>"
  have run: "(if use_dashboard nv cfg then run nv = ([], Hangs) else \<exists>ag. run nv = ([], Exits [] ag (Some ?err))) \<and>
      main_exit nv = (if use_dashboard nv cfg then None else Some (1, [], ''krnlsentry: '' @ er_msg ?err @ [newline]))"
    if nv: "nv = desk\<lparr>nv_args := as\<rparr>" and read: "parseFlags plain_flags as = ([], Inr cfg)" and cfg: "cfg = parseFlags_defaults\<lparr>cf_dashboard := b\<rparr>"
    for nv as cfg b
  proof -
    have args: "parseFlags (nv_flags nv) (nv_args nv) = ([], Inr cfg)" using nv read by (simp add: desk_def)
    have world: "w_log (nv_world nv) = disk False" using nv by (simp add: desk_def)
    obtain e where e: "NewEngine (engine_config cfg (nv_readFile nv) (nv_base nv)) (splitRules (cf_rules cfg)) = Inr e"
      unfolding cfg using defaults_start(1) by blast
    obtain f where f: "NewJSONLSink (w_log (nv_world nv)) (cf_outputPath cfg) = Inr f"
      unfolding cfg using defaults_start(3) [OF world] by blast
    have err: "start_error nv cfg = Some ?err"
      unfolding nv cfg by (simp add: start_error_def parseFlags_defaults_def desk_def unprivileged_def NewCollector_def)
    have start: "\<not> cf_showVersion cfg" "\<not> cf_listRules cfg" "\<not> replaying cfg"
      "ParseSeverity_in severityNames (ToUpper (cf_minSeverity cfg)) = Some SeverityLow"
      unfolding cfg by (rule defaults_start)+
    show ?thesis by (rule failed_start_hangs [OF args start e f err])
  qed
  have desk: "desk = desk\<lparr>nv_args := [''--dashboard'']\<rparr>" by (simp add: desk_def)
  have use: "use_dashboard desk (parseFlags_defaults\<lparr>cf_dashboard := True\<rparr>)"
    by (simp add: use_dashboard_def desk_def)
  have default: "parseFlags_defaults = parseFlags_defaults\<lparr>cf_dashboard := False\<rparr>"
    and plain: "\<not> use_dashboard nv parseFlags_defaults" for nv
    by (simp_all add: use_dashboard_def parseFlags_defaults_def)
  from run [OF desk parse_dashboard refl] have "run desk = ([], Hangs) \<and> main_exit desk = None"
    by (simp only: use if_True)
  moreover from run [OF refl parse_nothing default] have "main_exit (desk\<lparr>nv_args := []\<rparr>) =
      Some (1, [], ''krnlsentry: '' @ er_msg ?err @ [newline])"
    by (simp only: plain if_False)
  ultimately show ?thesis by blast
qed


section \<open>Options that cannot be read\<close>

text \<open>C11. A command line that cannot be read never starts anything: a bad option, a bad value or a request for
  help ends the run with exit status 1, nothing on standard output, and on standard error the message of
  the option reader, the usage text and, although the error was to stay silent, one more line that only
  has the name of the program.\<close>

theorem unreadable_options_exit:
  assumes "parse_args (nv_flags nv) parseFlags_defaults (nv_args nv) = Inl msg"
  shows "run nv = (msg @ Usage (nv_flags nv), Exits [] None (Some errSilent)) \<and>
    main_exit nv = Some (1, [], msg @ Usage (nv_flags nv) @ ''krnlsentry: '' @ [newline])"
  using assms by (simp add: main_exit_def run_def parseFlags_def declared_defaults errSilent_def errors_New_def)

theorem unreadable_options_exit_witness:
  "\<forall>nv :: environment. main_exit (nv\<lparr>nv_args := [''--pid'', ''7'', ''--help'']\<rparr>) =
     Some (1, [], Usage (nv_flags nv) @ ''krnlsentry: '' @ [newline]) \<and>
   main_exit (nv\<lparr>nv_args := [''--frob'']\<rparr>) =
     Some (1, [], line ''flag provided but not defined: -frob'' @ Usage (nv_flags nv) @ ''krnlsentry: '' @ [newline])"
proof
  fix nv :: environment
  have none: "lookup_flag ''help'' = None" "lookup_flag ''frob'' = None"
    by (simp_all add: lookup_flag_def option_flags_def option_flag_def)
  have "meaning (nv_flags nv) (Apart True ''pid'' ''7'') = Some (\<lambda>c. c\<lparr>cf_pid := 7\<rparr>)"
    by (simp add: assignment_def lookup_flag_def option_flags_def option_flag_def ParseInt0_def ParseUint0_def
      base_prefix_def go_digit_def)
  from parse_spelling [OF this, of parseFlags_defaults "[''--help'']"]
  have "parse_args (nv_flags nv) parseFlags_defaults [''--pid'', ''7'', ''--help''] = Inl []"
    by (simp add: dashes_def parse_args.simps(2) [of _ _ "''--help''"] name_value_def none)
  moreover have "parse_args (nv_flags nv) parseFlags_defaults [''--frob''] = Inl (line ''flag provided but not defined: -frob'')"
    by (simp add: parse_args.simps(2) name_value_def none)
  ultimately show "main_exit (nv\<lparr>nv_args := [''--pid'', ''7'', ''--help'']\<rparr>) =
       Some (1, [], Usage (nv_flags nv) @ ''krnlsentry: '' @ [newline]) \<and>
     main_exit (nv\<lparr>nv_args := [''--frob'']\<rparr>) =
       Some (1, [], line ''flag provided but not defined: -frob'' @ Usage (nv_flags nv) @ ''krnlsentry: '' @ [newline])"
    using unreadable_options_exit [of "nv\<lparr>nv_args := [''--pid'', ''7'', ''--help'']\<rparr>"]
      unreadable_options_exit [of "nv\<lparr>nv_args := [''--frob'']\<rparr>"] by simp
qed

section \<open>A process id beyond 32 bits\<close>

text \<open>C12. The scope keeps the low 32 bits of \<open>--pid\<close> only: a larger number is accepted, shown in full, and
  monitors the process it is congruent to, one the operator did not name.\<close>

theorem pid_beyond_32_bits:
  assumes "0 < pid" and "pid + 2 ^ 32 < 2 ^ 63"
  shows "parseFlags h [''--pid'', int_text (pid + 2 ^ 32)] = ([], Inr (parseFlags_defaults\<lparr>cf_pid := pid + 2 ^ 32\<rparr>)) \<and>
    pid_scope nv (cfg\<lparr>cf_pid := pid + 2 ^ 32\<rparr>) = pid_scope nv (cfg\<lparr>cf_pid := pid\<rparr>) \<and>
    scopeLabel (pid + 2 ^ 32) = ''PID '' @ int_text (pid + 2 ^ 32) @ '' + descendants''"
proof -
  let ?n = "nat (pid + 2 ^ 32)"
  have "ParseInt0 (dec ?n) = Inr (int ?n)"
    by (rule ParseInt_dec) (use assms in \<open>simp add: nat_less_iff\<close>)
  then have "meaning h (Apart True ''pid'' (dec ?n)) = Some (\<lambda>c. c\<lparr>cf_pid := pid + 2 ^ 32\<rparr>)"
    using assms(1) by (simp add: assignment_def lookup_flag_def option_flags_def option_flag_def)
  then have "parseFlags h [''--pid'', dec ?n] = ([], Inr (parseFlags_defaults\<lparr>cf_pid := pid + 2 ^ 32\<rparr>))"
    using parse_options [of h "[Apart True ''pid'' (dec ?n)]" "[]"] by (simp add: dashes_def)
  moreover have zero: "(4294967296 :: u32) = 0" by (simp add: word_uint_eq_iff)
  have wrap: "(word_of_int pid :: u32) + 4294967296 = word_of_int pid" unfolding zero by (rule add_0_right)
  ultimately show ?thesis using assms(1) by (simp add: int_text_def pid_scope_def scopeLabel_def replaying_def wrap)
qed

theorem pid_beyond_32_bits_witness:
  "\<forall>nv. pid_scope nv (parseFlags_defaults\<lparr>cf_pid := 4294967297\<rparr>) = pid_scope nv (parseFlags_defaults\<lparr>cf_pid := 1\<rparr>)"
  using pid_beyond_32_bits [of 1 plain_flags _ parseFlags_defaults] by simp

end
