(* ===== verification/LiveRun.thy ===== *)
theory LiveRun
  imports Startup
begin

text \<open>
  The live agent from end to end: the bytes the ring buffer delivers, decoded by the collector, handed
  over, processed, and written to the log and the console, under every schedule of the two loops.
\<close>

lemma count_zero_taken:
  assumes "pump_inv w ag evs s" and "length evs \<le> eventQueueDepth" and "pu_returned s = Some r"
  shows "pu_agent s = processed w evs ag" and "pu_run s = Some r"
proof -
  from assms obtain d where d: "subseq (pu_taken s) evs" "length evs = length (pu_taken s) + d"
    "0 < d \<longrightarrow> eventQueueDepth < length evs" "pu_agent s = (bump_dropped ^^ d) (processed w (pu_taken s) ag)"
    and run: "pu_run s = Some r"
    unfolding pump_inv_def by auto
  have "d = 0" using d(3) assms(2) by auto
  then have "pu_taken s = evs" using d(1,2) subseq_same_length by (metis add_0_right)
  with d(4) \<open>d = 0\<close> show "pu_agent s = processed w evs ag" by simp
  show "pu_run s = Some r" by (rule run)
qed

text \<open>A sink stays what it is.\<close>

definition is_display :: "sink \<Rightarrow> bool" where
  "is_display s = (case s of DashOut _ \<Rightarrow> True | _ \<Rightarrow> False)"

lemma written_kind: "is_display (written_all w as s) = is_display s"
proof (induction as arbitrary: s)
  case (Cons a as)
  have "is_display (fst (sink_write w s a)) = is_display s"
    by (simp add: is_display_def sink_write_def split: sink.splits prod.splits)
  then show ?case using Cons by (simp add: written_all_def)
qed (simp add: written_all_def)

lemma no_dashboard_iff: "no_dashboard ag \<longleftrightarrow> list_all (\<lambda>s. case s of None \<Rightarrow> True | Some s \<Rightarrow> \<not> is_display s) (ag_sinks ag)"
  by (auto simp: no_dashboard_def list_all_iff is_display_def split: option.splits sink.splits)

lemma no_dashboard_written:
  assumes "no_dashboard ag" and "ag_sinks ag' = map (map_option (written_all w as)) (ag_sinks ag)"
  shows "no_dashboard ag'"
  using assms unfolding no_dashboard_iff assms(2) list_all_iff
  by (auto simp: written_kind split: option.splits)

lemma start_display_plain: "no_dashboard ag \<Longrightarrow> start_display ag = ag"
proof -
  assume "no_dashboard ag"
  then have "start_sink s = s" if "s \<in> set (ag_sinks ag)" for s
    using that by (fastforce simp: no_dashboard_def list_all_iff start_sink_def split: option.splits sink.splits)
  then have "map start_sink (ag_sinks ag) = ag_sinks ag" by (simp add: map_idI)
  then show ?thesis by (simp add: start_display_def)
qed

text \<open>The pump of a live run, once it has returned.\<close>

lemma monitor_returns:
  assumes "no_dashboard ag" and "pu_returned (monitor nv cfg col ag) = Some err"
    and "length (rn_handled (Collector_Run (cl_bootTime col) (nv_reads nv))) \<le> eventQueueDepth"
  shows "pu_agent (monitor nv cfg col ag) =
      processed (nv_world nv) (rn_handled (Collector_Run (cl_bootTime col) (nv_reads nv))) (ag\<lparr>ag_filter := pid_scope nv cfg\<rparr>)"
    and "rn_result (Collector_Run (cl_bootTime col) (nv_reads nv)) = Some err"
proof -
  let ?ag = "ag\<lparr>ag_filter := pid_scope nv cfg\<rparr>" and ?rn = "Collector_Run (cl_bootTime col) (nv_reads nv)"
  have "no_dashboard ?ag" using assms(1) by (simp add: no_dashboard_def)
  then have start: "start_display ?ag = ?ag" by (rule start_display_plain)
  have reaches: "pump_reaches (nv_world nv) (pump_start ?rn ?ag (newMetricsSource False ?ag)) (monitor nv cfg col ag)"
    unfolding monitor_def Let_def start by (rule pump_exec_reaches)
  have inv: "pump_inv (nv_world nv) ?ag (rn_handled ?rn) (monitor nv cfg col ag)"
    by (rule pump_inv_reaches [OF reaches pump_inv_start])
  show "pu_agent (monitor nv cfg col ag) = processed (nv_world nv) (rn_handled ?rn) ?ag"
    by (rule count_zero_taken(1) [OF inv assms(3,2)])
  have "pu_run (monitor nv cfg col ag) = rn_result ?rn"
    using pump_reaches_run [OF reaches] by (simp add: pump_start_def)
  then show "rn_result ?rn = Some err" using count_zero_taken(2) [OF inv assms(3,2)] by simp
qed

lemma monitor_can_return:
  assumes "rn_result (Collector_Run (cl_bootTime col) (nv_reads nv)) = Some r"
  shows "\<exists>cs. pu_returned (monitor (nv\<lparr>nv_schedule := cs\<rparr>) cfg col ag) = Some r"
proof -
  have scope: "pid_scope (nv\<lparr>nv_schedule := cs\<rparr>) cfg = pid_scope nv cfg" for cs by (simp add: pid_scope_def Let_def)
  show ?thesis
    using pump_finishes [OF Here assms] by (simp add: monitor_def Let_def scope)
qed

section \<open>A run that starts\<close>

lemma run_monitors:
  assumes "\<not> cf_showVersion cfg" and "\<not> cf_listRules cfg" and "\<not> replaying cfg"
    and "ParseSeverity_in severityNames (ToUpper (cf_minSeverity cfg)) = Some sev"
    and "NewEngine (engine_config cfg (nv_readFile nv) (nv_base nv)) (splitRules (cf_rules cfg)) = Inr e"
    and "NewJSONLSink (w_log (nv_world nv)) (cf_outputPath cfg) = Inr logf"
    and "start_error nv cfg = None" and "fst (NewCollector (nv_host nv)) = Inr col"
  shows "\<exists>debug. let ag = \<lparr>ag_engine = e, ag_sinks = [Some (LogSink logf), Some (display_sink nv cfg e logf sev)],
        ag_debug = debug, ag_filter = None, ag_counters = zero_counters\<rparr>
     in \<forall>cs. run_config (nv\<lparr>nv_schedule := cs\<rparr>) cfg =
       (case pu_returned (monitor (nv\<lparr>nv_schedule := cs\<rparr>) cfg col ag) of
          None \<Rightarrow> Monitoring
        | Some err \<Rightarrow> sinks_close nv (start_banner nv cfg logf e) (pu_agent (monitor (nv\<lparr>nv_schedule := cs\<rparr>) cfg col ag)) err)"
proof -
  have same: "display_sink (nv\<lparr>nv_schedule := cs\<rparr>) cfg e logf sev = display_sink nv cfg e logf sev"
    "start_banner (nv\<lparr>nv_schedule := cs\<rparr>) cfg logf e = start_banner nv cfg logf e"
    "sinks_close (nv\<lparr>nv_schedule := cs\<rparr>) = sinks_close nv" for cs
    by (simp_all add: display_sink_def use_dashboard_def start_banner_def sinks_close_def fun_eq_iff Let_def)
  show ?thesis
  proof (cases "cf_verbose cfg")
    case True
    then obtain f where "NewEventSink (w_log (nv_world nv)) (cf_debugPath cfg) = Inr f"
      using assms(7) by (auto simp: start_error_def split: sum.splits)
    with True assms show ?thesis
      by (intro exI [of _ "Some f"]) (simp add: run_config_def run_monitor_def Let_def same cong del: option.case_cong_weak if_weak_cong)
  next
    case False
    with assms show ?thesis
      by (intro exI [of _ None]) (simp add: run_config_def run_monitor_def Let_def same cong del: option.case_cong_weak if_weak_cong)
  qed
qed
lemma live_config:
  assumes "\<not> cf_showVersion cfg" and "\<not> cf_listRules cfg" and "\<not> replaying cfg" and "\<not> use_dashboard nv cfg"
    and "ParseSeverity_in severityNames (ToUpper (cf_minSeverity cfg)) = Some sev"
    and "NewEngine (engine_config cfg (nv_readFile nv) (nv_base nv)) (splitRules (cf_rules cfg)) = Inr e"
    and "NewJSONLSink (w_log (nv_world nv)) (cf_outputPath cfg) = Inr logf"
    and "start_error nv cfg = None" and "fst (NewCollector (nv_host nv)) = Inr col"
    and "nv_reads nv = map read_of xs @ [Failed stopped True]" and "list_all readable xs" and "length (raws xs) \<le> 4096"
  shows "let alerts = raised e (scoped (pid_scope nv cfg) (map (\<lambda>r. Decode r (cl_bootTime col)) (raws xs))) in
    (run_config nv cfg = Monitoring \<or>
     (\<exists>ag. run_config nv cfg = Exits (start_banner nv cfg logf e) (Some ag) None \<and>
       ag_sinks ag =
         [Some (written_all (nv_world nv) alerts (LogSink logf)),
          Some (written_all (nv_world nv) alerts (display_sink nv cfg e logf sev))])) \<and>
    (\<exists>cs. run_config (nv\<lparr>nv_schedule := cs\<rparr>) cfg \<noteq> Monitoring)"
proof -
  let ?sinks = "[Some (LogSink logf), Some (display_sink nv cfg e logf sev)]"
  let ?rn = "Collector_Run (cl_bootTime col) (nv_reads nv)"
  let ?evs = "map (\<lambda>r. Decode r (cl_bootTime col)) (raws xs)"
  obtain debug where
    "let ag = \<lparr>ag_engine = e, ag_sinks = ?sinks, ag_debug = debug, ag_filter = None, ag_counters = zero_counters\<rparr> in
     \<forall>cs. run_config (nv\<lparr>nv_schedule := cs\<rparr>) cfg =
       (case pu_returned (monitor (nv\<lparr>nv_schedule := cs\<rparr>) cfg col ag) of
          None \<Rightarrow> Monitoring
        | Some err \<Rightarrow> sinks_close nv (start_banner nv cfg logf e) (pu_agent (monitor (nv\<lparr>nv_schedule := cs\<rparr>) cfg col ag)) err)"
    using run_monitors [OF assms(1-3,5-9)] by blast
  then obtain ag where ag: "ag_engine ag = e" "ag_sinks ag = ?sinks"
    and run: "run_config (nv\<lparr>nv_schedule := cs\<rparr>) cfg =
       (case pu_returned (monitor (nv\<lparr>nv_schedule := cs\<rparr>) cfg col ag) of
          None \<Rightarrow> Monitoring
        | Some err \<Rightarrow> sinks_close nv (start_banner nv cfg logf e) (pu_agent (monitor (nv\<lparr>nv_schedule := cs\<rparr>) cfg col ag)) err)" for cs
    unfolding Let_def by force
  have plain: "no_dashboard ag" using ag(2) assms(4) by (simp add: no_dashboard_def display_sink_def Let_def)
  have rn: "rn_handled ?rn = ?evs" "rn_result ?rn = Some None"
    unfolding assms(10) using Run_readable [OF assms(11), of "cl_bootTime col" "[Failed stopped True]"] by simp_all
  have "run_config nv cfg = Monitoring \<or>
     (\<exists>ag. run_config nv cfg = Exits (start_banner nv cfg logf e) (Some ag) None \<and>
       ag_sinks ag = map (map_option (written_all (nv_world nv) (raised e (scoped (pid_scope nv cfg) ?evs)))) ?sinks)"
  proof (cases "pu_returned (monitor nv cfg col ag)")
    case None
    then show ?thesis using run [of "nv_schedule nv"] by simp
  next
    case (Some err)
    have short: "length (rn_handled ?rn) \<le> eventQueueDepth" using assms(12) by (simp add: rn)
    note returned = monitor_returns [OF plain Some short]
    have err: "err = None" using returned(2) rn(2) by simp
    let ?ag = "pu_agent (monitor nv cfg col ag)"
    have sinks: "ag_sinks ?ag = map (map_option (written_all (nv_world nv) (raised e (scoped (pid_scope nv cfg) ?evs)))) (ag_sinks ag)"
      unfolding returned(1) rn(1) using processed_agent [of "nv_world nv" ?evs "ag\<lparr>ag_filter := pid_scope nv cfg\<rparr>"] ag(1)
      by simp
    have "no_dashboard ?ag" by (rule no_dashboard_written [OF plain sinks])
    then have "finishDisplay (nv_screen nv) ?ag = Some ?ag" by (rule no_dashboard_returns)
    then show ?thesis using run [of "nv_schedule nv"] Some err sinks ag(2) by (simp add: sinks_close_def)
  qed
  moreover have "\<exists>cs. run_config (nv\<lparr>nv_schedule := cs\<rparr>) cfg \<noteq> Monitoring"
  proof -
    obtain cs where "pu_returned (monitor (nv\<lparr>nv_schedule := cs\<rparr>) cfg col ag) = Some None"
      using monitor_can_return [OF rn(2)] by blast
    then show ?thesis
      using run [of cs] by (intro exI [of _ cs]) (simp add: sinks_close_def split: option.split)
  qed
  ultimately show ?thesis by (simp add: Let_def)
qed

text \<open>C2. What the live agent reports is what its detection makes of the records of the ring buffer.  When the
  agent starts without the dashboard, the ring buffer delivers at most 4096 records before the agent is
  stopped, and whatever turns the collector and the main loop take, the run either is still going on or
  has returned without an error, and then the log and the console have been written exactly the alerts
  that the engine raises on the decoded records in scope, in order, records that are too short being
  skipped; and there is a schedule under which it returns.\<close>

theorem live_run_reports:
  assumes "parseFlags (nv_flags nv) (nv_args nv) = ([], Inr cfg)"
    and "\<not> cf_showVersion cfg" and "\<not> cf_listRules cfg" and "\<not> replaying cfg" and "\<not> use_dashboard nv cfg"
    and "ParseSeverity_in severityNames (ToUpper (cf_minSeverity cfg)) = Some sev"
    and "NewEngine (engine_config cfg (nv_readFile nv) (nv_base nv)) (splitRules (cf_rules cfg)) = Inr e"
    and "NewJSONLSink (w_log (nv_world nv)) (cf_outputPath cfg) = Inr logf"
    and "start_error nv cfg = None" and "fst (NewCollector (nv_host nv)) = Inr col"
    and "nv_reads nv = map read_of xs @ [Failed stopped True]" and "list_all readable xs" and "length (raws xs) \<le> 4096"
  shows "let alerts = raised e (scoped (pid_scope nv cfg) (map (\<lambda>r. Decode r (cl_bootTime col)) (raws xs))) in
    (run nv = ([], Monitoring) \<or>
     (\<exists>ag. run nv = ([], Exits (start_banner nv cfg logf e) (Some ag) None) \<and>
       ag_sinks ag =
         [Some (written_all (nv_world nv) alerts (LogSink logf)),
          Some (written_all (nv_world nv) alerts (display_sink nv cfg e logf sev))])) \<and>
    (\<exists>cs. run (nv\<lparr>nv_schedule := cs\<rparr>) \<noteq> ([], Monitoring))"
proof -
  have "run (nv\<lparr>nv_schedule := cs\<rparr>) = ([], run_config (nv\<lparr>nv_schedule := cs\<rparr>) cfg)" for cs
    using assms(1) by (simp add: run_def)
  moreover have "run nv = ([], run_config nv cfg)" using assms(1) by (simp add: run_def)
  ultimately show ?thesis using live_config [OF assms(2-13)] unfolding Let_def by simp
qed

text \<open>A host where everything loads, and a run over one record.\<close>

definition privileged :: host where
  "privileged = unprivileged\<lparr>h_RemoveMemlock := None\<rparr>"

definition live_desk :: environment where
  "live_desk = desk\<lparr>nv_host := privileged,
     nv_args := [], nv_reads := map read_of [Inr (sample_exec, [])] @ [Failed \<lparr>er_msg = ''closed'', er_chain = [OsErrClosed]\<rparr> True]\<rparr>"

lemma attach_all: "attach_loop privileged tps = (tps, None)"
  by (induction tps) (simp_all add: privileged_def unprivileged_def)

lemma privileged_loads: "fst (NewCollector privileged) =
  Inr \<lparr>cl_loaded = True, cl_links = tracepoints, cl_reader = True, cl_bootTime = 0\<rparr>"
proof -
  have ne: "tracepoints \<noteq> []" by (simp add: tracepoints_def)
  have "attachAll privileged c = (c\<lparr>cl_links := cl_links c @ tracepoints\<rparr>, map CallAttach tracepoints, None)" for c
    using ne by (simp add: attachAll_def attach_all Let_def)
  moreover have "bootTime privileged = Inr 0"
    by (simp add: bootTime_def privileged_def unprivileged_def)
  moreover have "h_RemoveMemlock privileged = None" "h_LoadObjects privileged = None"
    "h_PutConfig privileged = None" "h_NewReader privileged = None"
    by (simp_all add: privileged_def unprivileged_def)
  ultimately show ?thesis
    by (simp add: NewCollector_def new_body_def writeConfig_def Collector_zero_def Let_def)
qed

theorem live_run_reports_witness:
  "\<exists>cs ag out e logf sev. let nv = live_desk\<lparr>nv_schedule := cs\<rparr>; cfg = parseFlags_defaults in
     NewEngine (engine_config cfg (nv_readFile nv) (nv_base nv)) [] = Inr e \<and>
     NewJSONLSink (disk False) ''./alerts.jsonl'' = Inr logf \<and>
     run nv = ([], Exits out (Some ag) None) \<and>
     ag_sinks ag =
       [Some (written_all (nv_world nv) (raised e [Decode sample_exec 0]) (LogSink logf)),
        Some (written_all (nv_world nv) (raised e [Decode sample_exec 0]) (display_sink nv cfg e logf sev))]"
proof -
  let ?cfg = parseFlags_defaults
  have same: "?cfg\<lparr>cf_dashboard := False\<rparr> = ?cfg" by (simp add: parseFlags_defaults_def)
  have world: "w_log (nv_world live_desk) = disk False" by (simp add: live_desk_def desk_def)
  obtain e where e: "NewEngine (engine_config ?cfg (nv_readFile live_desk) (nv_base live_desk)) (splitRules (cf_rules ?cfg)) = Inr e"
    using defaults_start(1) [of False live_desk] unfolding same by blast
  obtain logf where logf: "NewJSONLSink (w_log (nv_world live_desk)) (cf_outputPath ?cfg) = Inr logf"
    using defaults_start(3) [of live_desk False] unfolding same using world by blast
  note start = defaults_start(4-6) [of False, unfolded same] and sev = defaults_start(2) [of False, unfolded same]
  have plain: "\<not> use_dashboard live_desk ?cfg" by (simp add: use_dashboard_def parseFlags_defaults_def)
  have host: "nv_host live_desk = privileged" by (simp add: live_desk_def desk_def)
  have ok: "start_error live_desk ?cfg = None"
    unfolding start_error_def host privileged_loads by (simp add: parseFlags_defaults_def)
  have col: "fst (NewCollector (nv_host live_desk)) =
      Inr \<lparr>cl_loaded = True, cl_links = tracepoints, cl_reader = True, cl_bootTime = 0\<rparr>"
    unfolding host by (rule privileged_loads)
  let ?stopped = "\<lparr>er_msg = ''closed'', er_chain = [OsErrClosed]\<rparr>" and ?xs = "[Inr (sample_exec, [])] :: (u8 list + Raw \<times> u8 list) list"
  have reads: "nv_reads live_desk = map read_of ?xs @ [Failed ?stopped True]" by (simp add: live_desk_def)
  have readable: "list_all readable ?xs"
    by (simp add: readable_def eventSize_def field_sizes_def fits_def c_string_def sample_exec_def sample_raw_def)
  have raws: "raws ?xs = [sample_exec]" "length (raws ?xs) \<le> 4096" by (simp_all add: raws_def)
  have args: "parseFlags (nv_flags live_desk) (nv_args live_desk) = ([], Inr ?cfg)"
    by (simp add: live_desk_def desk_def parse_nothing)
  note live = live_run_reports [OF args start plain sev e logf ok col reads readable raws(2)]
  then obtain cs where cs: "run (live_desk\<lparr>nv_schedule := cs\<rparr>) \<noteq> ([], Monitoring)" by (auto simp: Let_def)
  let ?nv = "live_desk\<lparr>nv_schedule := cs\<rparr>"
  have "use_dashboard ?nv ?cfg = use_dashboard live_desk ?cfg" "start_error ?nv ?cfg = start_error live_desk ?cfg"
    by (simp_all add: use_dashboard_def start_error_def Let_def)
  then have "run ?nv = ([], Monitoring) \<or>
     (\<exists>ag. run ?nv = ([], Exits (start_banner ?nv ?cfg logf e) (Some ag) None) \<and>
       ag_sinks ag =
         [Some (written_all (nv_world ?nv) (raised e (scoped (pid_scope ?nv ?cfg) [Decode sample_exec 0])) (LogSink logf)),
          Some (written_all (nv_world ?nv) (raised e (scoped (pid_scope ?nv ?cfg) [Decode sample_exec 0]))
            (display_sink ?nv ?cfg e logf SeverityLow))])"
    using live_run_reports [of ?nv ?cfg SeverityLow e logf _ ?xs ?stopped] args start plain sev e logf ok col reads readable raws
    by (simp add: Let_def)
  moreover have "pid_scope ?nv ?cfg = None" by (simp add: pid_scope_def parseFlags_defaults_def)
  moreover have "splitRules (cf_rules ?cfg) = []" "cf_outputPath ?cfg = ''./alerts.jsonl''"
    by (simp_all add: parseFlags_defaults_def splitRules_def)
  ultimately show ?thesis using cs e logf world by (fastforce simp: Let_def)
qed

end
