(* ===== verification/Shutdown.thy ===== *)
theory Shutdown
  imports Loader
begin

text \<open>
  \<open>Run\<close> of \<^verbatim>\<open>ebpfloader/loader.go\<close> with its second goroutine: reading the ring buffer blocks in the kernel, so a
  watcher closes the reader when the context is cancelled and leaves when \<open>Run\<close> returns.  The states are
  those of both goroutines and of the reader; the steps interleave.  \<open>Loader\<close> has the loop alone, as a
  function of what the reads answer; every run here is one of those.
\<close>

record run_machine =
  rm_cancelled :: bool
  rm_closed :: bool
  rm_watching :: bool
  rm_done :: bool
  rm_records :: "u8 list list"
  rm_state :: run_state

text \<open>The context, the reader, the watcher, the channel \<open>done\<close>, the records in the ring buffer, and the loop.\<close>

definition run_start :: "u8 list list \<Rightarrow> run_machine" where
  "run_start records =
     \<lparr>rm_cancelled = False, rm_closed = False, rm_watching = True, rm_done = False, rm_records = records,
      rm_state = \<lparr>rn_handled = [], rn_warnings = [], rn_result = None\<rparr>\<rparr>"

definition closed_error :: "goerror \<Rightarrow> bool" where
  "closed_error e \<longleftrightarrow> errors_Is e RingbufErrClosed \<or> errors_Is e OsErrClosed"

definition run_failed :: "goerror \<Rightarrow> bool \<Rightarrow> goerror option" where
  "run_failed e cancelled =
     (if closed_error e then None else if cancelled then None else Some (errorf ''reading from ring buffer: '' e))"

definition run_record :: "int \<Rightarrow> u8 list \<Rightarrow> run_state \<Rightarrow> run_state" where
  "run_record boot b st =
     (case parseRecord b of
        Inl msg \<Rightarrow> st\<lparr>rn_warnings := rn_warnings st @ [msg]\<rparr>
      | Inr raw \<Rightarrow> st\<lparr>rn_handled := rn_handled st @ [Decode raw boot]\<rparr>)"

text \<open>A read of a closed reader fails with an error that says so, as the library documents; an open one may
  fail for any reason.  The deferred close of \<open>done\<close> goes with the return.\<close>

inductive run_step :: "int \<Rightarrow> run_machine \<Rightarrow> run_machine \<Rightarrow> bool" for boot where
  Cancel: "run_step boot s (s\<lparr>rm_cancelled := True\<rparr>)"
| Arrive: "run_step boot s (s\<lparr>rm_records := rm_records s @ [b]\<rparr>)"
| Read: "rn_result (rm_state s) = None \<Longrightarrow> \<not> rm_closed s \<Longrightarrow> rm_records s = b # bs \<Longrightarrow>
    run_step boot s (s\<lparr>rm_records := bs, rm_state := run_record boot b (rm_state s)\<rparr>)"
| ReadFails: "rn_result (rm_state s) = None \<Longrightarrow> rm_closed s \<longrightarrow> closed_error e \<Longrightarrow>
    run_step boot s (s\<lparr>rm_done := True, rm_state := (rm_state s)\<lparr>rn_result := Some (run_failed e (rm_cancelled s))\<rparr>\<rparr>)"
| WatcherCloses: "rm_watching s \<Longrightarrow> rm_cancelled s \<Longrightarrow> run_step boot s (s\<lparr>rm_closed := True, rm_watching := False\<rparr>)"
| WatcherLeaves: "rm_watching s \<Longrightarrow> rm_done s \<Longrightarrow> run_step boot s (s\<lparr>rm_watching := False\<rparr>)"

inductive run_reaches :: "int \<Rightarrow> run_machine \<Rightarrow> run_machine \<Rightarrow> bool" for boot where
  Stay: "run_reaches boot s s"
| Move: "run_reaches boot s s' \<Longrightarrow> run_step boot s' s'' \<Longrightarrow> run_reaches boot s s''"

section \<open>The loop is that of the function\<close>

lemma Run_snoc:
  assumes "list_all (\<lambda>r. \<exists>b. r = Got b) rs"
  shows "Collector_Run boot (rs @ [Got b]) = run_record boot b (Collector_Run boot rs)"
    and "Collector_Run boot (rs @ [Failed e c]) = (Collector_Run boot rs)\<lparr>rn_result := Some (run_failed e c)\<rparr>"
    and "rn_result (Collector_Run boot rs) = None"
  using assms
  by (induction rs)
    (auto simp: run_record_def run_failed_def closed_error_def Let_def split: sum.splits)

text \<open>The answers so far, the watcher's part, and the result of a loop that stopped.\<close>

definition run_inv :: "int \<Rightarrow> run_machine \<Rightarrow> bool" where
  "run_inv boot s \<longleftrightarrow>
     (\<exists>rs. list_all (\<lambda>r. \<exists>b. r = Got b) rs \<and>
       (rm_state s = Collector_Run boot rs \<and> \<not> rm_done s \<or>
        (\<exists>e c. rm_state s = Collector_Run boot (rs @ [Failed e c]) \<and> rm_done s))) \<and>
     (rm_watching s \<or> rm_closed s \<or> rm_done s)"

lemma run_inv_step:
  assumes "run_inv boot s" and "run_step boot s s'" shows "run_inv boot s'"
proof -
  obtain rs where got: "list_all (\<lambda>r. \<exists>b. r = Got b) rs"
    and st: "rm_state s = Collector_Run boot rs \<and> \<not> rm_done s \<or>
      (\<exists>e c. rm_state s = Collector_Run boot (rs @ [Failed e c]) \<and> rm_done s)"
    and w: "rm_watching s \<or> rm_closed s \<or> rm_done s"
    using assms(1) unfolding run_inv_def by blast
  note snoc = Run_snoc [OF got]
  from assms(2) show ?thesis
  proof cases
    case (Read b bs)
    then have "rm_state s = Collector_Run boot rs" "\<not> rm_done s" using st snoc(2) by auto
    then have "rm_state s' = Collector_Run boot (rs @ [Got b]) \<and> \<not> rm_done s'" using Read snoc(1) by simp
    moreover have "list_all (\<lambda>r. \<exists>b. r = Got b) (rs @ [Got b])" using got by simp
    moreover have "rm_watching s' \<or> rm_closed s' \<or> rm_done s'" using w Read by simp
    ultimately show ?thesis unfolding run_inv_def by blast
  next
    case (ReadFails e)
    then have "rm_state s = Collector_Run boot rs" using st snoc(2) by auto
    then have "rm_state s' = Collector_Run boot (rs @ [Failed e (rm_cancelled s)]) \<and> rm_done s'"
      using ReadFails snoc(2) by simp
    then show ?thesis using got unfolding run_inv_def by blast
  qed (use got st w in \<open>auto simp: run_inv_def\<close>)
qed

lemma run_inv_reaches: "run_reaches boot s s' \<Longrightarrow> run_inv boot s \<Longrightarrow> run_inv boot s'"
  by (induction rule: run_reaches.induct) (auto intro: run_inv_step)

lemma run_inv_start: "run_inv boot (run_start records)"
  unfolding run_inv_def by (rule conjI, rule exI [of _ "[]"]) (simp_all add: run_start_def)

section \<open>Cancelling\<close>

lemma cancelled_step:
  assumes "run_step boot s s'" and "rm_cancelled s" and "rn_result (rm_state s) \<in> {None, Some None}"
  shows "rm_cancelled s' \<and> rn_result (rm_state s') \<in> {None, Some None}"
  using assms
proof cases
  case (ReadFails e)
  then show ?thesis using assms(2) by (simp add: run_failed_def)
qed (auto simp: run_record_def split: sum.splits)

lemma cancelled_reaches:
  "run_reaches boot s s' \<Longrightarrow> rm_cancelled s \<Longrightarrow> rn_result (rm_state s) \<in> {None, Some None} \<Longrightarrow>
   rm_cancelled s' \<and> rn_result (rm_state s') \<in> {None, Some None}"
proof (induction rule: run_reaches.induct)
  case (Move s s' s'')
  then show ?case using cancelled_step by blast
qed simp

text \<open>On a closed reader the loop can only return.\<close>

lemma closed_step:
  "run_step boot s s' \<Longrightarrow> rm_closed s \<Longrightarrow> rm_state s' = rm_state s \<or> rm_state s' = (rm_state s)\<lparr>rn_result := Some None\<rparr>"
  by (cases rule: run_step.cases) (auto simp: run_failed_def)

text \<open>C32. Interrupting the agent works while it is blocked in the kernel.  In every interleaving the loop is a
  run of \<open>Collector_Run\<close>.  Once the context is cancelled, \<open>Run\<close> can only return without an error; the reader
  is closed or the watcher is there to close it; on the closed reader the loop has a step, its only one, and
  returns with it, handling nothing more; and when it has returned the watcher is gone or can leave.\<close>

theorem cancel_stops_run:
  assumes "run_reaches boot (run_start records) s"
  shows "(\<exists>rs. rm_state s = Collector_Run boot rs) \<and>
    (rm_cancelled s \<and> rn_result (rm_state s) = None \<longrightarrow>
      (\<forall>s'. run_reaches boot s s' \<longrightarrow> rn_result (rm_state s') \<in> {None, Some None}) \<and>
      (rm_closed s \<or> run_step boot s (s\<lparr>rm_closed := True, rm_watching := False\<rparr>))) \<and>
    (rm_closed s \<and> rn_result (rm_state s) = None \<longrightarrow>
      (\<exists>s'. run_step boot s s' \<and> rn_result (rm_state s') = Some None) \<and>
      (\<forall>s'. run_step boot s s' \<longrightarrow> rm_state s' = rm_state s \<or> rm_state s' = (rm_state s)\<lparr>rn_result := Some None\<rparr>)) \<and>
    (rn_result (rm_state s) \<noteq> None \<longrightarrow> \<not> rm_watching s \<or> run_step boot s (s\<lparr>rm_watching := False\<rparr>))"
proof -
  have inv: "run_inv boot s" by (rule run_inv_reaches [OF assms run_inv_start])
  then have running: "rm_done s \<longleftrightarrow> rn_result (rm_state s) \<noteq> None"
    unfolding run_inv_def using Run_snoc by fastforce
  have "\<forall>s'. run_reaches boot s s' \<longrightarrow> rn_result (rm_state s') \<in> {None, Some None}"
    if "rm_cancelled s" "rn_result (rm_state s) = None"
    using cancelled_reaches that by blast
  moreover have "rm_closed s \<or> run_step boot s (s\<lparr>rm_closed := True, rm_watching := False\<rparr>)"
    if "rm_cancelled s" "rn_result (rm_state s) = None"
    using inv that running WatcherCloses unfolding run_inv_def by blast
  moreover have "\<exists>s'. run_step boot s s' \<and> rn_result (rm_state s') = Some None" if "rn_result (rm_state s) = None"
  proof -
    have e: "closed_error \<lparr>er_msg = ''closed'', er_chain = [OsErrClosed]\<rparr>" by (simp add: closed_error_def errors_Is_def)
    show ?thesis by (rule exI, rule conjI, rule ReadFails [OF that impI, OF e]) (simp add: run_failed_def e)
  qed
  ultimately show ?thesis
    using inv closed_step [of boot s] WatcherLeaves [of s boot] running unfolding run_inv_def by blast
qed

theorem cancel_stops_run_witness:
  "\<forall>b. \<exists>s. run_reaches 0 (run_start [b]) s \<and> rm_cancelled s \<and>
     run_step 0 s (s\<lparr>rm_closed := True, rm_watching := False\<rparr>)"
proof
  fix b
  let ?s = "(run_start [b])\<lparr>rm_cancelled := True\<rparr>"
  have s: "run_reaches 0 (run_start [b]) ?s" by (rule Move [OF Stay Cancel])
  moreover have "rm_cancelled ?s" "rn_result (rm_state ?s) = None" "\<not> rm_closed ?s" by (simp_all add: run_start_def)
  ultimately show "\<exists>s. run_reaches 0 (run_start [b]) s \<and> rm_cancelled s \<and>
     run_step 0 s (s\<lparr>rm_closed := True, rm_watching := False\<rparr>)"
    using cancel_stops_run [OF s] by blast
qed

end
