(* ===== verification/Gencapture.thy ===== *)
theory Gencapture
  imports Records
begin

text \<open>
  \<^verbatim>\<open>internal/gencapture/main.go\<close>: the sample capture of the demonstration.  The program's variable \<open>at\<close> and
  its output are a state; encoding a record as JSON is left out, as in \<open>Records\<close>.
\<close>

definition boot :: int where
  "boot = (int (day_number 2026 10 5) - int epoch_day) * ns_per_day + 8 * 3600 * 1000000000"

record p =
  p_pid :: u32
  p_ppid :: u32
  p_uid :: u32
  p_comm :: string

definition proc :: "u32 \<Rightarrow> u32 \<Rightarrow> u32 \<Rightarrow> string \<Rightarrow> p" where
  "proc pid ppid uid comm = \<lparr>p_pid = pid, p_ppid = ppid, p_uid = uid, p_comm = comm\<rparr>"

record generator =
  gn_at :: Duration
  gn_out :: "Raw list"

definition millisecond :: Duration where [simp]: "millisecond = 1000000"

definition second :: Duration where [simp]: "second = 1000000000"

definition emit :: "p \<Rightarrow> Syscall \<Rightarrow> Duration \<Rightarrow> (Raw \<Rightarrow> Raw) \<Rightarrow> generator \<Rightarrow> generator" where
  "emit pr sc step change g =
    (let now = gn_at g + step;
         r = \<lparr>r_Timestamp = now, r_PID = p_pid pr, r_TGID = p_pid pr, r_UID = p_uid pr, r_GID = p_uid pr,
              r_PPID = p_ppid pr, r_SyscallID = sc, r_Ret = 0, r_Arg0 = 0, r_Arg1 = 0, r_Arg2 = 0, r_Daddr = 0,
              r_Dport = 0, r_Family = 0, r_Flags = 0, r_Comm = p_comm pr, r_Path = [], r_Argv = []\<rparr>
     in \<lparr>gn_at = now, gn_out = gn_out g @ [change r]\<rparr>)"

definition exec :: "p \<Rightarrow> Duration \<Rightarrow> string \<Rightarrow> string list \<Rightarrow> generator \<Rightarrow> generator" where
  "exec pr step path argv = emit pr SysExecve step (\<lambda>r. r\<lparr>r_Path := path, r_Argv := argv\<rparr>)"

definition open_file :: "p \<Rightarrow> Duration \<Rightarrow> string \<Rightarrow> generator \<Rightarrow> generator" where
  "open_file pr step path = emit pr SysOpenat step (\<lambda>r. r\<lparr>r_Path := path, r_Arg0 := -100, r_Arg1 := 524288\<rparr>)"

definition connect :: "p \<Rightarrow> Duration \<Rightarrow> u32 \<Rightarrow> u16 \<Rightarrow> generator \<Rightarrow> generator" where
  "connect pr step daddr dport =
     emit pr SysConnect step (\<lambda>r. r\<lparr>r_Arg0 := 3, r_Family := AFInet, r_Daddr := daddr, r_Dport := dport\<rparr>)"

definition socket_call :: "p \<Rightarrow> Duration \<Rightarrow> generator \<Rightarrow> generator" where
  "socket_call pr step = emit pr SysSocket step (\<lambda>r. r\<lparr>r_Arg0 := 2, r_Arg1 := 1, r_Arg2 := 6\<rparr>)"

definition socket_return :: "p \<Rightarrow> Duration \<Rightarrow> generator \<Rightarrow> generator" where
  "socket_return pr step = emit pr SysSocket step (\<lambda>r. r\<lparr>r_Flags := FlagSysExit, r_Ret := 3\<rparr>)"

definition sshdSession :: p where "sshdSession = proc 4090 812 0 ''sshd''"
definition bash :: p where "bash = proc 4100 4090 1000 ''bash''"
definition ls :: p where "ls = proc 4105 4100 1000 ''ls''"
definition curl :: p where "curl = proc 4110 4100 1000 ''curl''"
definition cat :: p where "cat = proc 4120 4100 1000 ''cat''"
definition inject :: p where "inject = proc 4130 4100 1000 ''inject''"
definition exploit :: p where "exploit = proc 4140 4100 1000 ''exploit''"
definition py :: p where "py = proc 4150 4100 1000 ''python3''"
definition cron :: p where "cron = proc 700 1 0 ''cron''"
definition backup :: p where "backup = proc 5200 700 0 ''backup.sh''"

definition script :: "(generator \<Rightarrow> generator) list" where
  "script =
     [exec sshdSession 0 ''/usr/sbin/sshd'' [''sshd: dev [priv]''],
      exec bash (40 * millisecond) ''/bin/bash'' [''-bash''],
      open_file bash (2 * millisecond) ''/etc/ld.so.cache'',
      open_file bash (3 * millisecond) ''/home/dev/.bashrc'',
      exec ls (4 * second) ''/usr/bin/ls'' [''ls'', ''-la''],
      open_file ls millisecond ''/etc/passwd'',
      exec cron (100 * millisecond) ''/usr/sbin/cron'' [''/usr/sbin/cron'', ''-f''],
      exec backup (300 * millisecond) ''/usr/local/bin/backup.sh'' [''backup.sh'']] @
     replicate 12 (open_file backup (20 * millisecond) ''/etc/shadow'') @
     [exec curl (2 * second) ''/usr/bin/curl'' [''curl'', ''-sO'', ''https://example.com/x''],
      socket_call curl millisecond, socket_return curl millisecond,
      connect curl millisecond 0x22d8b85d 0xbb01,
      exec cat (9 * second) ''/usr/bin/cat'' [''cat'', ''/home/dev/.aws/credentials''],
      open_file cat millisecond ''/home/dev/.aws/credentials'',
      exec inject (6 * second) ''/tmp/.x/inject'' [''inject'', ''4100''],
      emit inject SysPtrace (2 * millisecond) (\<lambda>r. r\<lparr>r_Arg0 := 16, r_Arg1 := 4100\<rparr>),
      exec exploit (5 * second) ''/tmp/.x/exploit'' [''exploit''],
      emit exploit SysSetuid (3 * millisecond) (\<lambda>r. r\<lparr>r_Arg0 := 0\<rparr>),
      exec py (7 * second) ''/usr/bin/python3'' [''python3'', ''-c'', ''import socket,os,pty;s=socket.socket()''],
      socket_call py (30 * millisecond), socket_return py millisecond,
      connect py millisecond 0x09250d0a 0x5c11] @
     map (\<lambda>fd. emit py SysDup2 millisecond (\<lambda>r. r\<lparr>r_Arg0 := 3, r_Arg1 := fd\<rparr>)) [0, 1, 2] @
     [exec py millisecond ''/bin/sh'' [''sh'', ''-i'']]"

definition main_gencapture :: generator where
  "main_gencapture = fold (\<lambda>step g. step g) script \<lparr>gn_at = 3 * 3600 * second, gn_out = []\<rparr>"

definition sample_records :: "Record list" where
  "sample_records = map (\<lambda>r. NewRecord (Decode r boot)) (gn_out main_gencapture)"


section \<open>The sample capture can be replayed\<close>

lemma boot_value: "boot = 1791187200000000000"
  by (simp add: boot_def day_number_def epoch_day_def days_before_def month_days_def is_leap_def)

lemma boot_year: "0 \<le> t \<Longrightarrow> t \<le> 1000000000000000000 \<Longrightarrow> four_digit_year (boot + t)"
  unfolding boot_value four_digit_year_def day_of_def epoch_day_def
  by (simp add: days_before_def)

text \<open>Every step of the script emits one record of a known call and advances the clock by at most nine seconds.\<close>

definition fine :: "generator \<Rightarrow> bool" where
  "fine g \<longleftrightarrow> list_all (\<lambda>r. r_SyscallID r \<in> fst ` set syscallNames \<and> r_SyscallID r \<noteq> SysUnknown \<and> r_Timestamp r \<le> gn_at g)
       (gn_out g) \<and> sorted (map r_Timestamp (gn_out g))"

definition calm :: "(generator \<Rightarrow> generator) \<Rightarrow> bool" where
  "calm s \<longleftrightarrow> (\<forall>g. fine g \<and> unat (gn_at g) + 9000000000 \<le> 1000000000000000000 \<longrightarrow>
     fine (s g) \<and> unat (gn_at (s g)) \<le> unat (gn_at g) + 9000000000 \<and> length (gn_out (s g)) = length (gn_out g) + 1)"

lemma calm_emit [intro]:
  assumes "sc \<in> fst ` set syscallNames" and "sc \<noteq> SysUnknown" and "unat step \<le> 9000000000"
    and "\<And>r. r_SyscallID (change r) = r_SyscallID r" and "\<And>r. r_Timestamp (change r) = r_Timestamp r"
  shows "calm (emit pr sc step change)"
proof (unfold calm_def, intro allI impI)
  fix g assume g: "fine g \<and> unat (gn_at g) + 9000000000 \<le> 1000000000000000000"
  have sum: "unat (gn_at g + step) = unat (gn_at g) + unat step"
    by (rule unat_add_lem [THEN iffD1]) (use g assms(3) in simp)
  then have le: "gn_at g \<le> gn_at g + step" by (simp add: word_le_nat_alt)
  have "fine (emit pr sc step change g)"
    using g assms le by (auto simp: fine_def emit_def Let_def list_all_iff sorted_append intro: order_trans)
  then show "fine (emit pr sc step change g) \<and> unat (gn_at (emit pr sc step change g)) \<le> unat (gn_at g) + 9000000000 \<and>
      length (gn_out (emit pr sc step change g)) = length (gn_out g) + 1"
    using sum assms(3) by (simp add: emit_def Let_def)
qed

lemma calm_calls:
  "unat step \<le> 9000000000 \<Longrightarrow> calm (exec pr step path argv)"
  "unat step \<le> 9000000000 \<Longrightarrow> calm (open_file pr step path)"
  "unat step \<le> 9000000000 \<Longrightarrow> calm (connect pr step daddr dport)"
  "unat step \<le> 9000000000 \<Longrightarrow> calm (socket_call pr step)"
  "unat step \<le> 9000000000 \<Longrightarrow> calm (socket_return pr step)"
  unfolding exec_def open_file_def connect_def socket_call_def socket_return_def
  by (rule calm_emit; simp add: syscallNames_def)+

lemma list_all_replicateI: "P x \<Longrightarrow> list_all P (replicate n x)"
  by (induction n) simp_all

lemma calm_script: "list_all calm script"
  unfolding script_def list_all_append list.map list.pred_inject millisecond_def second_def
  by (intro conjI calm_calls calm_emit TrueI list_all_replicateI) (simp_all add: syscallNames_def)

lemma calm_fold:
  "list_all calm steps \<Longrightarrow> fine g \<Longrightarrow> unat (gn_at g) + 9000000000 * length steps \<le> 1000000000000000000 \<Longrightarrow>
   fine (fold (\<lambda>s g. s g) steps g) \<and>
   unat (gn_at (fold (\<lambda>s g. s g) steps g)) \<le> unat (gn_at g) + 9000000000 * length steps \<and>
   length (gn_out (fold (\<lambda>s g. s g) steps g)) = length (gn_out g) + length steps"
proof (induction steps arbitrary: g)
  case (Cons s steps)
  then have s: "fine (s g)" "unat (gn_at (s g)) \<le> unat (gn_at g) + 9000000000" "length (gn_out (s g)) = length (gn_out g) + 1"
    by (simp_all add: calm_def)
  moreover have "unat (gn_at (s g)) + 9000000000 * length steps \<le> 1000000000000000000"
    using s(2) Cons.prems(3) by simp
  ultimately show ?case using Cons.IH [of "s g"] Cons.prems(1) by simp
qed simp

lemma script_length: "length script = 38"
  unfolding script_def by simp

lemma gencapture_fine:
  "fine main_gencapture" "unat (gn_at main_gencapture) \<le> 11142000000000" "length (gn_out main_gencapture) = 38"
  using calm_fold [OF calm_script, of "\<lparr>gn_at = 3 * 3600 * second, gn_out = []\<rparr>"]
  unfolding main_gencapture_def script_length by (simp_all add: fine_def)

lemma sint_small:
  fixes w :: u64
  assumes "unat w \<le> 11142000000000" shows "sint w = int (unat w)"
proof -
  have "unat w < 2 ^ 63" using assms by (rule le_less_trans) simp
  then have "int (unat w) < 2 ^ 63" by (metis of_nat_less_iff of_nat_numeral of_nat_power)
  then show ?thesis
    unfolding sint_uint uint_nat by (intro signed_take_bit_int_eq_self) (simp_all add: order_trans [OF _ uint_ge_0])
qed

text \<open>The sample capture holds the 38 calls of the script in the order of their clock, and each of its records
  reads back as the event it was written from.\<close>

theorem sample_capture_replays:
  "length sample_records = 38 \<and> sorted (map rc_Monotonic sample_records) \<and>
   map (Record_Event rd) sample_records = map (\<lambda>r. Inr (recorded (Decode r boot))) (gn_out main_gencapture)"
proof -
  have r: "recordable (Decode r boot)" if "r \<in> set (gn_out main_gencapture)" for r
  proof (rule Decode_recordable)
    have "r_Timestamp r \<le> gn_at main_gencapture" and "r_SyscallID r \<in> fst ` set syscallNames" and "r_SyscallID r \<noteq> SysUnknown"
      using gencapture_fine(1) that unfolding fine_def list_all_iff by blast+
    then show "r_SyscallID r \<in> fst ` set syscallNames" and "r_SyscallID r \<noteq> SysUnknown" by blast+
    have small: "unat (r_Timestamp r) \<le> 11142000000000"
      using gencapture_fine(2) \<open>r_Timestamp r \<le> gn_at main_gencapture\<close> by (simp add: word_le_nat_alt)
    have "sint (r_Timestamp r) = int (unat (r_Timestamp r))" using small by (rule sint_small)
    moreover have "int (unat (r_Timestamp r)) \<le> 1000000000000000000"
      using of_nat_mono [OF small, where 'a = int] by (simp only: of_nat_numeral)
    ultimately show "four_digit_year (boot + sint (r_Timestamp r))"
      by (metis boot_year of_nat_0_le_iff)
  qed
  have "sorted (map rc_Monotonic sample_records)"
    using gencapture_fine(1) by (simp add: sample_records_def fine_def Decode_fields o_def)
  with r show ?thesis
    by (simp add: gencapture_fine(3) sample_records_def Record_Event_NewRecord)
qed

end
