(* ===== verification/Spec2Isabelle.thy ===== *)
theory Spec2Isabelle
  imports Syscalls Constants Events Tracker Alerts Rules PtraceRule PrivEsc SensitiveFile RevShell
    Dedup Storyline StorylineInv Engine PidFilter GoErrors WireRecord Loader Records Sinks Console Layout
    DashboardFit DashboardHeight DashboardState Startup LiveRun Shutdown Gencapture
begin

text \<open>
  KrnlSentry watches Linux system calls through eBPF probes and reports behaviour that looks like an
  attack.  The kernel half writes fixed-size records into a ring buffer; the Go half loads it
  (\<open>src/ebpfloader\<close>), decodes the records (\<open>src/events\<close>), keeps a short history of every process, runs four
  detection rules, correlates the alerts of a process tree into storylines, folds repeats
  (\<open>src/detect\<close>) and hands what is left to a log file, a console or a full-screen dashboard
  (\<open>src/output\<close>); the command (\<open>src/cmd/krnlsentry\<close>) wires it together, live or from a capture.  This
  development models the Go half, from the bytes of the ring buffer to what reaches the operator.

  \<^bold>\<open>Machine and library.\<close>

  \<^item> \<open>Prelude\<close>: machine words for Go's integers (\<open>int64\<close> is a 64-bit word read with \<open>sint\<close>), Go maps as
    association lists (so that the unspecified iteration order of \<open>range\<close> is an order of the list that
    the theorems quantify over), \<open>strconv\<close> and \<open>strings\<close> helpers, and the two locales of tables with
    an expiry sweep, \<open>swept_table\<close> and \<open>swept_cache\<close>.
  \<^item> \<open>GoText\<close>, \<open>GoNumber\<close>, \<open>GoPath\<close>, \<open>GoTime\<close>, \<open>GoCalendar\<close>, \<open>GoRunes\<close>, \<open>GoErrors\<close>: what the code calls of \<open>strconv\<close>,
    \<open>path\<close>, \<open>time\<close> (durations, the calendar, RFC 3339), the decoding of UTF-8 and \<open>errors\<close> (an error is
    its text and the chain of values that \<open>errors.Is\<close> looks through).

  \<^bold>\<open>From the kernel to an event.\<close>

  \<^item> \<open>Syscalls\<close>, \<open>Constants\<close>, \<open>Events\<close>: \<open>src/events/syscall.go\<close>, \<open>constants.go\<close>, \<open>event.go\<close>: the wire
    identifiers, the rendering of flag words, requests, families, descriptors, ids, addresses and
    errnos, and \<open>Decode\<close> from \<open>Raw\<close> to \<open>Event\<close>.
  \<^item> \<open>WireRecord\<close>: \<open>src/ebpfloader/decode.go\<close> with the layout of \<open>src/bpf/event.h\<close>: \<open>parseRecord\<close> over
    bytes, and the encoder it inverts.
  \<^item> \<open>Loader\<close>: \<open>loader.go\<close>, \<open>stats.go\<close>, \<open>loader_other.go\<close>: \<open>New\<close>, \<open>attachAll\<close>, \<open>Run\<close>, \<open>Stats\<close> and \<open>Close\<close>.
    The host is a record of what the library and the kernel answer; the calls made are recorded.
  \<^item> \<open>Shutdown\<close>: \<open>Run\<close> of \<open>loader.go\<close> again, with the goroutine that turns a cancellation into the closing of
    the reader, as a step relation; its loop is shown to be that of \<open>Loader\<close>.
  \<^item> \<open>Records\<close>: \<open>src/events/record.go\<close>: the record of a capture, written and read back, and \<open>ReadRecords\<close>
    with its line scanner and its treatment of a malformed last line.

  \<^bold>\<open>From an event to alerts.\<close>

  \<^item> \<open>Tracker\<close>: \<open>src/detect/tracker.go\<close>: the per-process history with its depth, TTL, sweep and capacity.
  \<^item> \<open>Alerts\<close>, \<open>Rules\<close>: \<open>alert.go\<close> and the declarations of \<open>engine.go\<close>: severities, techniques,
    tactics, the \<open>Alert\<close> record, the configuration, the \<open>Context\<close> a rule reads and the locale
    \<open>detection_rule\<close>, the contract of a rule: alerts are about the event, under the rule's name, with one
    of its techniques, and only the rule's own marks are added to the argument map.
  \<^item> \<open>PtraceRule\<close>, \<open>PrivEsc\<close>, \<open>SensitiveFile\<close>, \<open>RevShell\<close>: \<open>ptrace.go\<close>, \<open>privesc.go\<close>,
    \<open>sensitivefile.go\<close>, \<open>revshell.go\<close>: the rules, each an interpretation of \<open>detection_rule\<close>.
  \<^item> \<open>Dedup\<close>: \<open>dedup.go\<close>: the key of a finding and the fixed window in which repeats are folded.
  \<^item> \<open>Storyline\<close>, \<open>StorylineInv\<close>: \<open>storyline.go\<close>: lineage, ancestry walk, storylines with merging and
    eviction, and the attack-chain alert; the invariant over all reachable correlator states.
  \<^item> \<open>Engine\<close>: \<open>engine.go\<close>: rule selection and \<open>Evaluate\<close>, the composition of all of the above.
    \<open>WallClock\<close> shows that evaluation reads the wall clock only to stamp its alerts (locale
    \<open>clockless_rule\<close>, interpreted for the four rules).  \<open>Portable\<close> shows what it takes from the host, \<open>Stat\<close>
    and its own process id (locale \<open>portable_rule\<close>, interpreted for the four rules), and \<open>Unaided\<close> when the
    correlator does without its process lookup.

  \<^bold>\<open>From alerts to the operator.\<close>

  \<^item> \<open>Sinks\<close>: \<open>src/output/sink.go\<close>, \<open>jsonl.go\<close>: \<open>MultiSink\<close> and the two log files.  \<open>Console\<close>: \<open>console.go\<close>: the
    line of an alert, its colours and the banner.
  \<^item> \<open>Layout\<close>, \<open>Dashboard\<close>, \<open>Terminal\<close>: \<open>dashboard.go\<close>, \<open>term.go\<close> and the two builds of the terminal probes: columns, chips and dividers; the state of the
    display, the panels, fitting a frame to the terminal, painting, the repaint loop and closing.
    \<open>Columns\<close> and \<open>DashboardFit\<close> count printed columns, \<open>DashboardHeight\<close> rows; \<open>DashboardState\<close> is about
    counting, the process list and closing.

  \<^bold>\<open>The command.\<close>

  \<^item> \<open>PidFilter\<close>: \<open>src/cmd/krnlsentry/pidfilter.go\<close>: the \<open>--pid\<close> process-tree scope.
  \<^item> \<open>Flags\<close>: \<open>main.go\<close>: the options, the reading of the arguments as package \<open>flag\<close> does it, the usage text.
  \<^item> \<open>Agent\<close>: engine configuration, counters, \<open>process\<close>, metrics, summary and rule list.
  \<^item> \<open>Pump\<close>: the collector's goroutine and the main loop with the bounded channel between them, as a step
    relation whose runs are the interleavings, and as a function of a schedule.
  \<^item> \<open>Replay\<close>: the pacer and \<open>replay\<close>.  \<open>Startup\<close>: \<open>run\<close> and \<open>main\<close>, with the deferred
    closing.  \<open>LiveRun\<close>: the live agent from the bytes of the ring buffer to the log and the console.
  \<^item> \<open>Gencapture\<close>: \<open>src/internal/gencapture/main.go\<close>, the sample capture of the demonstration.

  \<^bold>\<open>How the code is read.\<close>  A struct is a record, an enumeration a datatype or a word with named values, a
  method a function from the receiver's state to the new state and the results.  A nil pointer is
  \<open>None\<close>, an error is \<open>Inl\<close> or \<open>Some\<close> with its text.  A rule mutates the argument map of its event, which the
  alerts share: an evaluation returns the final map, and an alert holds either a reference to it
  (\<open>EventArgs\<close>) or a map of its own (\<open>OwnArgs\<close>), resolved when the engine hands it out.  Operations under a
  lock are atomic steps; where other goroutines act between two of them, the later one reads an
  arbitrary state (\<open>views\<close> of a frame) or the steps interleave (\<open>Pump\<close>).  A call that may block for ever
  has a result for it (\<open>Blocked\<close>, \<open>Hangs\<close>, \<open>None\<close> of \<open>replay\<close>, \<open>rn_result = None\<close>).  What the program asks of
  the host or of packages outside the repository is a parameter: file metadata, directory listings
  and files, the process lookup, print classes of \<open>strconv.Quote\<close>, the answers of the eBPF library,
  \<open>encoding/json\<close> on one line, the file system of the logs, the terminal, the time zone, and the rounding
  of floating point (\<open>mo_round\<close>, \<open>fl_round\<close>: any function the theorems do not constrain, or constrain by
  what IEEE rounding satisfies).

  \<^bold>\<open>What is shown.\<close>  Renderings lose nothing and parsing inverts printing (\<open>Syscalls\<close>, \<open>Constants\<close>,
  \<open>WireRecord\<close>, \<open>Records\<close>, \<open>Gencapture\<close>); decoding ignores stale registers (\<open>Events\<close>); a collector is built
  completely or not at all (\<open>Loader\<close>), and a cancelled one stops without an error (\<open>Shutdown\<close>); each cache is bounded under any stream and equals its
  specification on ordinary ones (\<open>Tracker\<close>, \<open>Dedup\<close>, \<open>Storyline\<close>); each rule fires exactly in the
  situations written out in its theorem; the correlator's invariant holds in all reachable states,
  and an alert unifies the stories of its process chain; the engine detects a reverse shell through
  history, rule, correlation and deduplication; the scope is the set of descendants; options are read as they are written (\<open>Flags\<close>); every alert
  reaches every sink (\<open>Agent\<close>); no event is lost uncounted in any interleaving, and the pump returns when
  the collector does (\<open>Pump\<close>); what a live run has written is what detection makes of the ring buffer's
  records (\<open>LiveRun\<close>); a replay of the debug log finds what the live run found, and tells the same
  stories when the capture describes its own lineage (\<open>Replay\<close>); the
  dashboard counts what it was given and its frame leaves a line of the terminal free (\<open>DashboardState\<close>,
  \<open>DashboardFit\<close>, \<open>DashboardHeight\<close>).  The theorems also state where the code departs from its intent: a failed
  start under \<open>--dashboard\<close> never returns (\<open>Startup\<close>), a frame that just fits scrolls (\<open>DashboardHeight\<close>), one
  failed write silences the log (\<open>Sinks\<close>), joined stories are not reported (\<open>StorylineInv\<close>), and
  others named in the theories.

  \<^bold>\<open>Bounds and fuel.\<close>  No definition needs fuel.  The loops that are not structural have a measure:
  \<open>itoa_loop\<close> (the index into its buffer; an index out of range is the value \<open>None\<close>, and \<open>itoa\<close> is shown
  never to return it), \<open>ancestry_loop\<close> (the slots left of sixteen), \<open>seed_loop\<close> (the processes not yet
  in scope), \<open>quote_body\<close> (the bytes left) and \<open>render_loop\<close> (what a layout can still give up).  The bounds
  of the code (32 entries and 8192 processes, 16384 keys, 24 steps, 65536 nodes, 4096 queued events,
  64 recent alerts) are those of the source.

  \<^bold>\<open>Not modelled.\<close>  The eBPF programs in C; the text \<open>encoding/json\<close> produces beyond what a reader gets back;
  the value \<open>strconv.ParseFloat\<close> reads (a parameter); log lines of \<open>slog\<close>; the delivery of signals (a cancelled context is
  a value the host answers with); the locks themselves; and elapsed time, except as the bound on a
  pacer's sleep.
\<close>

end
